(* ===== verification/Kernel_Prelude.thy ===== *)
theory Kernel_Prelude
  imports Main "HOL-Library.Word" "HOL-Library.Monad_Syntax"
begin

unbundle bit_operations_syntax

text \<open>
  What every component of the kernel model shares: the machine integers of an RV64 target, Rust's
  checked arithmetic, the reading of a panic as the value \<^const>\<open>None\<close>, counted loops in the
  option type, and generic facts on words and lists.

  The kernel is built with \<^verbatim>\<open>cargo build\<close> (debug profile), so an arithmetic overflow, a failed
  \<^verbatim>\<open>assert!\<close>, an \<^verbatim>\<open>unwrap\<close> of \<^verbatim>\<open>None\<close> and an index out of range all end in the panic handler of
  \<^verbatim>\<open>kernel_main/src/main.rs\<close>, which loops forever: the function does not return. A function that
  can panic therefore has an option type in the model, and \<^const>\<open>None\<close> says that it does not
  return.
\<close>

section \<open>Machine integers\<close>

type_synonym u8 = "8 word"
type_synonym u16 = "16 word"
type_synonym u32 = "32 word"
type_synonym u64 = "64 word"
type_synonym usize = "64 word"

abbreviation usize_MAX :: usize where
  "usize_MAX \<equiv> - 1"

named_theorems kernel_bits \<open>bit-level characterisations of the masks and fields of the model\<close>
named_theorems kernel_step \<open>functional equations of the components' operations\<close>
named_theorems kernel_inv \<open>preservation of the components' invariants\<close>

section \<open>Checked arithmetic and panics\<close>

datatype 'a Poll = Ready 'a | Pending

definition checked_add :: "usize \<Rightarrow> usize \<Rightarrow> usize option" where
  "checked_add a b = (if unat a + unat b < 2 ^ 64 then Some (a + b) else None)"

definition checked_sub :: "usize \<Rightarrow> usize \<Rightarrow> usize option" where
  "checked_sub a b = (if b \<le> a then Some (a - b) else None)"

definition checked_mul :: "usize \<Rightarrow> usize \<Rightarrow> usize option" where
  "checked_mul a b = (if unat a * unat b < 2 ^ 64 then Some (a * b) else None)"

definition saturating_add :: "u64 \<Rightarrow> u64 \<Rightarrow> u64" where
  "saturating_add a b = (if unat a + unat b < 2 ^ 64 then a + b else - 1)"

definition assert_that :: "bool \<Rightarrow> unit option" where
  "assert_that b = (if b then Some () else None)"

lemma assert_that_simps [simp]:
  "assert_that True = Some ()"
  "assert_that False = None"
  "assert_that b = Some u \<longleftrightarrow> b"
  by (simp_all add: assert_that_def)

lemma unat_pow2: "k < 64 \<Longrightarrow> unat (2 ^ k :: usize) = 2 ^ k"
proof -
  assume k: "k < 64"
  have "unat (of_nat (2 ^ k) :: usize) = 2 ^ k mod 2 ^ 64"
    by (simp only: unat_of_nat) simp
  also have "\<dots> = 2 ^ k"
    using k by (intro mod_less power_strict_increasing) auto
  finally show ?thesis by simp
qed

lemma unat_usize_less: "unat (w :: usize) < 2 ^ 64"
  using unsigned_less [of w] by simp

lemma nat_bit_less: "(k :: nat) < 2 ^ m \<Longrightarrow> bit k n \<Longrightarrow> n < m"
  by (metis bit_take_bit_iff take_bit_nat_eq_self_iff)

lemma unat_add_no_overflow:
  "unat a + unat b < 2 ^ 64 \<Longrightarrow> unat (a + b :: usize) = unat a + unat b"
  by (simp add: unat_word_ariths)

lemma checked_add_Some:
  "checked_add a b = Some c \<longleftrightarrow> unat a + unat b < 2 ^ 64 \<and> c = a + b"
  by (auto simp: checked_add_def)

lemma checked_sub_Some: "checked_sub a b = Some c \<longleftrightarrow> b \<le> a \<and> c = a - b"
  by (auto simp: checked_sub_def)

lemma unat_saturating_add:
  "unat (saturating_add a b) = min (unat a + unat b) (2 ^ 64 - 1)"
proof (cases "unat a + unat b < 2 ^ 64")
  case True
  then show ?thesis
    by (simp add: saturating_add_def unat_add_no_overflow)
next
  case False
  have "unat (- 1 :: u64) = 2 ^ 64 - 1"
    by (simp add: unsigned_minus_1_eq_mask mask_eq_exp_minus_1)
  with False show ?thesis
    by (simp add: saturating_add_def)
qed

lemma unat_of_nat_usize: "x < 2 ^ 64 \<Longrightarrow> unat (of_nat x :: usize) = x"
  by (simp only: unat_of_nat) simp

section \<open>Counted loops whose body can panic\<close>

text \<open>\<open>for x in xs\<close> with a mutable state \<open>s\<close>: the loop stops at the first iteration that panics.\<close>

primrec foldM :: "('a \<Rightarrow> 's \<Rightarrow> 's option) \<Rightarrow> 'a list \<Rightarrow> 's \<Rightarrow> 's option" where
  "foldM f [] s = Some s"
| "foldM f (x # xs) s = Option.bind (f x s) (foldM f xs)"

lemma foldM_append: "foldM f (xs @ ys) s = Option.bind (foldM f xs s) (foldM f ys)"
  by (induction xs arbitrary: s) (simp_all add: fun_eq_iff cong: option.case_cong split: bind_splits)

lemma foldM_invariant:
  assumes "foldM f xs s = Some t" and "P s"
    and "\<And>x s t. x \<in> set xs \<Longrightarrow> P s \<Longrightarrow> f x s = Some t \<Longrightarrow> P t"
  shows "P t"
  using assms
proof (induction xs arbitrary: s)
  case Nil
  then show ?case by simp
next
  case (Cons x xs)
  from Cons.prems(1) obtain u where u: "f x s = Some u" "foldM f xs u = Some t"
    by (auto simp: bind_eq_Some_conv)
  have "P u"
    using Cons.prems u by auto
  with u(2) show ?case
    using Cons.IH [of u] Cons.prems(3) by auto
qed

section \<open>Counting the elements of a list\<close>

definition count_if :: "('a \<Rightarrow> bool) \<Rightarrow> 'a list \<Rightarrow> nat" where
  "count_if P xs = length (filter P xs)"

lemma count_if_simps [simp]:
  "count_if P [] = 0" "count_if P (x # xs) = (if P x then Suc (count_if P xs) else count_if P xs)"
  by (simp_all add: count_if_def)

lemma count_if_replicate [simp]: "count_if P (replicate n x) = (if P x then n else 0)"
  by (induction n) simp_all

lemma count_if_le_length: "count_if P xs \<le> length xs"
  by (simp add: count_if_def)

lemma count_if_update:
  "i < length xs \<Longrightarrow>
   count_if P (xs[i := y]) + of_bool (P (xs ! i)) = count_if P xs + of_bool (P y)"
proof (induction xs arbitrary: i)
  case (Cons x xs)
  then show ?case by (cases i) auto
qed simp

lemma count_if_pos: "i < length xs \<Longrightarrow> P (xs ! i) \<Longrightarrow> 0 < count_if P xs"
  by (auto simp: count_if_def filter_empty_conv)

lemma count_if_zero: "count_if P xs = 0 \<longleftrightarrow> (\<forall>x\<in>set xs. \<not> P x)"
  by (simp add: count_if_def filter_empty_conv)

lemma count_if_two:
  assumes "i < length xs" "j < length xs" "i \<noteq> j" "P (xs ! i)" "P (xs ! j)"
  shows "2 \<le> count_if P xs"
proof -
  have "card {i, j} \<le> card {k. k < length xs \<and> P (xs ! k)}"
    by (intro card_mono) (use assms in auto)
  then show ?thesis using assms(3) by (simp add: count_if_def length_filter_conv_card)
qed

lemma update_ball: "\<forall>x\<in>set xs. P x \<Longrightarrow> P y \<Longrightarrow> \<forall>x\<in>set (xs[i := y]). P x"
  using set_update_subset_insert by fastforce

end
