(* ===== verification/Page_Entries.thy ===== *)
theory Page_Entries
  imports Kernel_Prelude
begin

text \<open>
  \<^verbatim>\<open>kernel_paging/src/lib.rs\<close> (entry bits, \<^verbatim>\<open>Entry\<close>, \<^verbatim>\<open>Table\<close>) and the address arithmetic of
  \<^verbatim>\<open>kernel_paging/src/paging.rs\<close> (virtual page numbers, canonical addresses). The const generics
  \<^verbatim>\<open>LEVELS\<close> and \<^verbatim>\<open>PTESIZE\<close> and the level indices are natural numbers; addresses and entries are
  64-bit words. Facts are stated bit by bit: the \<open>kernel_bits\<close> collection turns each mask and
  field into its set of bit positions.
\<close>

section \<open>Entry bits\<close>

definition VALID :: usize where "VALID = push_bit 0 1"
definition READ :: usize where "READ = push_bit 1 1"
definition WRITE :: usize where "WRITE = push_bit 2 1"
definition EXECUTE :: usize where "EXECUTE = push_bit 3 1"
definition USER :: usize where "USER = push_bit 4 1"
definition GLOBAL :: usize where "GLOBAL = push_bit 5 1"
definition ACCESSED :: usize where "ACCESSED = push_bit 6 1"
definition DIRTY :: usize where "DIRTY = push_bit 7 1"
definition ADDRESS_MASK :: usize where "ADDRESS_MASK = usize_MAX XOR (push_bit 8 1 - 1)"
definition RWX :: usize where "RWX = READ OR WRITE OR EXECUTE"
definition CODE_SUPERVISOR :: usize where "CODE_SUPERVISOR = push_bit 1 1 OR push_bit 3 1 OR 1"
definition DATA_SUPERVISOR :: usize where "DATA_SUPERVISOR = push_bit 1 1 OR push_bit 2 1 OR 1"

definition ENTRY_COUNT :: usize where "ENTRY_COUNT = 512"
definition PAGE_ALIGN :: usize where "PAGE_ALIGN = 4096"
definition PAGE_SIZE :: usize where "PAGE_SIZE = PAGE_ALIGN"
definition MEGAPAGE_SIZE :: usize where "MEGAPAGE_SIZE = PAGE_ALIGN * ENTRY_COUNT"
definition GIGAPAGE_SIZE :: usize where "GIGAPAGE_SIZE = PAGE_ALIGN * ENTRY_COUNT * ENTRY_COUNT"
definition TERAPAGE_SIZE :: usize where
  "TERAPAGE_SIZE = PAGE_ALIGN * ENTRY_COUNT * ENTRY_COUNT * ENTRY_COUNT"
definition UNRESERVED_BITS_MASK :: usize where "UNRESERVED_BITS_MASK = 2 ^ 54 - 1"

datatype PageLookupError = PageFault | AccessFault | ReservedBitSet | Invalid | WriteOnly

section \<open>Entries and tables\<close>

record Entry =
  pte :: usize

record Table =
  entries :: "Entry list"

definition entry_zeroed :: Entry where
  "entry_zeroed = \<lparr>pte = 0\<rparr>"

definition table_zeroed :: "nat \<Rightarrow> Table" where
  "table_zeroed PTESIZE = \<lparr>entries = replicate (4096 div PTESIZE) entry_zeroed\<rparr>"

text \<open>
  \<^verbatim>\<open>Index\<close> and \<^verbatim>\<open>IndexMut\<close> on a table panic out of range. \<^verbatim>\<open>table_store\<close> is the write through
  the reference that \<^verbatim>\<open>index_mut\<close> returns.
\<close>

definition table_index :: "Table \<Rightarrow> nat \<Rightarrow> Entry option" where
  "table_index t idx = (if idx < length (entries t) then Some (entries t ! idx) else None)"

definition table_store :: "Table \<Rightarrow> nat \<Rightarrow> Entry \<Rightarrow> Table option" where
  "table_store t idx e =
     (if idx < length (entries t) then Some (t\<lparr>entries := (entries t)[idx := e]\<rparr>) else None)"

definition address :: "Entry \<Rightarrow> usize" where
  "address e = push_bit 2 (pte e AND ADDRESS_MASK)"

definition is_leaf :: "Entry \<Rightarrow> bool" where
  "is_leaf e \<longleftrightarrow>
     pte e AND (READ OR EXECUTE) \<noteq> 0 \<or> pte e AND VALID = 0 \<or> pte e AND ADDRESS_MASK = 0"

text \<open>\<^verbatim>\<open>index * 8\<close> is a multiplication of two \<^verbatim>\<open>u8\<close>, which panics from \<open>32\<close> on.\<close>

definition ppn_index :: "Entry \<Rightarrow> u8 \<Rightarrow> u8 option" where
  "ppn_index e index =
     (if unat index * 8 < 256
      then (if unat (index * 8) < 64
            then Some (ucast (drop_bit (unat (index * 8)) (drop_bit 10 (pte e))) AND - 1)
            else None)
      else None)"

subsection \<open>Bits of the masks\<close>

lemma push_bit_one_word: "(push_bit n 1 :: 'a::len word) = 2 ^ n"
  by (simp add: push_bit_eq_mult)

lemma VALID_eq [simp]: "VALID = 1" by (simp add: VALID_def)
lemma READ_eq [simp]: "READ = 2" by (simp add: READ_def)
lemma WRITE_eq [simp]: "WRITE = 4" by (simp add: WRITE_def)
lemma EXECUTE_eq [simp]: "EXECUTE = 8" by (simp add: EXECUTE_def)
lemma UNRESERVED_BITS_MASK_eq: "UNRESERVED_BITS_MASK = mask 54"
  by (simp add: UNRESERVED_BITS_MASK_def mask_eq_exp_minus_1)

lemma bit_ADDRESS_MASK [kernel_bits]: "bit ADDRESS_MASK n \<longleftrightarrow> 8 \<le> n \<and> n < 64"
proof -
  have mask: "ADDRESS_MASK = NOT (mask 8)"
    by (simp add: ADDRESS_MASK_def mask_eq_exp_minus_1 push_bit_one_word)
  show ?thesis
    unfolding mask by (auto simp: bit_simps)
qed

lemma bit_UNRESERVED [kernel_bits]: "bit UNRESERVED_BITS_MASK n \<longleftrightarrow> n < 54"
  by (auto simp: UNRESERVED_BITS_MASK_eq bit_simps)

lemma and_pow2_eq_0_iff: "(w :: 'a::len word) AND 2 ^ n = 0 \<longleftrightarrow> \<not> bit w n"
  by (metis and_exp_eq_0_iff_not_bit)

lemma and_1_iff: "(w :: 'a::len word) AND 1 = 0 \<longleftrightarrow> \<not> bit w 0"
  and and_2_iff: "(w :: 'a::len word) AND 2 = 0 \<longleftrightarrow> \<not> bit w 1"
  and and_4_iff: "(w :: 'a::len word) AND 4 = 0 \<longleftrightarrow> \<not> bit w 2"
  and and_8_iff: "(w :: 'a::len word) AND 8 = 0 \<longleftrightarrow> \<not> bit w 3"
  using and_pow2_eq_0_iff [of w 0] and_pow2_eq_0_iff [of w 1]
    and_pow2_eq_0_iff [of w 2] and_pow2_eq_0_iff [of w 3]
  by simp_all

lemmas and_flag_iffs = and_1_iff and_2_iff and_4_iff and_8_iff

lemma is_leaf_bits:
  "is_leaf e \<longleftrightarrow> bit (pte e) 1 \<or> bit (pte e) 3 \<or> \<not> bit (pte e) 0 \<or> pte e AND ADDRESS_MASK = 0"
proof -
  have "pte e AND (READ OR EXECUTE) = 0 \<longleftrightarrow> pte e AND 2 = 0 \<and> pte e AND 8 = 0"
    by (simp only: READ_eq EXECUTE_eq bit.conj_disj_distrib or_eq_0_iff)
  then show ?thesis
    by (simp add: is_leaf_def and_flag_iffs)
qed

lemma bit_address [kernel_bits]: "bit (address e) n \<longleftrightarrow> 10 \<le> n \<and> n < 64 \<and> bit (pte e) (n - 2)"
  by (auto simp: address_def bit_simps kernel_bits)

section \<open>Virtual page numbers\<close>

fun log2 :: "nat \<Rightarrow> nat" where
  "log2 n = (if n < 2 then 0 else Suc (log2 (n div 2)))"

declare log2.simps [simp del]

definition get_vpn_offset :: "nat \<Rightarrow> nat \<Rightarrow> u8" where
  "get_vpn_offset i ptesize = of_nat (12 + i * (12 - log2 ptesize))"

definition get_entry_power :: "nat \<Rightarrow> usize" where
  "get_entry_power ptesize = 2 ^ (12 - log2 ptesize) - 1"

definition get_entry_count :: "nat \<Rightarrow> usize" where
  "get_entry_count ptesize = 4096 div of_nat ptesize"

definition get_vpn_number :: "usize \<Rightarrow> nat \<Rightarrow> nat \<Rightarrow> u16" where
  "get_vpn_number virtual_address i ptesize =
     ucast (drop_bit (unat (get_vpn_offset i ptesize)) virtual_address
            AND (get_entry_count ptesize - 1))"

definition set_vpn_number :: "usize \<Rightarrow> nat \<Rightarrow> u16 \<Rightarrow> nat \<Rightarrow> usize" where
  "set_vpn_number virtual_address i v ptesize =
     (virtual_address
        AND NOT (push_bit (unat (get_vpn_offset i ptesize)) (get_entry_count ptesize - 1)))
     OR push_bit (unat (get_vpn_offset i ptesize)) (ucast v)"

definition get_vpn_size :: "nat \<Rightarrow> nat \<Rightarrow> usize" where
  "get_vpn_size i ptesize = push_bit (unat (get_vpn_offset i ptesize)) 1"

definition get_page_offset :: "usize \<Rightarrow> usize" where
  "get_page_offset virtual_address = virtual_address AND (push_bit 12 1 - 1)"

text \<open>
  The two page-table formats that exist on the hardware: 8-byte entries (Sv39, Sv48, Sv57) and
  4-byte entries (Sv32). \<open>vpn_bits\<close> is the width of one virtual page number.
\<close>

definition vpn_bits :: "nat \<Rightarrow> nat" where
  "vpn_bits ptesize = 12 - log2 ptesize"

abbreviation vpn_shift :: "nat \<Rightarrow> nat \<Rightarrow> nat" where
  "vpn_shift i ptesize \<equiv> 12 + i * vpn_bits ptesize"

lemma log2_4 [simp]: "log2 4 = 2" and log2_8 [simp]: "log2 8 = 3"
  by (simp_all add: log2.simps)

lemma vpn_bits_simps [simp]: "vpn_bits 8 = 9" "vpn_bits 4 = 10"
  by (simp_all add: vpn_bits_def)

lemma unat_get_vpn_offset:
  "vpn_shift i ptesize < 256 \<Longrightarrow> unat (get_vpn_offset i ptesize) = vpn_shift i ptesize"
  unfolding get_vpn_offset_def vpn_bits_def by (subst unat_of_nat) simp

lemma get_entry_count_mask:
  "ptesize = 4 \<or> ptesize = 8 \<Longrightarrow> get_entry_count ptesize - 1 = mask (vpn_bits ptesize)"
  by (auto simp: get_entry_count_def mask_eq_exp_minus_1)

lemma bit_get_vpn_number [kernel_bits]:
  assumes "ptesize = 4 \<or> ptesize = 8" and "vpn_shift i ptesize < 256"
  shows "bit (get_vpn_number va i ptesize) n \<longleftrightarrow>
    n < vpn_bits ptesize \<and> bit va (vpn_shift i ptesize + n)"
  using assms
  by (auto simp: get_vpn_number_def get_entry_count_mask unat_get_vpn_offset bit_simps
      dest: bit_imp_le_length)

lemma bit_set_vpn_number [kernel_bits]:
  assumes "ptesize = 4 \<or> ptesize = 8" and "vpn_shift i ptesize < 256"
  shows "bit (set_vpn_number va i v ptesize) n \<longleftrightarrow> n < 64 \<and>
    (bit va n \<and> \<not> (vpn_shift i ptesize \<le> n \<and> n < vpn_shift i ptesize + vpn_bits ptesize)
     \<or> vpn_shift i ptesize \<le> n \<and> bit v (n - vpn_shift i ptesize))"
  using assms
  by (auto simp: set_vpn_number_def get_entry_count_mask unat_get_vpn_offset bit_simps
      dest: bit_imp_le_length)

lemma bit_get_page_offset [kernel_bits]: "bit (get_page_offset va) n \<longleftrightarrow> n < 12 \<and> bit va n"
proof -
  have mask: "push_bit 12 1 - 1 = (mask 12 :: usize)"
    by (simp add: mask_eq_exp_minus_1 push_bit_one_word)
  show ?thesis
    unfolding get_page_offset_def mask by (auto simp: bit_simps)
qed

lemma unat_get_vpn_number_less:
  assumes "ptesize = 4 \<or> ptesize = 8" and "vpn_shift i ptesize < 256"
  shows "unat (get_vpn_number va i ptesize) < 4096 div ptesize"
proof -
  have "take_bit (vpn_bits ptesize) (get_vpn_number va i ptesize) = get_vpn_number va i ptesize"
    by (rule bit_word_eqI) (use assms in \<open>auto simp: bit_simps kernel_bits\<close>)
  then have "unat (get_vpn_number va i ptesize) < 2 ^ vpn_bits ptesize"
    by (metis take_bit_nat_less_exp unsigned_take_bit_eq)
  then show ?thesis
    using assms(1) by auto
qed

section \<open>Canonical addresses\<close>

definition maximum_noncanon_virtual_address :: "nat \<Rightarrow> nat \<Rightarrow> usize" where
  "maximum_noncanon_virtual_address LEVELS PTESIZE =
     push_bit (unat (get_vpn_offset LEVELS PTESIZE)) 1 - 1"

definition canonicalize_address :: "nat \<Rightarrow> nat \<Rightarrow> usize \<Rightarrow> usize" where
  "canonicalize_address LEVELS PTESIZE addr =
     (let uppermost_significant_bit = unat (get_vpn_offset LEVELS PTESIZE - 1);
          higher_bits = 64 - uppermost_significant_bit;
          mask = push_bit higher_bits 1 - 1;
          mask = push_bit (uppermost_significant_bit + 1) mask
      in if drop_bit uppermost_significant_bit addr AND 1 \<noteq> 0
         then addr OR mask
         else addr AND NOT mask)"

definition decanonicalize_address :: "nat \<Rightarrow> nat \<Rightarrow> usize \<Rightarrow> usize" where
  "decanonicalize_address LEVELS PTESIZE addr =
     (let uppermost_significant_bit = unat (get_vpn_offset LEVELS PTESIZE - 1);
          higher_bits = 64 - uppermost_significant_bit;
          mask = push_bit higher_bits 1 - 1;
          mask = push_bit (uppermost_significant_bit + 1) mask
      in addr AND NOT mask)"

lemma unat_get_vpn_offset_minus_1:
  assumes "vpn_shift i ptesize < 256"
  shows "unat (get_vpn_offset i ptesize - 1) = vpn_shift i ptesize - 1"
  using assms unat_get_vpn_offset [OF assms]
  by (subst unat_minus_one) (auto simp: unat_eq_zero)

lemma bit_high_mask:
  assumes "k < 64"
  shows "bit (push_bit (k + 1) (push_bit (64 - k) 1 - 1) :: usize) n \<longleftrightarrow> k < n \<and> n < 64"
proof -
  have mask: "push_bit (64 - k) 1 - 1 = (mask (64 - k) :: usize)"
    by (simp add: mask_eq_exp_minus_1 push_bit_one_word)
  show ?thesis
    unfolding mask using assms by (simp only: bit_push_bit_iff bit_mask_iff) auto
qed

lemma bit_decanonicalize [kernel_bits]:
  assumes "vpn_shift LEVELS PTESIZE \<le> 64"
  shows "bit (decanonicalize_address LEVELS PTESIZE a) n \<longleftrightarrow> n < vpn_shift LEVELS PTESIZE \<and> bit a n"
proof -
  define k where "k = vpn_shift LEVELS PTESIZE - 1"
  have k: "k < 64" "unat (get_vpn_offset LEVELS PTESIZE - 1) = k"
    using assms by (simp_all add: k_def unat_get_vpn_offset_minus_1)
  have "bit (decanonicalize_address LEVELS PTESIZE a) n \<longleftrightarrow> bit a n \<and> n < 64 \<and> \<not> (k < n \<and> n < 64)"
    unfolding decanonicalize_address_def Let_def k(2)
    by (simp only: bit_and_iff bit_not_iff bit_high_mask [OF k(1)]) (auto dest: bit_imp_le_length)
  then show ?thesis
    using assms by (auto simp: k_def)
qed

lemma bit_canonicalize [kernel_bits]:
  assumes "vpn_shift LEVELS PTESIZE \<le> 64"
  shows "bit (canonicalize_address LEVELS PTESIZE a) n \<longleftrightarrow>
    n < 64 \<and> bit a (min n (vpn_shift LEVELS PTESIZE - 1))"
proof -
  define k where "k = vpn_shift LEVELS PTESIZE - 1"
  have k: "k < 64" "unat (get_vpn_offset LEVELS PTESIZE - 1) = k"
    using assms by (simp_all add: k_def unat_get_vpn_offset_minus_1)
  have "drop_bit k a AND 1 = 0 \<longleftrightarrow> \<not> bit a k"
    by (simp add: and_1_iff bit_drop_bit_eq)
  then have "bit (canonicalize_address LEVELS PTESIZE a) n \<longleftrightarrow>
      (if bit a k then bit a n \<or> k < n \<and> n < 64 else bit a n \<and> n < 64 \<and> \<not> (k < n \<and> n < 64))"
    unfolding canonicalize_address_def Let_def k(2)
    by (simp only: bit_and_iff bit_or_iff bit_not_iff bit_high_mask [OF k(1)] if_distrib
        [of "\<lambda>w. bit w n"] not_not simp_thms cong: if_cong) (auto dest: bit_imp_le_length)
  then show ?thesis
    using assms by (auto simp: k_def min_def le_less split: if_splits dest: bit_imp_le_length)
qed

end
