(* ===== verification/Page_Tables.thy ===== *)
theory Page_Tables
  imports Page_Entries
begin

text \<open>
  \<^verbatim>\<open>kernel_paging/src/paging.rs\<close>: the software page-table walk \<^verbatim>\<open>query\<close>, \<^verbatim>\<open>Entry::split\<close> and
  \<^verbatim>\<open>GenericPaging::map\<close>, over an explicit store of tables. A \<^verbatim>\<open>&Table\<close> is the address of the
  table; following an address at which there is no table is undefined behaviour and is the value
  \<^const>\<open>None\<close>, like a panic. The functions \<^verbatim>\<open>phys_to_virt\<close> and \<^verbatim>\<open>virt_to_phys\<close> are the arguments
  the code passes (they can panic on overflow), and the heap allocator, which is a third-party
  crate, is the argument \<open>alloc\<close>: from the current store it gives a block's address and the
  block's old contents.
\<close>

type_synonym memory = "usize \<rightharpoonup> Table"
type_synonym allocator = "memory \<Rightarrow> (usize \<times> Table) option"

record GenericPaging =
  root_table :: usize
  phys_to_virt_fn :: "usize \<Rightarrow> usize option"
  virt_to_phys_fn :: "usize \<Rightarrow> usize option"

section \<open>Following an entry\<close>

definition as_table :: "(usize \<Rightarrow> usize option) \<Rightarrow> Entry \<Rightarrow> usize option" where
  "as_table phys_to_virt e = do {
     assert_that (pte e AND 1 \<noteq> 0);
     ptr \<leftarrow> phys_to_virt (address e);
     assert_that (ptr \<noteq> 0);
     Some ptr
   }"

definition try_as_table :: "(usize \<Rightarrow> usize option) \<Rightarrow> Entry \<Rightarrow> usize option option" where
  "try_as_table phys_to_virt e =
     (if is_leaf e then Some None else map_option Some (as_table phys_to_virt e))"

section \<open>Looking an address up\<close>

definition leaf_translation :: "nat \<Rightarrow> nat \<Rightarrow> Entry \<Rightarrow> usize \<Rightarrow> nat \<Rightarrow> usize option" where
  "leaf_translation LEVELS PTESIZE e virtual_addr i = do {
     assert_that (\<forall>j\<in>set [0..<i]. get_vpn_number (address e) j PTESIZE = 0);
     let pa = get_page_offset virtual_addr;
     let pa = fold (\<lambda>j pa. set_vpn_number pa j (get_vpn_number virtual_addr j PTESIZE) PTESIZE)
                [0..<Suc i] pa;
     let pa = fold (\<lambda>j pa. set_vpn_number pa j (get_vpn_number (push_bit 2 (pte e)) j PTESIZE) PTESIZE)
                [i..<LEVELS] pa;
     Some pa
   }"

fun query_loop ::
  "nat \<Rightarrow> nat \<Rightarrow> (usize \<Rightarrow> usize option) \<Rightarrow> memory \<Rightarrow> usize \<Rightarrow> usize \<Rightarrow> nat
     \<Rightarrow> (PageLookupError + usize) option" where
  "query_loop LEVELS PTESIZE phys_to_virt mem table virtual_addr i = do {
     t \<leftarrow> mem table;
     e \<leftarrow> table_index t (unat (get_vpn_number virtual_addr i PTESIZE));
     if pte e AND VALID = 0 then Some (Inl Invalid)
     else if pte e AND READ = 0 \<and> pte e AND WRITE = 1 then Some (Inl WriteOnly)
     else if PTESIZE > 4 \<and> drop_bit 54 (pte e) AND push_bit (7 - 1) 1 \<noteq> 0
       then Some (Inl ReservedBitSet)
     else do {
       next_table \<leftarrow> try_as_table phys_to_virt e;
       case next_table of
         Some this_table \<Rightarrow>
           if i = 0 then Some (Inl PageFault)
           else query_loop LEVELS PTESIZE phys_to_virt mem this_table virtual_addr (i - 1)
       | None \<Rightarrow> map_option Inr (leaf_translation LEVELS PTESIZE e virtual_addr i)
     }
   }"

declare query_loop.simps [simp del]

definition query ::
  "nat \<Rightarrow> nat \<Rightarrow> GenericPaging \<Rightarrow> memory \<Rightarrow> usize \<Rightarrow> (PageLookupError + usize) option" where
  "query LEVELS PTESIZE self mem virtual_addr =
     query_loop LEVELS PTESIZE (phys_to_virt_fn self) mem (root_table self) virtual_addr (LEVELS - 1)"

definition query_physical_address ::
  "nat \<Rightarrow> nat \<Rightarrow> GenericPaging \<Rightarrow> memory \<Rightarrow> usize \<Rightarrow> (PageLookupError + usize) option" where
  "query_physical_address LEVELS PTESIZE self mem virtual_addr =
     query LEVELS PTESIZE self mem virtual_addr"

section \<open>Splitting a leaf\<close>

text \<open>
  \<^verbatim>\<open>boxed_zeroed\<close> builds an iterator adaptor (\<^verbatim>\<open>map\<close>) over the bytes of the fresh box and drops it
  without running it: no byte is written, and the box keeps whatever the block held.
\<close>

definition boxed_zeroed :: "allocator \<Rightarrow> memory \<Rightarrow> (usize \<times> Table) option" where
  "boxed_zeroed alloc mem = alloc mem"

fun split_entries :: "usize \<Rightarrow> usize \<Rightarrow> usize \<Rightarrow> Entry list \<Rightarrow> Entry list option" where
  "split_entries flags current_address step [] = Some []"
| "split_entries flags current_address step (e # es) = do {
     next_address \<leftarrow> checked_add current_address step;
     es' \<leftarrow> split_entries flags next_address step es;
     Some (e\<lparr>pte := flags OR current_address\<rparr> # es')
   }"

definition split ::
  "allocator \<Rightarrow> (usize \<Rightarrow> usize option) \<Rightarrow> usize \<Rightarrow> memory \<Rightarrow> Entry \<Rightarrow> (memory \<times> Entry) option" where
  "split alloc virt_to_phys increment mem e = do {
     (ptr, table) \<leftarrow> boxed_zeroed alloc mem;
     let current_address = pte e AND ADDRESS_MASK;
     let flags = pte e AND NOT ADDRESS_MASK;
     es \<leftarrow> split_entries flags current_address (drop_bit 2 increment) (entries table);
     phys \<leftarrow> virt_to_phys ptr;
     let e' = e\<lparr>pte := 1 OR drop_bit 2 phys\<rparr>;
     assert_that (\<not> is_leaf e');
     assert_that (pte e' AND 1 \<noteq> 0);
     assert_that (pte e' AND RWX = 0);
     Some (mem(ptr \<mapsto> table\<lparr>entries := es\<rparr>), e')
   }"

section \<open>Mapping a range\<close>

definition leaf_value :: "usize \<Rightarrow> usize \<Rightarrow> usize \<Rightarrow> usize" where
  "leaf_value current_address flags offset =
     ((drop_bit 2 current_address OR flags) + offset) AND UNRESERVED_BITS_MASK"

definition mem_store :: "memory \<Rightarrow> usize \<Rightarrow> nat \<Rightarrow> Entry \<Rightarrow> memory option" where
  "mem_store mem ptr idx e = do {
     t \<leftarrow> mem ptr;
     t' \<leftarrow> table_store t idx e;
     Some (mem(ptr \<mapsto> t'))
   }"

definition mem_entry :: "memory \<Rightarrow> usize \<Rightarrow> nat \<Rightarrow> Entry option" where
  "mem_entry mem ptr idx = do { t \<leftarrow> mem ptr; table_index t idx }"

text \<open>The range of indices that one level of the recursion visits.\<close>

definition vpn_range :: "nat \<Rightarrow> nat \<Rightarrow> usize \<Rightarrow> usize \<Rightarrow> (nat \<times> nat) option" where
  "vpn_range level PTESIZE virtual_addr len = do {
     e \<leftarrow> checked_add virtual_addr len;
     virt_end \<leftarrow> checked_sub e (if level = 0 then 0 else 1);
     let vpn_start = unat (get_vpn_number virtual_addr level PTESIZE);
     let vpn_end = unat (get_vpn_number virt_end level PTESIZE);
     Some (vpn_start, if vpn_end < vpn_start then 511 else vpn_end)
   }"

definition must_split :: "nat \<Rightarrow> nat \<Rightarrow> usize \<Rightarrow> usize \<Rightarrow> usize \<Rightarrow> nat \<Rightarrow> nat \<Rightarrow> nat \<Rightarrow> bool" where
  "must_split level PTESIZE virtual_addr len offset vpn_start vpn_end vpn_number =
     (let m = get_vpn_size level PTESIZE - 1;
          start_misaligned = m AND virtual_addr \<noteq> 0;
          end_misaligned = m AND (virtual_addr + len) \<noteq> 0;
          physical_start_misaligned = m AND (virtual_addr + push_bit 2 offset) \<noteq> 0;
          physical_end_misaligned = m AND (virtual_addr + len + push_bit 2 offset) \<noteq> 0
      in vpn_number = vpn_start \<and> (start_misaligned \<or> physical_start_misaligned)
         \<or> vpn_number = vpn_end \<and> (end_misaligned \<or> physical_end_misaligned))"

definition current_address_of :: "nat \<Rightarrow> nat \<Rightarrow> usize \<Rightarrow> nat \<Rightarrow> usize option" where
  "current_address_of level PTESIZE current_virt_offset vpn_number = do {
     p \<leftarrow> checked_mul (of_nat vpn_number) (get_vpn_size level PTESIZE);
     checked_add current_virt_offset p
   }"

primrec map_internal ::
  "nat \<Rightarrow> nat \<Rightarrow> allocator \<Rightarrow> (usize \<Rightarrow> usize option) \<Rightarrow> (usize \<Rightarrow> usize option)
     \<Rightarrow> usize \<Rightarrow> usize \<Rightarrow> usize \<Rightarrow> usize \<Rightarrow> usize \<Rightarrow> usize \<Rightarrow> memory \<Rightarrow> memory option" where
  "map_internal 0 = (\<lambda>PTESIZE alloc virt_to_phys phys_to_virt physical_addr virtual_addr len flags
       table current_virt_offset mem. do {
     (vpn_start, vpn_end) \<leftarrow> vpn_range 0 PTESIZE virtual_addr len;
     let offset = drop_bit 2 (physical_addr - virtual_addr);
     foldM (\<lambda>vpn_number mem. do {
         assert_that (vpn_number < 512);
         entry \<leftarrow> mem_entry mem table vpn_number;
         current_address \<leftarrow> current_address_of 0 PTESIZE current_virt_offset vpn_number;
         mem_store mem table vpn_number (entry\<lparr>pte := leaf_value current_address flags offset\<rparr>)
       }) [vpn_start..<Suc vpn_end] mem
   })"
| "map_internal (Suc level) = (\<lambda>PTESIZE alloc virt_to_phys phys_to_virt physical_addr virtual_addr
       len flags table current_virt_offset mem. do {
     (vpn_start, vpn_end) \<leftarrow> vpn_range (Suc level) PTESIZE virtual_addr len;
     let offset = drop_bit 2 (physical_addr - virtual_addr);
     foldM (\<lambda>vpn_number mem. do {
         assert_that (vpn_number < 512);
         entry \<leftarrow> mem_entry mem table vpn_number;
         current_address \<leftarrow> current_address_of (Suc level) PTESIZE current_virt_offset vpn_number;
         (mem, entry) \<leftarrow>
           (if is_leaf entry
               \<and> must_split (Suc level) PTESIZE virtual_addr len offset vpn_start vpn_end vpn_number
            then do {
              (mem, entry) \<leftarrow> split alloc virt_to_phys (get_vpn_size level PTESIZE) mem entry;
              mem \<leftarrow> mem_store mem table vpn_number entry;
              Some (mem, entry)
            }
            else Some (mem, entry));
         next_table \<leftarrow> try_as_table phys_to_virt entry;
         case next_table of
           Some t \<Rightarrow> map_internal level PTESIZE alloc virt_to_phys phys_to_virt physical_addr
                       virtual_addr len flags t current_address mem
         | None \<Rightarrow>
             mem_store mem table vpn_number (entry\<lparr>pte := leaf_value current_address flags offset\<rparr>)
       }) [vpn_start..<Suc vpn_end] mem
   })"

definition map_range ::
  "nat \<Rightarrow> nat \<Rightarrow> allocator \<Rightarrow> GenericPaging \<Rightarrow> usize \<Rightarrow> usize \<Rightarrow> usize \<Rightarrow> usize \<Rightarrow> memory
     \<Rightarrow> memory option" where
  "map_range LEVELS PTESIZE alloc self physical_addr virtual_addr len flags mem = do {
     let virtual_addr = decanonicalize_address LEVELS PTESIZE virtual_addr;
     assert_that (virtual_addr AND 0xfff = 0);
     assert_that (physical_addr AND 0xfff = 0);
     assert_that (len AND 0xfff = 0);
     map_internal (LEVELS - 1) PTESIZE alloc (virt_to_phys_fn self) (phys_to_virt_fn self)
       physical_addr virtual_addr len flags (root_table self) 0 mem
   }"

end
