(* ===== verification/Page_Walk.thy ===== *)
theory Page_Walk
  imports Page_Tables
begin

text \<open>
  Facts on the walk: what a leaf at each level translates to, bit by bit; which errors can be
  returned; and that splitting a leaf does not change any translation.
\<close>

section \<open>The translation of a leaf\<close>

lemma word_bits_eq_iff: "(a :: 'a::len word) = b \<longleftrightarrow> (\<forall>n. bit a n \<longleftrightarrow> bit b n)"
  by (auto intro: bit_word_eqI)

text \<open>A paging format: the entry size and the number of levels fit a 64-bit address.\<close>

definition format_ok :: "nat \<Rightarrow> nat \<Rightarrow> bool" where
  "format_ok LEVELS PTESIZE \<longleftrightarrow>
     (PTESIZE = 4 \<or> PTESIZE = 8) \<and> 0 < LEVELS \<and> vpn_shift LEVELS PTESIZE \<le> 64"

lemma format_okD:
  assumes "format_ok LEVELS PTESIZE"
  shows "PTESIZE = 4 \<or> PTESIZE = 8" "0 < LEVELS" "vpn_shift LEVELS PTESIZE \<le> 64"
  using assms by (auto simp: format_ok_def)

lemma format_ok_shift:
  assumes "format_ok LEVELS PTESIZE" and "i \<le> LEVELS"
  shows "vpn_shift i PTESIZE \<le> 64" "vpn_shift i PTESIZE < 256"
proof -
  have "i * vpn_bits PTESIZE \<le> LEVELS * vpn_bits PTESIZE"
    using assms(2) by (rule mult_le_mono1)
  then show "vpn_shift i PTESIZE \<le> 64" "vpn_shift i PTESIZE < 256"
    using format_okD(3) [OF assms(1)] by linarith+
qed

lemma format_ok_sv [simp]: "format_ok 2 4" "format_ok 3 8" "format_ok 4 8" "format_ok 5 8"
  by (simp_all add: format_ok_def)

lemma fold_set_vpn_bits:
  assumes "format_ok LEVELS PTESIZE" and "a \<le> b" and "b \<le> LEVELS"
  shows "bit (fold (\<lambda>j pa. set_vpn_number pa j (get_vpn_number x j PTESIZE) PTESIZE) [a..<b] pa) n
    \<longleftrightarrow> (if vpn_shift a PTESIZE \<le> n \<and> n < vpn_shift b PTESIZE then bit x n else bit pa n)"
  using assms(2,3)
proof (induction b rule: dec_induct)
  case base
  then show ?case by auto
next
  case (step b)
  note sz = format_okD(1) [OF assms(1)]
  have b: "vpn_shift b PTESIZE < 256"
    using format_ok_shift(2) [OF assms(1), of b] step.prems by simp
  have b64: "vpn_shift (Suc b) PTESIZE \<le> 64"
    using format_ok_shift(1) [OF assms(1), of "Suc b"] step.prems by simp
  obtain A B where A: "vpn_shift a PTESIZE = A" and B: "vpn_shift b PTESIZE = B"
    by blast
  have Suc: "vpn_shift (Suc b) PTESIZE = B + vpn_bits PTESIZE"
    using B by simp
  have ab: "A \<le> B" "B + vpn_bits PTESIZE \<le> 64"
    using step.hyps(1) b64 A B by (auto simp: Suc)
  have "bit (fold (\<lambda>j pa. set_vpn_number pa j (get_vpn_number x j PTESIZE) PTESIZE) [a..<b] pa) n
      \<longleftrightarrow> (if A \<le> n \<and> n < B then bit x n else bit pa n)"
    using step.IH step.prems by (simp only: A B)
  then show ?case
    unfolding Suc A using step.hyps(1) ab b
    by (auto simp: bit_set_vpn_number [OF sz b] bit_get_vpn_number [OF sz b] B
        simp del: add_le_cancel_left dest: bit_imp_le_length)
qed

definition superpage_aligned :: "nat \<Rightarrow> usize \<Rightarrow> nat \<Rightarrow> bool" where
  "superpage_aligned PTESIZE v i \<longleftrightarrow> (\<forall>n. 12 \<le> n \<and> n < vpn_shift i PTESIZE \<longrightarrow> \<not> bit v (n - 2))"

lemma superpage_alignedD:
  "superpage_aligned PTESIZE v i \<Longrightarrow> 10 \<le> m \<Longrightarrow> m + 2 < vpn_shift i PTESIZE \<Longrightarrow> \<not> bit v m"
  unfolding superpage_aligned_def by (drule spec [of _ "m + 2"]) simp

lemma vpn_digit:
  assumes "12 \<le> n" and "n < vpn_shift i PTESIZE"
  obtains j where "j < i" "vpn_shift j PTESIZE \<le> n" "n - vpn_shift j PTESIZE < vpn_bits PTESIZE"
proof
  have pos: "0 < vpn_bits PTESIZE"
    using assms by (cases "vpn_bits PTESIZE") auto
  let ?j = "(n - 12) div vpn_bits PTESIZE"
  show "?j < i"
    using assms pos by (simp add: div_less_iff_less_mult)
  show "vpn_shift ?j PTESIZE \<le> n"
    using assms by (metis div_times_less_eq_dividend le_diff_conv2 add.commute)
  show "n - vpn_shift ?j PTESIZE < vpn_bits PTESIZE"
    using assms pos mod_less_divisor [OF pos, of "n - 12"]
    by (simp add: modulo_nat_def algebra_simps)
qed

lemma alignment_check:
  assumes "format_ok LEVELS PTESIZE" and "i < LEVELS"
  shows "(\<forall>j\<in>set [0..<i]. get_vpn_number (address e) j PTESIZE = 0)
    \<longleftrightarrow> superpage_aligned PTESIZE (pte e) i"
proof
  note sz = format_okD(1) [OF assms(1)]
  have shift: "vpn_shift j PTESIZE < 256" if "j \<le> i" for j
    using format_ok_shift(2) [OF assms(1), of j] assms(2) that by simp
  have i64: "vpn_shift i PTESIZE \<le> 64"
    using format_ok_shift(1) [OF assms(1), of i] assms(2) by simp
  { assume *: "\<forall>j\<in>set [0..<i]. get_vpn_number (address e) j PTESIZE = 0"
    show "superpage_aligned PTESIZE (pte e) i"
      unfolding superpage_aligned_def
    proof (intro allI impI notI)
      fix n
      assume n: "12 \<le> n \<and> n < vpn_shift i PTESIZE" and b: "bit (pte e) (n - 2)"
      then obtain j where j: "j < i" "vpn_shift j PTESIZE \<le> n"
        "n - vpn_shift j PTESIZE < vpn_bits PTESIZE"
        using vpn_digit by blast
      then have "get_vpn_number (address e) j PTESIZE = 0"
        using * by simp
      then have "\<not> bit (get_vpn_number (address e) j PTESIZE) (n - vpn_shift j PTESIZE)"
        by simp
      then show False
        using j n b i64 shift [of j] by (simp add: bit_get_vpn_number [OF sz] bit_address)
    qed }
  { assume *: "superpage_aligned PTESIZE (pte e) i"
    show "\<forall>j\<in>set [0..<i]. get_vpn_number (address e) j PTESIZE = 0"
    proof
      fix j
      assume "j \<in> set [0..<i]"
      then have j: "j < i" by simp
      have "Suc j * vpn_bits PTESIZE \<le> i * vpn_bits PTESIZE"
        using j by (intro mult_le_mono1) simp
      then have le: "vpn_shift j PTESIZE + vpn_bits PTESIZE \<le> vpn_shift i PTESIZE"
        by simp
      show "get_vpn_number (address e) j PTESIZE = 0"
      proof (rule bit_word_eqI)
        fix n
        show "bit (get_vpn_number (address e) j PTESIZE) n \<longleftrightarrow> bit (0 :: u16) n"
          using superpage_alignedD [OF *, of "10 + (j * vpn_bits PTESIZE + n)"] le shift [of j] j
          by (auto simp: bit_get_vpn_number [OF sz] bit_address)
      qed
    qed }
qed

text \<open>
  A leaf at level \<open>i\<close> takes the bits below \<open>vpn_shift i\<close> from the virtual address and the bits
  from there up to \<open>vpn_shift LEVELS\<close> from the entry; a leaf that is not aligned for its level
  fails the assertion.
\<close>

lemma leaf_translation_Some:
  assumes "format_ok LEVELS PTESIZE" and "i < LEVELS"
  shows "leaf_translation LEVELS PTESIZE e va i = Some pa \<longleftrightarrow>
    superpage_aligned PTESIZE (pte e) i \<and>
    (\<forall>n. bit pa n \<longleftrightarrow> (if n < vpn_shift i PTESIZE then bit va n
       else n < vpn_shift LEVELS PTESIZE \<and> bit (pte e) (n - 2)))"
proof -
  let ?f = "\<lambda>x. fold (\<lambda>j pa. set_vpn_number pa j (get_vpn_number x j PTESIZE) PTESIZE)"
  let ?pa = "?f (push_bit 2 (pte e)) [i..<LEVELS] (?f va [0..<Suc i] (get_page_offset va))"
  have L64: "vpn_shift LEVELS PTESIZE \<le> 64"
    using format_okD(3) [OF assms(1)] .
  have le: "vpn_shift i PTESIZE \<le> vpn_shift (Suc i) PTESIZE"
    "vpn_shift (Suc i) PTESIZE \<le> vpn_shift LEVELS PTESIZE"
    using assms(2) by (simp, metis Suc_leI mult_le_mono1 add_le_mono order_refl)
  have bits: "bit ?pa n \<longleftrightarrow> (if n < vpn_shift i PTESIZE then bit va n
       else n < vpn_shift LEVELS PTESIZE \<and> bit (pte e) (n - 2))" for n
    using assms le L64
    by (auto simp: fold_set_vpn_bits bit_get_page_offset bit_push_bit_iff simp del: upt_Suc)
  have "leaf_translation LEVELS PTESIZE e va i = Some pa \<longleftrightarrow>
      superpage_aligned PTESIZE (pte e) i \<and> pa = ?pa"
    unfolding leaf_translation_def alignment_check [OF assms, of e]
    by (auto simp del: upt_Suc simp: bind_eq_Some_conv)
  moreover have "pa = ?pa \<longleftrightarrow> (\<forall>n. bit pa n \<longleftrightarrow> bit ?pa n)"
    by (rule word_bits_eq_iff)
  ultimately show ?thesis
    by (simp only: bits)
qed

section \<open>One step of the walk\<close>

text \<open>The body of the walk's loop, after the entry has been fetched, with its tests as bits.\<close>

definition walk_entry ::
  "nat \<Rightarrow> nat \<Rightarrow> (usize \<Rightarrow> usize option) \<Rightarrow> memory \<Rightarrow> usize \<Rightarrow> nat \<Rightarrow> Entry
     \<Rightarrow> (PageLookupError + usize) option" where
  "walk_entry LEVELS PTESIZE p2v mem va i e =
     (if \<not> bit (pte e) 0 then Some (Inl Invalid)
      else if PTESIZE > 4 \<and> bit (pte e) 60 then Some (Inl ReservedBitSet)
      else if is_leaf e then map_option Inr (leaf_translation LEVELS PTESIZE e va i)
      else Option.bind (as_table p2v e) (\<lambda>t.
        if i = 0 then Some (Inl PageFault)
        else query_loop LEVELS PTESIZE p2v mem t va (i - 1)))"

lemma and_4_neq_1: "(w :: usize) AND 4 \<noteq> 1"
proof
  assume "w AND 4 = 1"
  then have "bit (w AND 4) 0 = bit (1 :: usize) 0" by simp
  then show False by (simp add: bit_and_iff)
qed

lemma reserved_bit: "drop_bit 54 (w :: usize) AND 64 = 0 \<longleftrightarrow> \<not> bit w 60"
  using and_pow2_eq_0_iff [of "drop_bit 54 w" 6] by (simp add: bit_drop_bit_eq)

lemma query_loop_walk:
  "query_loop LEVELS PTESIZE p2v mem table va i =
     Option.bind (mem_entry mem table (unat (get_vpn_number va i PTESIZE)))
       (walk_entry LEVELS PTESIZE p2v mem va i)"
proof -
  have body: "(if pte e AND VALID = 0 then Some (Inl Invalid)
     else if pte e AND READ = 0 \<and> pte e AND WRITE = 1 then Some (Inl WriteOnly)
     else if PTESIZE > 4 \<and> drop_bit 54 (pte e) AND push_bit (7 - 1) 1 \<noteq> 0
       then Some (Inl ReservedBitSet)
     else do {
       next_table \<leftarrow> try_as_table p2v e;
       case next_table of
         Some this_table \<Rightarrow>
           if i = 0 then Some (Inl PageFault)
           else query_loop LEVELS PTESIZE p2v mem this_table va (i - 1)
       | None \<Rightarrow> map_option Inr (leaf_translation LEVELS PTESIZE e va i)
     }) = walk_entry LEVELS PTESIZE p2v mem va i e" for e
    by (cases "as_table p2v e")
      (auto simp: walk_entry_def try_as_table_def and_4_neq_1 and_1_iff reserved_bit)
  show ?thesis
    unfolding query_loop.simps [of LEVELS PTESIZE p2v mem table va i] body mem_entry_def
    by (simp add: Option.bind_assoc)
qed

lemma query_loop_not_WriteOnly:
  "query_loop LEVELS PTESIZE p2v mem table va i \<noteq> Some (Inl WriteOnly)"
proof (induction i arbitrary: table)
  case 0
  then show ?case
    by (subst query_loop_walk) (auto simp: walk_entry_def bind_eq_Some_conv split: if_splits)
next
  case (Suc i)
  then show ?case
    by (subst query_loop_walk) (auto simp: walk_entry_def bind_eq_Some_conv split: if_splits)
qed

text \<open>
  A lookup is not affected by a change of a table that no entry points to, nor by new tables. A
  root table is such a table.
\<close>

definition root_unreferenced :: "(usize \<Rightarrow> usize option) \<Rightarrow> memory \<Rightarrow> usize \<Rightarrow> bool" where
  "root_unreferenced p2v mem root \<longleftrightarrow>
     (\<forall>ptr t e. mem ptr = Some t \<longrightarrow> e \<in> set (entries t) \<longrightarrow> \<not> is_leaf e \<longrightarrow> as_table p2v e \<noteq> Some root)"

lemma mem_entry_Some:
  "mem_entry mem table k = Some e \<longleftrightarrow>
     (\<exists>t. mem table = Some t \<and> k < length (entries t) \<and> e = entries t ! k)"
  by (auto simp: mem_entry_def table_index_def bind_eq_Some_conv split: if_splits)

lemma root_unreferencedD:
  "root_unreferenced p2v mem root \<Longrightarrow> mem_entry mem table k = Some e \<Longrightarrow> \<not> is_leaf e \<Longrightarrow>
     as_table p2v e = Some t \<Longrightarrow> t \<noteq> root"
  unfolding root_unreferenced_def mem_entry_Some by (metis nth_mem)

lemma query_loop_frame:
  assumes unref: "root_unreferenced p2v mem root"
    and same: "\<And>ptr t. mem ptr = Some t \<Longrightarrow> ptr \<noteq> root \<Longrightarrow> mem' ptr = Some t"
  shows "query_loop LEVELS PTESIZE p2v mem table va i = Some r \<Longrightarrow> table \<noteq> root \<Longrightarrow>
    query_loop LEVELS PTESIZE p2v mem' table va i = Some r"
proof (induction i arbitrary: table)
  case 0
  then show ?case
    by (auto simp: query_loop_walk [of _ _ _ mem] query_loop_walk [of _ _ _ mem'] walk_entry_def
        bind_eq_Some_conv mem_entry_Some split: if_splits dest!: same)
next
  case (Suc i)
  from Suc.prems(1) obtain e where
    e: "mem_entry mem table (unat (get_vpn_number va (Suc i) PTESIZE)) = Some e"
      "walk_entry LEVELS PTESIZE p2v mem va (Suc i) e = Some r"
    by (auto simp: query_loop_walk [of _ _ _ mem] bind_eq_Some_conv)
  have e': "mem_entry mem' table (unat (get_vpn_number va (Suc i) PTESIZE)) = Some e"
    using e(1) Suc.prems(2) same by (auto simp: mem_entry_Some)
  have "walk_entry LEVELS PTESIZE p2v mem' va (Suc i) e = Some r"
    using e(2) Suc.IH root_unreferencedD [OF unref e(1)]
    by (auto simp: walk_entry_def bind_eq_Some_conv split: if_splits)
  with e' show ?case
    by (subst query_loop_walk) simp
qed

lemma walk_entry_frame:
  assumes "root_unreferenced p2v mem root"
    and "\<And>ptr t. mem ptr = Some t \<Longrightarrow> ptr \<noteq> root \<Longrightarrow> mem' ptr = Some t"
    and "mem_entry mem root k = Some e"
    and "walk_entry LEVELS PTESIZE p2v mem va i e = Some r"
  shows "walk_entry LEVELS PTESIZE p2v mem' va i e = Some r"
  using assms(4) query_loop_frame [OF assms(1,2)] root_unreferencedD [OF assms(1,3)]
  by (auto simp: walk_entry_def bind_eq_Some_conv split: if_splits)

text \<open>
  Replacing entries of the root table, and adding tables: a lookup that meets an unchanged root
  entry keeps its result.
\<close>

lemma query_unchanged_entry:
  assumes "root_unreferenced (phys_to_virt_fn self) mem (root_table self)"
    and "\<And>ptr t. mem ptr = Some t \<Longrightarrow> ptr \<noteq> root_table self \<Longrightarrow> mem' ptr = Some t"
    and "k = unat (get_vpn_number va (LEVELS - 1) PTESIZE)"
    and "mem_entry mem (root_table self) k = Some e"
    and "mem_entry mem' (root_table self) k = Some e"
    and "query LEVELS PTESIZE self mem va = Some r"
  shows "query LEVELS PTESIZE self mem' va = Some r"
  using assms(4-6) walk_entry_frame [OF assms(1,2,4)]
  unfolding query_def query_loop_walk assms(3) by simp

end
