(* ===== verification/Page_Split.thy ===== *)
theory Page_Split
  imports Page_Walk
begin

text \<open>
  \<^verbatim>\<open>Entry::split\<close> (\<^verbatim>\<open>kernel_paging/src/lib.rs\<close>): under what the heap allocator and the two address
  translation functions provide, splitting a leaf succeeds, and the table it installs translates
  every address as the leaf did.
\<close>

section \<open>What the allocator and the address functions provide\<close>

text \<open>
  The allocator's block is not in use, holds 512 entries, is page aligned and not null, and lies in
  the part of the address space that the two translation functions map to each other.
\<close>

definition fresh_block ::
  "allocator \<Rightarrow> (usize \<Rightarrow> usize option) \<Rightarrow> (usize \<Rightarrow> usize option) \<Rightarrow> memory \<Rightarrow> usize \<Rightarrow> usize \<Rightarrow> bool"
where
  "fresh_block alloc v2p p2v mem ptr phys \<longleftrightarrow>
     (\<exists>t. alloc mem = Some (ptr, t) \<and> length (entries t) = 512) \<and>
     mem ptr = None \<and> ptr \<noteq> 0 \<and> v2p ptr = Some phys \<and> p2v phys = Some ptr \<and>
     phys \<noteq> 0 \<and> phys AND 0xfff = 0 \<and> phys < 2 ^ 56"

lemma page_aligned_bits: "(w :: usize) AND 0xfff = 0 \<longleftrightarrow> (\<forall>n<12. \<not> bit w n)"
proof -
  have m: "(0xfff :: usize) = mask 12"
    by (simp add: mask_eq_exp_minus_1)
  show ?thesis
    unfolding m word_bits_eq_iff
  proof (intro iffI allI impI)
    fix n :: nat
    assume "\<forall>n. bit (w AND mask 12) n \<longleftrightarrow> bit 0 n" and "n < 12"
    then have "\<not> bit (w AND mask 12) n" by simp
    then show "\<not> bit w n"
      using \<open>n < 12\<close> by (simp add: bit_and_iff bit_mask_iff)
  qed (auto simp: bit_and_iff bit_mask_iff)
qed

lemma less_pow2_bits: "(w :: usize) < 2 ^ k \<Longrightarrow> k < 64 \<Longrightarrow> k \<le> n \<Longrightarrow> \<not> bit w n"
proof -
  assume less: "w < 2 ^ k" and k: "k < 64" and n: "k \<le> n"
  have "unat w < 2 ^ k"
    using less k by (simp add: word_less_nat_alt unat_pow2)
  then have "take_bit k (unat w) = unat w"
    by (simp add: take_bit_nat_eq_self)
  then have "take_bit k w = w"
    by (metis unsigned_take_bit_eq unsigned_word_eqI)
  then have "bit w n \<longleftrightarrow> bit (take_bit k w) n"
    by simp
  then show "\<not> bit w n"
    using n by (simp add: bit_take_bit_iff)
qed

section \<open>The entries of the new table\<close>

lemma Entry_update_eq: "e\<lparr>pte := v\<rparr> = \<lparr>pte = v\<rparr>"
  by (cases e) simp

lemma Table_update_eq: "t\<lparr>entries := es\<rparr> = \<lparr>entries = es\<rparr>"
  by (cases t) simp

lemma split_entries_eq:
  assumes "unat c + length es * unat step < 2 ^ 64"
  shows "split_entries flags c step es =
    Some (map (\<lambda>k. \<lparr>pte = flags OR (c + of_nat k * step)\<rparr>) [0..<length es])"
  using assms
proof (induction es arbitrary: c)
  case Nil
  then show ?case by simp
next
  case (Cons e es)
  have add: "checked_add c step = Some (c + step)"
    using Cons.prems by (simp add: checked_add_def)
  then have "unat (c + step) = unat c + unat step"
    by (simp add: checked_add_Some unat_add_no_overflow)
  then have "split_entries flags (c + step) step es =
      Some (map (\<lambda>k. \<lparr>pte = flags OR (c + step + of_nat k * step)\<rparr>) [0..<length es])"
    using Cons.prems by (intro Cons.IH) simp
  with add show ?case
    by (simp add: Entry_update_eq map_upt_Suc algebra_simps del: upt_Suc)
qed

definition split_value :: "usize \<Rightarrow> nat \<Rightarrow> nat \<Rightarrow> usize" where
  "split_value v l k = v OR push_bit (10 + 9 * l) (of_nat k)"

lemma bit_split_value [kernel_bits]:
  assumes "k < 512" and "l \<le> 3"
  shows "bit (split_value v l k) n \<longleftrightarrow>
    bit v n \<or> 10 + 9 * l \<le> n \<and> n < 19 + 9 * l \<and> bit k (n - (10 + 9 * l))"
proof -
  have "k < 2 ^ 9" using assms by simp
  from nat_bit_less [OF this, of "n - (10 + 9 * l)"] show ?thesis
    using assms by (auto simp: split_value_def bit_simps)
qed

lemma step_eq: "l \<le> 3 \<Longrightarrow> drop_bit 2 (get_vpn_size l 8) = (2 ^ (10 + 9 * l) :: usize)"
proof -
  assume l: "l \<le> 3"
  have "get_vpn_size l 8 = push_bit (12 + l * 9) 1"
    using l unat_get_vpn_offset [of l 8] by (simp add: get_vpn_size_def)
  then have "drop_bit 2 (get_vpn_size l 8) = push_bit (10 + 9 * l) 1"
    using l by (intro bit_word_eqI) (auto simp: bit_simps)
  then show ?thesis
    by (simp add: push_bit_one_word)
qed

lemma split_value_eq:
  assumes al: "superpage_aligned 8 v (Suc l)" and k: "k < 512" and l: "l \<le> 3"
  shows "(v AND NOT ADDRESS_MASK) OR ((v AND ADDRESS_MASK) + of_nat k * 2 ^ (10 + 9 * l))
    = split_value v l k"
proof -
  have push: "of_nat k * 2 ^ (10 + 9 * l) = push_bit (10 + 9 * l) (of_nat k :: usize)"
    by (simp add: push_bit_eq_mult)
  have kb: "bit (push_bit (10 + 9 * l) (of_nat k :: usize)) n \<longleftrightarrow>
      10 + 9 * l \<le> n \<and> n < 19 + 9 * l \<and> bit k (n - (10 + 9 * l))" for n
    using bit_split_value [OF k l, of 0 n] by (simp add: split_value_def)
  have disj: "\<not> bit (v AND ADDRESS_MASK) n \<or> \<not> bit (push_bit (10 + 9 * l) (of_nat k :: usize)) n" for n
    using superpage_alignedD [OF al, of n] by (auto simp: kb bit_and_iff)
  have sum: "(v AND ADDRESS_MASK) + of_nat k * 2 ^ (10 + 9 * l)
      = (v AND ADDRESS_MASK) OR push_bit (10 + 9 * l) (of_nat k)"
    unfolding push using disj by (intro disjunctive_add) blast
  show ?thesis
    unfolding sum split_value_def word_bits_eq_iff
    by (auto simp: bit_or_iff bit_and_iff bit_not_iff kb bit_ADDRESS_MASK dest: bit_imp_le_length)
qed

lemma split_no_overflow:
  assumes "v < 2 ^ 54" and "l \<le> 3"
  shows "unat (v AND ADDRESS_MASK) + 512 * unat (2 ^ (10 + 9 * l) :: usize) < 2 ^ 64"
proof -
  have "unat (v AND ADDRESS_MASK) \<le> unat v"
    using word_and_le2 [of v ADDRESS_MASK] by (simp add: word_le_nat_alt)
  moreover have "unat v < 2 ^ 54"
    using assms(1) by (simp add: word_less_nat_alt)
  moreover have "unat (2 ^ (10 + 9 * l) :: usize) = 2 ^ (10 + 9 * l)"
    using assms(2) by (simp add: unat_pow2)
  moreover have "(2::nat) ^ (10 + 9 * l) \<le> 2 ^ 37"
    using assms(2) by (intro power_increasing) auto
  ultimately show ?thesis
    by simp
qed


section \<open>Splitting succeeds and keeps every translation\<close>

lemma table_pointer_entry:
  assumes "phys \<noteq> 0" and "phys AND 0xfff = 0"
  defines "v \<equiv> 1 OR drop_bit 2 phys"
  shows "bit v 0" "\<not> bit v 1" "\<not> bit v 2" "\<not> bit v 3" "v AND ADDRESS_MASK \<noteq> 0"
    "push_bit 2 (v AND ADDRESS_MASK) = phys" "\<not> is_leaf \<lparr>pte = v\<rparr>" "v AND RWX = 0"
proof -
  have low: "\<not> bit phys n" if "n < 12" for n
    using assms(2) that by (simp add: page_aligned_bits)
  have vb: "bit v m \<longleftrightarrow> m = 0 \<or> bit phys (m + 2)" for m
    by (auto simp: v_def bit_or_iff bit_drop_bit_eq bit_1_iff add.commute)
  show flags: "bit v 0" "\<not> bit v 1" "\<not> bit v 2" "\<not> bit v 3"
    using low [of 3] low [of 4] low [of 5] by (simp_all add: vb numeral_eq_Suc)
  show ptr: "push_bit 2 (v AND ADDRESS_MASK) = phys"
  proof (rule bit_word_eqI)
    fix n assume n: "n < LENGTH(64)"
    have restore: "2 \<le> n \<Longrightarrow> n - 2 + 2 = n" by simp
    have "bit (push_bit 2 (v AND ADDRESS_MASK)) n \<longleftrightarrow> 2 \<le> n \<and> 8 \<le> n - 2 \<and> bit phys (n - 2 + 2)"
      using n by (simp only: bit_push_bit_iff bit_and_iff vb bit_ADDRESS_MASK) auto
    then have "bit (push_bit 2 (v AND ADDRESS_MASK)) n \<longleftrightarrow> 10 \<le> n \<and> bit phys n"
      using restore by auto
    then show "bit (push_bit 2 (v AND ADDRESS_MASK)) n \<longleftrightarrow> bit phys n"
      using low [of n] by (cases "n < 12") auto
  qed
  show addr: "v AND ADDRESS_MASK \<noteq> 0"
  proof
    assume "v AND ADDRESS_MASK = 0"
    then have "push_bit 2 (v AND ADDRESS_MASK) = 0" by (simp only: push_bit_of_0)
    with ptr assms(1) show False by simp
  qed
  show "\<not> is_leaf \<lparr>pte = v\<rparr>"
    using flags addr by (simp add: is_leaf_bits)
  have "v AND RWX = (v AND 2) OR (v AND 4) OR (v AND 8)"
    unfolding RWX_def READ_eq WRITE_eq EXECUTE_eq by (simp only: bit.conj_disj_distrib)
  then show "v AND RWX = 0"
    using flags by (simp only: and_flag_iffs [THEN iffD2] or.left_neutral not_False_eq_True)
qed

lemma split_result:
  assumes blk: "fresh_block alloc v2p p2v mem ptr phys"
    and al: "superpage_aligned 8 (pte e) (Suc l)" and small: "pte e < 2 ^ 54" and l: "l \<le> 3"
  shows "split alloc v2p (get_vpn_size l 8) mem e =
    Some (mem(ptr \<mapsto> \<lparr>entries = map (\<lambda>k. \<lparr>pte = split_value (pte e) l k\<rparr>) [0..<512]\<rparr>),
          \<lparr>pte = 1 OR drop_bit 2 phys\<rparr>)"
proof -
  from blk obtain t where t: "alloc mem = Some (ptr, t)" "length (entries t) = 512"
    by (auto simp: fresh_block_def)
  have phys: "v2p ptr = Some phys" "phys \<noteq> 0" "phys AND 0xfff = 0"
    using blk by (auto simp: fresh_block_def)
  have es: "split_entries (pte e AND NOT ADDRESS_MASK) (pte e AND ADDRESS_MASK)
      (drop_bit 2 (get_vpn_size l 8)) (entries t)
    = Some (map (\<lambda>k. \<lparr>pte = split_value (pte e) l k\<rparr>) [0..<512])"
    using split_no_overflow [OF small l] split_value_eq [OF al _ l]
    by (simp add: step_eq [OF l] split_entries_eq t(2))
  note ok = table_pointer_entry [OF phys(2,3)]
  show ?thesis
    unfolding split_def boxed_zeroed_def
    using ok by (simp add: t(1) es phys(1) Entry_update_eq Table_update_eq and_1_iff)
qed

lemma option_eq_by_Some: "(\<And>x. a = Some x \<longleftrightarrow> b = Some x) \<Longrightarrow> a = b"
  by (metis option.exhaust)

lemma split_leaf_translation:
  assumes al: "superpage_aligned 8 v (Suc l)" and l: "l \<le> 3" and lev: "Suc l < LEVELS"
    and fmt: "format_ok LEVELS 8" and k: "k = unat (get_vpn_number va l 8)"
  shows "leaf_translation LEVELS 8 \<lparr>pte = split_value v l k\<rparr> va l =
    leaf_translation LEVELS 8 \<lparr>pte = v\<rparr> va (Suc l)"
proof (rule option_eq_by_Some)
  fix pa
  have k512: "k < 512"
    using unat_get_vpn_number_less [of 8 l va] k l by simp
  have kbit: "bit k m \<longleftrightarrow> m < 9 \<and> bit va (12 + l * 9 + m)" for m
    using l unfolding k by (simp add: bit_unsigned_iff bit_get_vpn_number)
  have al': "superpage_aligned 8 (split_value v l k) l"
    unfolding superpage_aligned_def
  proof (intro allI impI)
    fix n assume n: "12 \<le> n \<and> n < vpn_shift l 8"
    then have "\<not> bit v (n - 2)"
      using al by (auto simp: superpage_aligned_def)
    with n show "\<not> bit (split_value v l k) (n - 2)"
      by (auto simp: bit_split_value [OF k512 l])
  qed
  have sub: "bit (split_value v l k) (n - 2) \<longleftrightarrow>
      (if n < 21 + l * 9 then bit va n else bit v (n - 2))" if n: "12 + l * 9 \<le> n" for n
  proof (cases "n < 21 + l * 9")
    case True
    then have "\<not> bit v (n - 2)"
      using al n by (auto simp: superpage_aligned_def)
    moreover have "n - 2 - (10 + 9 * l) = n - (12 + l * 9)"
      by simp
    ultimately show ?thesis
      using True n by (auto simp: bit_split_value [OF k512 l] kbit)
  next
    case False
    then show ?thesis
      using n by (auto simp: bit_split_value [OF k512 l])
  qed
  have lev': "21 + l * 9 \<le> vpn_shift LEVELS 8"
    using mult_le_mono1 [of "Suc (Suc l)" LEVELS 9] lev by simp
  have "(if n < 12 + l * 9 then bit va n else n < vpn_shift LEVELS 8 \<and> bit (split_value v l k) (n - 2))
      \<longleftrightarrow> (if n < 21 + l * 9 then bit va n else n < vpn_shift LEVELS 8 \<and> bit v (n - 2))" for n
    using sub [of n] lev' by auto
  then have bits: "(if n < vpn_shift l 8 then bit va n
        else n < vpn_shift LEVELS 8 \<and> bit (split_value v l k) (n - 2))
      \<longleftrightarrow> (if n < vpn_shift (Suc l) 8 then bit va n else n < vpn_shift LEVELS 8 \<and> bit v (n - 2))" for n
    by simp
  show "leaf_translation LEVELS 8 \<lparr>pte = split_value v l k\<rparr> va l = Some pa \<longleftrightarrow>
      leaf_translation LEVELS 8 \<lparr>pte = v\<rparr> va (Suc l) = Some pa"
    by (simp only: leaf_translation_Some [OF fmt Suc_lessD [OF lev]]
        leaf_translation_Some [OF fmt lev] Entry.select_convs bits al al' simp_thms)
qed

lemma split_walk:
  assumes blk: "fresh_block alloc v2p p2v mem ptr phys"
    and al: "superpage_aligned 8 (pte e) (Suc l)" and small: "pte e < 2 ^ 54" and l: "l \<le> 3"
    and lev: "Suc l < LEVELS" and fmt: "format_ok LEVELS 8"
    and kind: "\<not> bit (pte e) 0 \<or> bit (pte e) 1 \<or> bit (pte e) 3"
    and mem': "mem' ptr = Some \<lparr>entries = map (\<lambda>k. \<lparr>pte = split_value (pte e) l k\<rparr>) [0..<512]\<rparr>"
  shows "walk_entry LEVELS 8 p2v mem' va (Suc l) \<lparr>pte = 1 OR drop_bit 2 phys\<rparr> =
    walk_entry LEVELS 8 p2v mem va (Suc l) e"
proof -
  define k where "k = unat (get_vpn_number va l 8)"
  have k512: "k < 512"
    using unat_get_vpn_number_less [of 8 l va] l by (simp add: k_def)
  have phys: "phys \<noteq> 0" "phys AND 0xfff = 0" "phys < 2 ^ 56" "p2v phys = Some ptr" "ptr \<noteq> 0"
    using blk by (auto simp: fresh_block_def)
  note ptr = table_pointer_entry [OF phys(1,2)]
  have no60: "\<not> bit (1 OR drop_bit 2 phys) 60" "\<not> bit (pte e) 60"
    using less_pow2_bits [OF phys(3), of 62] less_pow2_bits [OF small, of 60]
    by (simp_all add: bit_or_iff bit_drop_bit_eq bit_1_iff)
  have "as_table p2v \<lparr>pte = 1 OR drop_bit 2 phys\<rparr> = Some ptr"
    unfolding as_table_def address_def using ptr(1,6) phys(4,5)
    by (simp only: Entry.select_convs and_1_iff) simp
  then have "walk_entry LEVELS 8 p2v mem' va (Suc l) \<lparr>pte = 1 OR drop_bit 2 phys\<rparr> =
      query_loop LEVELS 8 p2v mem' ptr va l"
    using ptr(1,7) no60(1) by (simp add: walk_entry_def)
  also have "\<dots> = walk_entry LEVELS 8 p2v mem' va l \<lparr>pte = split_value (pte e) l k\<rparr>"
    unfolding query_loop_walk using k512
    by (simp add: mem_entry_def mem' table_index_def flip: k_def)
  also have "\<dots> = walk_entry LEVELS 8 p2v mem va (Suc l) e"
    using kind split_leaf_translation [OF al l lev fmt k_def] no60(2) k512 l
    by (cases e) (auto simp: walk_entry_def is_leaf_bits bit_split_value)
  finally show ?thesis .
qed

lemma split_root_entry:
  assumes blk: "fresh_block alloc (virt_to_phys_fn self) (phys_to_virt_fn self) mem ptr phys"
    and root: "mem (root_table self) = Some t" "k < length (entries t)" "e = entries t ! k"
    and al: "superpage_aligned 8 (pte e) (Suc l)" and small: "pte e < 2 ^ 54" and l: "l \<le> 3"
    and kind: "\<not> bit (pte e) 0 \<or> bit (pte e) 1 \<or> bit (pte e) 3"
    and unref: "root_unreferenced (phys_to_virt_fn self) mem (root_table self)"
  shows "\<exists>mem1 e' mem2. split alloc (virt_to_phys_fn self) (get_vpn_size l 8) mem e = Some (mem1, e')
    \<and> mem_store mem1 (root_table self) k e' = Some mem2
    \<and> (\<forall>va r. query (Suc (Suc l)) 8 self mem va = Some r
          \<longrightarrow> query (Suc (Suc l)) 8 self mem2 va = Some r)"
proof -
  let ?T = "\<lparr>entries = map (\<lambda>k. \<lparr>pte = split_value (pte e) l k\<rparr>) [0..<512]\<rparr>"
  let ?e = "\<lparr>pte = 1 OR drop_bit 2 phys\<rparr>"
  let ?mem2 = "mem(ptr \<mapsto> ?T, root_table self \<mapsto> t\<lparr>entries := (entries t)[k := ?e]\<rparr>)"
  have fmt: "format_ok (Suc (Suc l)) 8"
    using l by (simp add: format_ok_def)
  have ne: "ptr \<noteq> root_table self" and none: "mem ptr = None"
    using blk root(1) by (auto simp: fresh_block_def)
  have split: "split alloc (virt_to_phys_fn self) (get_vpn_size l 8) mem e = Some (mem(ptr \<mapsto> ?T), ?e)"
    by (rule split_result [OF blk al small l])
  have store: "mem_store (mem(ptr \<mapsto> ?T)) (root_table self) k ?e = Some ?mem2"
    using root ne by (simp add: mem_store_def table_store_def)
  have "query (Suc (Suc l)) 8 self ?mem2 va = Some r"
    if q: "query (Suc (Suc l)) 8 self mem va = Some r" for va r
  proof (cases "unat (get_vpn_number va (Suc l) 8) = k")
    case True
    have "walk_entry (Suc (Suc l)) 8 (phys_to_virt_fn self) ?mem2 va (Suc l) ?e =
        walk_entry (Suc (Suc l)) 8 (phys_to_virt_fn self) mem va (Suc l) e"
      by (rule split_walk [OF blk al small l _ fmt kind]) (simp_all add: ne)
    with True q root show ?thesis
      unfolding query_def query_loop_walk by (simp add: mem_entry_def table_index_def)
  next
    case False
    let ?k = "unat (get_vpn_number va (Suc l) 8)"
    from q obtain e0 where e0: "mem_entry mem (root_table self) ?k = Some e0"
      unfolding query_def query_loop_walk by (auto simp: bind_eq_Some_conv)
    show ?thesis
    proof (rule query_unchanged_entry [OF unref _ _ e0 _ q])
      show "mem_entry ?mem2 (root_table self) ?k = Some e0"
        using e0 root(1) False by (auto simp: mem_entry_Some)
    qed (use none in auto)
  qed
  with split store show ?thesis by blast
qed

end
