(* ===== verification/Page_Map.thy ===== *)
theory Page_Map
  imports Page_Split
begin

text \<open>
  \<^verbatim>\<open>GenericPaging::map\<close>: mapping whole top-level superpages, as the bootloader and the kernel do at
  start-up, makes \<^verbatim>\<open>query\<close> translate every address of the range by the requested offset and leaves
  the rest of the address space alone; and what the recursion does at the last level.
\<close>

section \<open>Indices and sizes as numbers\<close>

lemma unat_get_vpn_number:
  assumes "i \<le> 5"
  shows "unat (get_vpn_number va i 8) = unat va div 2 ^ (12 + 9 * i) mod 512"
proof -
  have "unat (get_vpn_number va i 8) = take_bit 9 (drop_bit (12 + 9 * i) (unat va))"
    by (rule bit_eqI)
      (use assms in \<open>auto simp: bit_unsigned_iff bit_get_vpn_number bit_take_bit_iff
        bit_drop_bit_eq algebra_simps dest: bit_imp_le_length\<close>)
  then show ?thesis
    by (simp add: take_bit_eq_mod drop_bit_eq_div)
qed

lemma get_vpn_size_eq: "i \<le> 5 \<Longrightarrow> get_vpn_size i 8 = 2 ^ (12 + 9 * i)"
  using unat_get_vpn_offset [of i 8]
  by (simp add: get_vpn_size_def push_bit_one_word algebra_simps)

lemma size_mask_and: "i \<le> 5 \<Longrightarrow> (get_vpn_size i 8 - 1) AND w = take_bit (12 + 9 * i) w"
  by (simp add: get_vpn_size_eq take_bit_eq_mask and.commute flip: mask_eq_exp_minus_1)

lemma take_bit_multiple:
  "take_bit s (of_nat (q * 2 ^ s) :: usize) = 0"
proof -
  have "of_nat (q * 2 ^ s) = push_bit s (of_nat q :: usize)"
    by (simp add: push_bit_eq_mult)
  then show ?thesis
    by (simp only: take_bit_push_bit) simp
qed

lemma take_bit_0_add: "take_bit s (a :: usize) = 0 \<Longrightarrow> take_bit s b = 0 \<Longrightarrow> take_bit s (a + b) = 0"
  by (simp add: take_bit_eq_0_iff)

lemma take_bit_0_diff: "take_bit s (a :: usize) = 0 \<Longrightarrow> take_bit s b = 0 \<Longrightarrow> take_bit s (a - b) = 0"
  by (simp add: take_bit_eq_0_iff)

lemma take_bit_add_word:
  "take_bit n (take_bit n a + take_bit n b) = take_bit n (a + b :: usize)"
proof -
  have wrap: "uint (x + y) = take_bit 64 (uint x + uint y)" for x y :: usize
    by (simp add: uint_word_ariths take_bit_eq_mod)
  have "uint (take_bit n (take_bit n a + take_bit n b)) = uint (take_bit n (a + b))"
  proof (cases "n \<le> 64")
    case True
    then have "min n 64 = n" by simp
    then show ?thesis
      by (simp add: unsigned_take_bit_eq wrap take_bit_take_bit take_bit_add)
  next
    case False
    then have "take_bit n x = x" for x :: usize
      by (intro bit_word_eqI) (auto simp: bit_take_bit_iff)
    then show ?thesis by simp
  qed
  then show ?thesis by (rule unsigned_word_eqI)
qed

lemma take_bit_0_iff_bits: "take_bit s (w :: usize) = 0 \<longleftrightarrow> (\<forall>n < s. \<not> bit w n)"
proof
  assume *: "take_bit s w = 0"
  show "\<forall>n < s. \<not> bit w n"
  proof (intro allI impI)
    fix n assume "n < s"
    moreover have "\<not> bit (take_bit s w) n" by (simp add: *)
    ultimately show "\<not> bit w n" by (simp add: bit_take_bit_iff)
  qed
next
  assume "\<forall>n < s. \<not> bit w n"
  then show "take_bit s w = 0"
    by (intro bit_word_eqI) (auto simp: bit_take_bit_iff)
qed

lemma push_drop_aligned: "take_bit k (w :: usize) = 0 \<Longrightarrow> push_bit k (drop_bit k w) = w"
  using bits_ident [of k w] by simp

section \<open>The value of a leaf entry\<close>

lemma leaf_value_eq:
  assumes "take_bit 12 cur = 0" and "take_bit 12 virt = 0" and "take_bit 12 phys = 0"
    and A: "A = cur - virt + phys" "A < 2 ^ 56" and flags: "flags < 2 ^ 10"
  shows "leaf_value cur flags (drop_bit 2 (phys - virt)) = drop_bit 2 A OR flags"
proof -
  let ?c = "drop_bit 2 cur" and ?q = "drop_bit 2 (phys - virt)"
  have low: "take_bit 2 w = 0" if "take_bit 12 w = 0" for w :: usize
    using that by (simp add: take_bit_0_iff_bits)
  have cur: "push_bit 2 ?c = cur"
    by (rule push_drop_aligned [OF low [OF assms(1)]])
  have q: "push_bit 2 ?q = phys - virt"
    by (rule push_drop_aligned [OF low [OF take_bit_0_diff [OF assms(3,2)]]])
  have "A = push_bit 2 (?c + ?q)"
    unfolding A by (simp add: push_bit_add cur q)
  then have dropA: "drop_bit 2 A = take_bit 62 (?c + ?q)"
    by (intro bit_word_eqI) (auto simp: bit_simps simp del: push_bit_add)
  have A12: "take_bit 12 A = 0"
    unfolding A by (intro take_bit_0_add take_bit_0_diff assms)
  have fb: "\<not> bit flags n" if "10 \<le> n" for n
    using less_pow2_bits [OF flags, of n] that by simp
  have Ab: "\<not> bit (drop_bit 2 A) n" if "n < 10 \<or> 54 \<le> n" for n
    using that A12 less_pow2_bits [OF A(2), of "n + 2"]
    by (auto simp: take_bit_0_iff_bits bit_drop_bit_eq add.commute)
  have A54: "take_bit 54 (drop_bit 2 A) = drop_bit 2 A"
  proof (rule bit_word_eqI)
    fix n
    show "bit (take_bit 54 (drop_bit 2 A)) n \<longleftrightarrow> bit (drop_bit 2 A) n"
      using Ab [of n] by (cases "54 \<le> n") (auto simp: bit_take_bit_iff)
  qed
  have cf: "?c OR flags = ?c + flags"
  proof (rule disjunctive_add [symmetric])
    fix n
    show "\<not> bit ?c n \<or> \<not> bit flags n"
      using assms(1) fb [of n]
      by (cases "10 \<le> n") (auto simp: take_bit_0_iff_bits bit_drop_bit_eq)
  qed
  have "take_bit 54 (?c + flags + ?q) = take_bit 54 (take_bit 54 (take_bit 62 (?c + ?q)) + take_bit 54 flags)"
    by (simp add: take_bit_add_word ac_simps)
  also have "\<dots> = take_bit 54 (drop_bit 2 A + flags)"
    unfolding dropA [symmetric] A54 by (metis A54 take_bit_add_word)
  also have "drop_bit 2 A + flags = drop_bit 2 A OR flags"
    using Ab fb by (intro disjunctive_add) (meson not_le)
  also have "take_bit 54 (drop_bit 2 A OR flags) = drop_bit 2 A OR flags"
  proof (rule bit_word_eqI)
    fix n
    show "bit (take_bit 54 (drop_bit 2 A OR flags)) n \<longleftrightarrow> bit (drop_bit 2 A OR flags) n"
      using Ab [of n] fb [of n] by (cases "54 \<le> n") (auto simp: bit_take_bit_iff bit_or_iff)
  qed
  finally show ?thesis
    by (simp add: leaf_value_def cf UNRESERVED_BITS_MASK_eq flip: take_bit_eq_mask)
qed

section \<open>Mapping top-level superpages\<close>

text \<open>A loop that overwrites a run of entries of one table.\<close>

lemma foldM_store_range:
  assumes "mem ptr = Some \<lparr>entries = es\<rparr>" and "a + m \<le> length es"
    and "\<And>k mem es'. a \<le> k \<Longrightarrow> k < a + m \<Longrightarrow> mem ptr = Some \<lparr>entries = es'\<rparr> \<Longrightarrow>
      length es' = length es \<Longrightarrow> es' ! k = es ! k \<Longrightarrow>
      f k mem = Some (mem(ptr \<mapsto> \<lparr>entries = es'[k := new k]\<rparr>))"
  shows "foldM f [a..<a + m] mem = Some (mem(ptr \<mapsto>
    \<lparr>entries = map (\<lambda>k. if a \<le> k \<and> k < a + m then new k else es ! k) [0..<length es]\<rparr>))"
  using assms(2,3)
proof (induction m)
  case 0
  have "map (\<lambda>k. if a \<le> k \<and> k < a then new k else es ! k) [0..<length es] = es"
    by (rule nth_equalityI) auto
  then show ?case
    using assms(1) by (simp add: fun_upd_idem)
next
  case (Suc m)
  let ?es = "map (\<lambda>k. if a \<le> k \<and> k < a + m then new k else es ! k) [0..<length es]"
  have IH: "foldM f [a..<a + m] mem = Some (mem(ptr \<mapsto> \<lparr>entries = ?es\<rparr>))"
    using Suc.prems by (intro Suc.IH) auto
  have "f (a + m) (mem(ptr \<mapsto> \<lparr>entries = ?es\<rparr>)) =
      Some ((mem(ptr \<mapsto> \<lparr>entries = ?es\<rparr>))(ptr \<mapsto> \<lparr>entries = ?es[a + m := new (a + m)]\<rparr>))"
    using Suc.prems(1) by (intro Suc.prems(2)) auto
  moreover have "?es[a + m := new (a + m)] =
      map (\<lambda>k. if a \<le> k \<and> k < a + Suc m then new k else es ! k) [0..<length es]"
    using Suc.prems(1) by (intro nth_equalityI) (auto simp: nth_list_update)
  ultimately show ?case
    by (simp add: foldM_append IH fun_eq_iff)
qed

lemma superpage_vpn_range:
  assumes "0 < n" and "v0 + n \<le> 512" and l: "l \<le> 3"
  defines "s \<equiv> 12 + 9 * Suc l"
  shows "vpn_range (Suc l) 8 (of_nat (v0 * 2 ^ s)) (of_nat (n * 2 ^ s)) = Some (v0, v0 + n - 1)"
proof -
  have s: "s \<le> 48" "s < 64"
    using l by (simp_all add: s_def)
  have "(2::nat) ^ s \<le> 2 ^ 48"
    using s by (intro power_increasing) auto
  then have bound: "k * 2 ^ s < 2 ^ 64" if "k \<le> 512" for k :: nat
    using mult_le_mono [OF that, of "2 ^ s" "2 ^ 48"] by simp
  have v: "unat (of_nat (v0 * 2 ^ s) :: usize) = v0 * 2 ^ s"
    "unat (of_nat (n * 2 ^ s) :: usize) = n * 2 ^ s"
    using assms(1,2) by (intro unat_of_nat_usize bound, simp)+
  have sum: "of_nat (v0 * 2 ^ s) + of_nat (n * 2 ^ s) = (of_nat ((v0 + n) * 2 ^ s) :: usize)"
    by (simp add: algebra_simps)
  have e: "unat (of_nat ((v0 + n) * 2 ^ s) :: usize) = (v0 + n) * 2 ^ s"
    using assms(2) by (intro unat_of_nat_usize bound)
  have pos: "0 < (v0 + n) * 2 ^ s"
    using assms(1) by simp
  have e1: "unat (of_nat ((v0 + n) * 2 ^ s) - 1 :: usize) = (v0 + n) * 2 ^ s - 1"
    using e pos by (subst unat_minus_one) (auto simp: unat_eq_zero)
  obtain q where q: "v0 + n = Suc q"
    using assms(1) by (cases n) auto
  have eq: "Suc q * 2 ^ s - 1 = (2 ^ s - 1) + q * 2 ^ s"
    by simp
  have "((2 ^ s - 1) + q * 2 ^ s) div 2 ^ s = q + (2 ^ s - 1) div 2 ^ s"
    by (rule div_mult_self1) simp
  then have "((2 ^ s - 1) + q * 2 ^ s) div 2 ^ s = q"
    by (simp only: div_less [of "2 ^ s - 1 :: nat" "2 ^ s"] diff_less zero_less_one zero_less_power
        zero_less_numeral add_0_right)
  then have "((v0 + n) * 2 ^ s - 1) div 2 ^ s = v0 + n - 1"
    by (simp only: q eq diff_Suc_1)
  then have idx: "unat (get_vpn_number (of_nat ((v0 + n) * 2 ^ s) - 1) (Suc l) 8) = v0 + n - 1"
    "unat (get_vpn_number (of_nat (v0 * 2 ^ s)) (Suc l) 8) = v0"
    using l assms(1,2) by (simp_all only: unat_get_vpn_number e1 v flip: s_def) (simp_all add: s_def)
  have "(1 :: usize) \<le> of_nat ((v0 + n) * 2 ^ s)"
    unfolding word_le_nat_alt e using pos by (simp only: unsigned_1 Suc_leI One_nat_def)
  moreover have "v0 * 2 ^ s + n * 2 ^ s < 2 ^ 64"
    using bound [OF assms(2)] by (simp add: algebra_simps)
  ultimately have "checked_add (of_nat (v0 * 2 ^ s)) (of_nat (n * 2 ^ s)) = Some (of_nat ((v0 + n) * 2 ^ s))"
    "checked_sub (of_nat ((v0 + n) * 2 ^ s)) 1 = Some (of_nat ((v0 + n) * 2 ^ s) - 1)"
    unfolding checked_add_def checked_sub_def v sum by (simp_all only: if_True)
  then show ?thesis
    unfolding vpn_range_def Let_def using assms(1)
    by (simp only: Option.bind.simps nat.distinct if_False idx) simp
qed

text \<open>The entry that a mapped superpage gets.\<close>

definition superpage_entry :: "nat \<Rightarrow> usize \<Rightarrow> nat \<Rightarrow> Entry" where
  "superpage_entry s flags p = \<lparr>pte = drop_bit 2 (of_nat (p * 2 ^ s)) OR flags\<rparr>"

lemma superpage_bound: "p \<le> 512 \<Longrightarrow> l \<le> 2 \<Longrightarrow> p * 2 ^ (12 + 9 * Suc l) \<le> (2 :: nat) ^ 48"
proof -
  assume p: "p \<le> 512" and l: "l \<le> 2"
  have "(2::nat) ^ (12 + 9 * Suc l) \<le> 2 ^ 39"
    using l by (intro power_increasing) auto
  with p have "p * 2 ^ (12 + 9 * Suc l) \<le> 512 * (2::nat) ^ 39"
    by (intro mult_le_mono) auto
  then show ?thesis by simp
qed

lemma aligned_leaf_value:
  assumes "p * 2 ^ s < (2 :: nat) ^ 56" and "v0 \<le> k" and "p = p0 + (k - v0)" and "12 \<le> s"
    and "flags < 2 ^ 10"
  shows "leaf_value (of_nat (k * 2 ^ s)) flags (drop_bit 2 (of_nat (p0 * 2 ^ s) - of_nat (v0 * 2 ^ s)))
    = drop_bit 2 (of_nat (p * 2 ^ s)) OR flags"
proof (rule leaf_value_eq [OF _ _ _ _ _ assms(5)])
  have "take_bit 12 w = 0" if "take_bit s w = 0" for w :: usize
    using that assms(4) by (simp add: take_bit_0_iff_bits)
  then show "take_bit 12 (of_nat (k * 2 ^ s) :: usize) = 0"
    "take_bit 12 (of_nat (v0 * 2 ^ s) :: usize) = 0"
    "take_bit 12 (of_nat (p0 * 2 ^ s) :: usize) = 0"
    using take_bit_multiple by blast+
  have "p * 2 ^ s + v0 * 2 ^ s = k * 2 ^ s + p0 * 2 ^ s"
    using assms(2,3) by (simp flip: add_mult_distrib)
  then have "of_nat (p * 2 ^ s) + of_nat (v0 * 2 ^ s) = (of_nat (k * 2 ^ s) + of_nat (p0 * 2 ^ s) :: usize)"
    by (simp only: of_nat_add [symmetric])
  then show "(of_nat (p * 2 ^ s) :: usize) = of_nat (k * 2 ^ s) - of_nat (v0 * 2 ^ s) + of_nat (p0 * 2 ^ s)"
    by (simp only: algebra_simps eq_diff_eq)
  have "unat (of_nat (p * 2 ^ s) :: usize) = p * 2 ^ s"
    using assms(1) by (intro unat_of_nat_usize) simp
  then show "(of_nat (p * 2 ^ s) :: usize) < 2 ^ 56"
    using assms(1) by (simp add: word_less_nat_alt)
qed

lemma superpage_no_split:
  assumes l: "l \<le> 3"
  defines "s \<equiv> 12 + 9 * Suc l"
  shows "\<not> must_split (Suc l) 8 (of_nat (v0 * 2 ^ s)) (of_nat (n * 2 ^ s))
    (drop_bit 2 (of_nat (p0 * 2 ^ s) - of_nat (v0 * 2 ^ s))) a b k"
proof -
  have mult: "take_bit s (of_nat (q * 2 ^ s) :: usize) = 0" for q
    by (rule take_bit_multiple)
  have "take_bit 2 w = 0" if "take_bit s w = 0" for w :: usize
    using that by (simp add: take_bit_0_iff_bits s_def)
  then have off: "push_bit 2 (drop_bit 2 (of_nat (p0 * 2 ^ s) - of_nat (v0 * 2 ^ s)))
      = (of_nat (p0 * 2 ^ s) - of_nat (v0 * 2 ^ s) :: usize)"
    by (intro push_drop_aligned) (blast intro: take_bit_0_diff mult)
  have "Suc l \<le> 5" using l by simp
  then show ?thesis
    unfolding must_split_def Let_def off
    by (simp only: size_mask_and flip: s_def)
      (simp add: take_bit_0_add take_bit_0_diff mult del: of_nat_mult of_nat_power)
qed

lemma superpage_current_address:
  assumes "k < 512" and "l \<le> 3"
  shows "current_address_of (Suc l) 8 0 k = Some (of_nat (k * 2 ^ (12 + 9 * Suc l)))"
proof -
  let ?s = "12 + 9 * Suc l"
  have size: "get_vpn_size (Suc l) 8 = 2 ^ ?s"
    using assms(2) by (intro get_vpn_size_eq) simp
  have "(2::nat) ^ ?s \<le> 2 ^ 48"
    using assms(2) by (intro power_increasing) auto
  then have b: "k * 2 ^ ?s < (2::nat) ^ 64"
    using mult_le_mono [of k 511 "2 ^ ?s" "2 ^ 48"] assms(1) by simp
  have u: "unat (of_nat k :: usize) = k" "unat (2 ^ ?s :: usize) = 2 ^ ?s"
    using assms by (auto simp: unat_of_nat_usize intro!: unat_pow2)
  show ?thesis
    unfolding current_address_of_def size checked_mul_def u using b
    by (simp add: checked_add_def unat_usize_less [simplified])
qed

lemma map_internal_superpages:
  assumes root: "mem root = Some \<lparr>entries = es\<rparr>" "length es = 512"
    and range: "0 < n" "v0 + n \<le> 512" "p0 + n \<le> 512" and l: "l \<le> 2"
    and flags: "flags < 2 ^ 10"
    and leaves: "\<And>k. v0 \<le> k \<Longrightarrow> k < v0 + n \<Longrightarrow> is_leaf (es ! k)"
  defines "s \<equiv> 12 + 9 * Suc l"
  shows "map_internal (Suc l) 8 alloc v2p p2v (of_nat (p0 * 2 ^ s)) (of_nat (v0 * 2 ^ s))
      (of_nat (n * 2 ^ s)) flags root 0 mem
    = Some (mem(root \<mapsto> \<lparr>entries = map (\<lambda>k. if v0 \<le> k \<and> k < v0 + n
        then superpage_entry s flags (p0 + (k - v0)) else es ! k) [0..<512]\<rparr>))"
proof -
  have vr: "vpn_range (Suc l) 8 (of_nat (v0 * 2 ^ s)) (of_nat (n * 2 ^ s)) = Some (v0, v0 + n - 1)"
    unfolding s_def using range l by (intro superpage_vpn_range) auto
  have upt: "[v0..<Suc (v0 + n - 1)] = [v0..<v0 + n]"
    using range(1) by simp
  let ?off = "drop_bit 2 (of_nat (p0 * 2 ^ s) - of_nat (v0 * 2 ^ s)) :: usize"
  have l3: "l \<le> 3" using l by simp
  note no_split = superpage_no_split [OF l3, of v0 n p0, folded s_def]
  note cur = superpage_current_address [OF _ l3, folded s_def]
  show ?thesis
    unfolding map_internal.simps vr Option.bind.simps prod.case Let_def upt root(2) [symmetric]
  proof (rule foldM_store_range [where ptr = root and mem = mem and es = es], goal_cases)
    case 1
    then show ?case by (rule root(1))
  next
    case 2
    then show ?case using range root(2) by simp
  next
    case (3 k mem es')
    have leaf: "is_leaf (es' ! k)"
      using leaves 3 by simp
    have "leaf_value (of_nat (k * 2 ^ s)) flags ?off = pte (superpage_entry s flags (p0 + (k - v0)))"
      unfolding superpage_entry_def Entry.select_convs
    proof (rule aligned_leaf_value)
      have "(p0 + (k - v0)) * 2 ^ s \<le> 2 ^ 48"
        unfolding s_def using 3 range l by (intro superpage_bound) auto
      then show "(p0 + (k - v0)) * 2 ^ s < (2 :: nat) ^ 56" by simp
    qed (use 3 flags in \<open>auto simp: s_def\<close>)
    then show ?case
      using 3 leaf no_split range root(2)
      by (simp add: mem_entry_def table_index_def cur try_as_table_def mem_store_def table_store_def
          Entry_update_eq superpage_entry_def del: of_nat_mult of_nat_power)
  qed
qed

text \<open>
  A superpage entry at the top level translates an address of its superpage to the physical
  superpage plus the offset.
\<close>

lemma superpage_translation:
  assumes k: "unat (get_vpn_number va (Suc l) 8) = k" and p: "p < 512" and l: "l \<le> 2"
    and flags: "flags < 2 ^ 10" "bit flags 0" "bit flags 1 \<or> bit flags 3"
  defines "s \<equiv> 12 + 9 * Suc l"
  shows "walk_entry (Suc (Suc l)) 8 p2v mem va (Suc l) (superpage_entry s flags p) =
    Some (Inr (of_nat (p * 2 ^ s) OR take_bit s va))"
proof -
  define A where "A = (of_nat (p * 2 ^ s) :: usize)"
  define v where "v = (drop_bit 2 A OR flags)"
  have fb: "\<not> bit flags n" if "10 \<le> n" for n
    using less_pow2_bits [OF flags(1), of n] that by simp
  have Ab: "bit A n \<longleftrightarrow> s \<le> n \<and> n < s + 9 \<and> bit p (n - s)" for n
  proof -
    have A: "A = push_bit s (of_nat p)"
      by (simp add: A_def push_bit_eq_mult)
    have "p < 2 ^ 9"
      using p by simp
    then have "bit p (n - s) \<Longrightarrow> n - s < 9"
      by (rule nat_bit_less)
    moreover have "s + 9 \<le> 64"
      using l by (simp add: s_def)
    ultimately show ?thesis
      unfolding A by (auto simp: bit_push_bit_iff bit_of_nat_iff)
  qed
  have vb: "bit v n \<longleftrightarrow> bit A (n + 2) \<or> bit flags n" for n
    by (simp only: v_def bit_or_iff bit_drop_bit_eq comp_def add.commute)
  have s: "vpn_shift (Suc l) 8 = s" "vpn_shift (Suc (Suc l)) 8 = s + 9" "21 \<le> s" "s + 9 \<le> 48"
    and fmt: "format_ok (Suc (Suc l)) 8"
    using l by (simp_all add: s_def format_ok_def)
  have low: "\<not> bit v n" if "10 \<le> n" "n + 2 < s \<or> s + 9 \<le> n + 2" for n
    using that fb by (auto simp: vb Ab)
  have kind: "bit v 0" "\<not> bit v 60" "is_leaf \<lparr>pte = v\<rparr>"
    using flags low [of 60] s by (auto simp: is_leaf_bits vb)
  have "leaf_translation (Suc (Suc l)) 8 \<lparr>pte = v\<rparr> va (Suc l) = Some (A OR take_bit s va)"
    unfolding leaf_translation_Some [OF fmt lessI] Entry.select_convs s(1,2)
  proof (intro conjI allI)
    show "superpage_aligned 8 v (Suc l)"
      unfolding superpage_aligned_def s(1)
    proof (intro allI impI)
      fix n assume n: "12 \<le> n \<and> n < s"
      then have "10 \<le> n - 2" "n - 2 + 2 < s" by linarith+
      then show "\<not> bit v (n - 2)" using low by blast
    qed
    fix n
    have "n - 2 + 2 = n" "10 \<le> n - 2" if "s \<le> n" using that s(3) by auto
    then show "bit (A OR take_bit s va) n \<longleftrightarrow>
        (if n < s then bit va n else n < s + 9 \<and> bit v (n - 2))"
      using fb [of "n - 2"] by (cases "n < s") (auto simp: bit_or_iff bit_take_bit_iff vb Ab)
  qed
  then show ?thesis
    unfolding superpage_entry_def walk_entry_def A_def [symmetric] v_def [symmetric] using kind
    by simp
qed

text \<open>The physical address of a mapped address, as an offset from the range's start.\<close>

lemma superpage_offset:
  assumes k: "unat (get_vpn_number va (Suc l) 8) = k" and l: "l \<le> 2"
    and p: "v0 \<le> k" "p = p0 + (k - v0)"
  defines "s \<equiv> 12 + 9 * Suc l"
  shows "of_nat (p * 2 ^ s) OR take_bit s va =
    take_bit (s + 9) va - of_nat (v0 * 2 ^ s) + of_nat (p0 * 2 ^ s)"
proof -
  have add_or: "of_nat (q * 2 ^ s) OR take_bit s va = of_nat (q * 2 ^ s) + take_bit s va" for q
    using take_bit_multiple [of s q]
    by (intro disjunctive_add [symmetric])
      (auto simp only: take_bit_0_iff_bits bit_take_bit_iff)
  have "k = take_bit 9 (drop_bit s (unat va))"
    using k l unat_get_vpn_number [of "Suc l" va]
    by (simp add: s_def take_bit_eq_mod drop_bit_eq_div)
  then have kbits: "bit k m \<longleftrightarrow> m < 9 \<and> bit va (s + m)" for m
    using l by (auto simp: bit_take_bit_iff bit_drop_bit_eq bit_unsigned_iff dest: bit_imp_le_length)
  have K: "of_nat (k * 2 ^ s) = push_bit s (of_nat k :: usize)"
    by (simp add: push_bit_eq_mult)
  have "take_bit (s + 9) va = of_nat (k * 2 ^ s) OR take_bit s va"
    unfolding K
  proof (rule bit_word_eqI)
    fix n assume "n < LENGTH(64)"
    then show "bit (take_bit (s + 9) va) n \<longleftrightarrow> bit (push_bit s (of_nat k) OR take_bit s va) n"
      by (auto simp: bit_or_iff bit_take_bit_iff bit_push_bit_iff bit_of_nat_iff kbits)
  qed
  then have "take_bit (s + 9) va = of_nat (k * 2 ^ s) + take_bit s va"
    by (simp only: add_or)
  moreover have "p * 2 ^ s + v0 * 2 ^ s = k * 2 ^ s + p0 * 2 ^ s"
    using p by (simp flip: add_mult_distrib)
  then have "of_nat (p * 2 ^ s) + of_nat (v0 * 2 ^ s) = (of_nat (k * 2 ^ s) + of_nat (p0 * 2 ^ s) :: usize)"
    by (simp only: of_nat_add [symmetric])
  ultimately show ?thesis
    unfolding add_or by (simp only: algebra_simps eq_diff_eq)
qed

lemma map_range_superpages:
  assumes root: "mem (root_table self) = Some t" "length (entries t) = 512"
    and range: "0 < n" "v0 + n \<le> 512" "p0 + n \<le> 512" and l: "l \<le> 2"
    and flags: "flags < 2 ^ 10"
    and leaves: "\<And>k. v0 \<le> k \<Longrightarrow> k < v0 + n \<Longrightarrow> is_leaf (entries t ! k)"
    and va: "decanonicalize_address (Suc (Suc l)) 8 virt = of_nat (v0 * 2 ^ s)"
    and s: "s = 12 + 9 * Suc l"
  shows "map_range (Suc (Suc l)) 8 alloc self (of_nat (p0 * 2 ^ s)) virt (of_nat (n * 2 ^ s)) flags mem
    = Some (mem(root_table self \<mapsto> \<lparr>entries = map (\<lambda>k. if v0 \<le> k \<and> k < v0 + n
        then superpage_entry s flags (p0 + (k - v0)) else entries t ! k) [0..<512]\<rparr>))"
proof -
  have low: "(of_nat (q * 2 ^ s) :: usize) AND 0xfff = 0" for q
    using take_bit_multiple [of s q] s unfolding take_bit_0_iff_bits page_aligned_bits by simp
  have t: "mem (root_table self) = Some \<lparr>entries = entries t\<rparr>"
    using root(1) by (cases t) simp
  have "map_internal (Suc l) 8 alloc (virt_to_phys_fn self) (phys_to_virt_fn self)
      (of_nat (p0 * 2 ^ s)) (of_nat (v0 * 2 ^ s)) (of_nat (n * 2 ^ s)) flags (root_table self) 0 mem
    = Some (mem(root_table self \<mapsto> \<lparr>entries = map (\<lambda>k. if v0 \<le> k \<and> k < v0 + n
        then superpage_entry s flags (p0 + (k - v0)) else entries t ! k) [0..<512]\<rparr>))"
    unfolding s using t root(2) range l flags leaves by (rule map_internal_superpages)
  then show ?thesis
    unfolding map_range_def va Let_def using low
    by (simp only: assert_that_simps Option.bind.simps diff_Suc_1 simp_thms)
qed

section \<open>The last level\<close>

text \<open>
  At level \<open>0\<close> the recursion does not subtract one from the end of the range, and its loop includes
  the last index: a range of \<open>n\<close> pages inside one table sets \<open>n + 1\<close> entries.
\<close>

lemma page_vpn_range:
  assumes "v0 + n < 512"
  shows "vpn_range 0 8 (of_nat (v0 * 2 ^ 12)) (of_nat (n * 2 ^ 12)) = Some (v0, v0 + n)"
proof -
  have u: "unat (of_nat (k * 2 ^ 12) :: usize) = k * 2 ^ 12" if "k < 512" for k
    using that by (intro unat_of_nat_usize) simp
  have sum: "of_nat (v0 * 2 ^ 12) + of_nat (n * 2 ^ 12) = (of_nat ((v0 + n) * 2 ^ 12) :: usize)"
    by (simp add: algebra_simps)
  have idx: "unat (get_vpn_number (of_nat (k * 2 ^ 12)) 0 8) = k" if "k < 512" for k
    using that by (subst unat_get_vpn_number) (simp_all only: u, simp_all)
  have "checked_add (of_nat (v0 * 2 ^ 12)) (of_nat (n * 2 ^ 12)) = Some (of_nat ((v0 + n) * 2 ^ 12))"
    unfolding checked_add_def sum using assms by (subst (1 2) u) auto
  then show ?thesis
    unfolding vpn_range_def Let_def using idx [of v0] idx [of "v0 + n"] assms
    by (simp only: Option.bind.simps checked_sub_def) simp
qed

lemma map_internal_pages:
  assumes root: "mem ptr = Some \<lparr>entries = es\<rparr>" "length es = 512"
    and range: "v0 + n < 512" "p0 + n < 2 ^ 44" and flags: "flags < 2 ^ 10"
  shows "map_internal 0 8 alloc v2p p2v (of_nat (p0 * 2 ^ 12)) (of_nat (v0 * 2 ^ 12))
      (of_nat (n * 2 ^ 12)) flags ptr 0 mem
    = Some (mem(ptr \<mapsto> \<lparr>entries = map (\<lambda>k. if v0 \<le> k \<and> k < v0 + Suc n
        then superpage_entry 12 flags (p0 + (k - v0)) else es ! k) [0..<512]\<rparr>))"
proof -
  have upt: "[v0..<Suc (v0 + n)] = [v0..<v0 + Suc n]" by simp
  let ?off = "drop_bit 2 (of_nat (p0 * 2 ^ 12) - of_nat (v0 * 2 ^ 12)) :: usize"
  have cur: "current_address_of 0 8 0 k = Some (of_nat (k * 2 ^ 12))" if "k < 512" for k
    using that get_vpn_size_eq [of 0]
    by (simp add: current_address_of_def checked_mul_def checked_add_def unat_of_nat_usize
        unat_usize_less [simplified])
  show ?thesis
    unfolding map_internal.simps page_vpn_range [OF range(1)] Option.bind.simps prod.case Let_def upt
      root(2) [symmetric]
  proof (rule foldM_store_range [where ptr = ptr and mem = mem and es = es], goal_cases)
    case 1
    then show ?case by (rule root(1))
  next
    case 2
    then show ?case using range root(2) by simp
  next
    case (3 k mem es')
    have "leaf_value (of_nat (k * 2 ^ 12)) flags ?off = pte (superpage_entry 12 flags (p0 + (k - v0)))"
      unfolding superpage_entry_def Entry.select_convs
      by (rule aligned_leaf_value) (use 3 range flags in auto)
    then show ?case
      using 3 range root(2)
      by (simp add: mem_entry_def table_index_def cur mem_store_def table_store_def
          Entry_update_eq superpage_entry_def del: of_nat_mult of_nat_power)
  qed
qed

end
