(* ===== verification/Paging.thy ===== *)
theory Paging
  imports Page_Map
begin

text \<open>
  The properties of \<^verbatim>\<open>kernel_paging\<close>, with a concrete instance of each that has hypotheses.
\<close>

section \<open>A concrete address space\<close>

text \<open>An empty root table at physical address \<open>0x1000\<close>, with identity address functions.\<close>

definition demo_paging :: GenericPaging where
  "demo_paging = \<lparr>root_table = 0x1000, phys_to_virt_fn = Some, virt_to_phys_fn = Some\<rparr>"

definition demo_memory :: memory where
  "demo_memory = [0x1000 \<mapsto> table_zeroed 8]"

definition demo_alloc :: allocator where
  "demo_alloc mem = Some (0x2000, table_zeroed 8)"

lemma zero_entry_leaf: "is_leaf \<lparr>pte = 0\<rparr>"
  by (simp add: is_leaf_def)

lemma demo_unreferenced: "root_unreferenced p2v demo_memory root"
  by (auto simp: root_unreferenced_def demo_memory_def table_zeroed_def entry_zeroed_def
      zero_entry_leaf split: if_splits)

lemma demo_table: "demo_memory 0x1000 = Some \<lparr>entries = replicate 512 \<lparr>pte = 0\<rparr>\<rparr>"
  by (simp add: demo_memory_def table_zeroed_def entry_zeroed_def)

section \<open>Mapping and looking up\<close>

text \<open>
  C1. Mapping \<open>n\<close> top-level superpages (\<open>1 GiB\<close> each for Sv39) over leaf entries succeeds; afterwards
  a lookup of any virtual address of the range gives the address at the same distance from the
  start of the physical range, and every lookup outside the range that had a result keeps it.
\<close>

theorem map_superpages_query:
  assumes "mem (root_table self) = Some t" and "length (entries t) = 512"
    and "0 < n" and "v0 + n \<le> 512" and "p0 + n \<le> 512" and "l \<le> 2"
    and "flags < 2 ^ 10" and "bit flags 0" and "bit flags 1 \<or> bit flags 3"
    and "\<And>k. v0 \<le> k \<Longrightarrow> k < v0 + n \<Longrightarrow> is_leaf (entries t ! k)"
    and "root_unreferenced (phys_to_virt_fn self) mem (root_table self)"
    and "s = 12 + 9 * Suc l"
    and "decanonicalize_address (Suc (Suc l)) 8 virt = of_nat (v0 * 2 ^ s)"
  shows "\<exists>mem'. map_range (Suc (Suc l)) 8 alloc self (of_nat (p0 * 2 ^ s)) virt (of_nat (n * 2 ^ s))
        flags mem = Some mem'
    \<and> (\<forall>va. v0 \<le> unat (get_vpn_number va (Suc l) 8) \<and> unat (get_vpn_number va (Suc l) 8) < v0 + n
        \<longrightarrow> query (Suc (Suc l)) 8 self mem' va
            = Some (Inr (take_bit (s + 9) va - of_nat (v0 * 2 ^ s) + of_nat (p0 * 2 ^ s))))
    \<and> (\<forall>va r. \<not> (v0 \<le> unat (get_vpn_number va (Suc l) 8) \<and> unat (get_vpn_number va (Suc l) 8) < v0 + n)
        \<longrightarrow> query (Suc (Suc l)) 8 self mem va = Some r
        \<longrightarrow> query (Suc (Suc l)) 8 self mem' va = Some r)"
proof (intro exI conjI)
  let ?es = "map (\<lambda>k. if v0 \<le> k \<and> k < v0 + n then superpage_entry s flags (p0 + (k - v0))
    else entries t ! k) [0..<512]"
  let ?mem = "mem(root_table self \<mapsto> \<lparr>entries = ?es\<rparr>)"
  show "map_range (Suc (Suc l)) 8 alloc self (of_nat (p0 * 2 ^ s)) virt (of_nat (n * 2 ^ s)) flags mem
      = Some ?mem"
    using assms by (intro map_range_superpages) auto
  have idx: "unat (get_vpn_number va (Suc l) 8) < 512" for va
    using unat_get_vpn_number_less [of 8 "Suc l" va] assms(6) by simp
  show "\<forall>va. v0 \<le> unat (get_vpn_number va (Suc l) 8) \<and> unat (get_vpn_number va (Suc l) 8) < v0 + n
      \<longrightarrow> query (Suc (Suc l)) 8 self ?mem va
          = Some (Inr (take_bit (s + 9) va - of_nat (v0 * 2 ^ s) + of_nat (p0 * 2 ^ s)))"
  proof (intro allI impI)
    fix va
    define k where "k = unat (get_vpn_number va (Suc l) 8)"
    assume "v0 \<le> unat (get_vpn_number va (Suc l) 8) \<and> unat (get_vpn_number va (Suc l) 8) < v0 + n"
    then have k: "v0 \<le> k" "k < v0 + n" by (simp_all add: k_def)
    have p: "p0 + (k - v0) < 512" using k assms(5) by simp
    have "query (Suc (Suc l)) 8 self ?mem va =
        walk_entry (Suc (Suc l)) 8 (phys_to_virt_fn self) ?mem va (Suc l)
          (superpage_entry s flags (p0 + (k - v0)))"
      unfolding query_def query_loop_walk using k assms(4)
      by (simp add: mem_entry_def table_index_def flip: k_def)
    also have "\<dots> = Some (Inr (of_nat ((p0 + (k - v0)) * 2 ^ s) OR take_bit s va))"
      unfolding assms(12) by (rule superpage_translation [OF k_def [symmetric] p assms(6-9)])
    also have "of_nat ((p0 + (k - v0)) * 2 ^ s) OR take_bit s va =
        take_bit (s + 9) va - of_nat (v0 * 2 ^ s) + of_nat (p0 * 2 ^ s)"
      unfolding assms(12) by (rule superpage_offset [OF k_def [symmetric] assms(6) k(1) refl])
    finally show "query (Suc (Suc l)) 8 self ?mem va
        = Some (Inr (take_bit (s + 9) va - of_nat (v0 * 2 ^ s) + of_nat (p0 * 2 ^ s)))" .
  qed
  show "\<forall>va r. \<not> (v0 \<le> unat (get_vpn_number va (Suc l) 8) \<and> unat (get_vpn_number va (Suc l) 8) < v0 + n)
      \<longrightarrow> query (Suc (Suc l)) 8 self mem va = Some r \<longrightarrow> query (Suc (Suc l)) 8 self ?mem va = Some r"
  proof (intro allI impI)
    fix va r
    let ?k = "unat (get_vpn_number va (Suc l) 8)"
    assume out: "\<not> (v0 \<le> ?k \<and> ?k < v0 + n)" and q: "query (Suc (Suc l)) 8 self mem va = Some r"
    show "query (Suc (Suc l)) 8 self ?mem va = Some r"
      by (rule query_unchanged_entry [OF assms(11) _ refl _ _ q, where e = "entries t ! ?k"])
        (use idx [of va] out assms(1,2) in \<open>auto simp: mem_entry_Some\<close>)
  qed
qed

theorem map_superpages_query_witness:
  "\<exists>mem'. map_range 3 8 demo_alloc demo_paging 0 (2 ^ 38) (2 ^ 38) 0xf demo_memory = Some mem'
    \<and> query 3 8 demo_paging mem' 0xffffffc080200123 = Some (Inr 0x80200123)"
proof -
  have b: "bit (0xf :: usize) 0" "bit (0xf :: usize) 1 \<or> bit (0xf :: usize) 3" "(0xf :: usize) < 2 ^ 10"
    by simp_all
  have d: "decanonicalize_address 3 8 (2 ^ 38) = (of_nat (256 * 2 ^ 30) :: usize)"
    by (simp add: decanonicalize_address_def get_vpn_offset_def Let_def)
  have n: "(0::nat) < 256" "(256::nat) + 256 \<le> 512" "(0::nat) + 256 \<le> 512" "(1::nat) \<le> 2"
    by simp_all
  have t: "demo_memory (root_table demo_paging) = Some \<lparr>entries = replicate 512 \<lparr>pte = 0\<rparr>\<rparr>"
    by (simp add: demo_paging_def demo_table)
  have leaves: "is_leaf (entries \<lparr>entries = replicate 512 \<lparr>pte = 0\<rparr>\<rparr> ! k)" if "k < 256 + 256" for k
    using that by (simp add: zero_entry_leaf)
  have s: "(30::nat) = 12 + 9 * Suc 1" by simp
  have v: "unat (get_vpn_number 0xffffffc080200123 (Suc 1) 8) = 258"
    by (subst unat_get_vpn_number) simp_all
  have u: "Suc (Suc 1) = 3" by simp
  from map_superpages_query [OF t _ n b(3) b(1,2) leaves demo_unreferenced s, of "2 ^ 38" demo_alloc] d
  obtain mem' where m: "map_range 3 8 demo_alloc demo_paging (of_nat (0 * 2 ^ 30)) (2 ^ 38)
      (of_nat (256 * 2 ^ 30)) 0xf demo_memory = Some mem'"
    and q: "query 3 8 demo_paging mem' 0xffffffc080200123 = Some (Inr (take_bit (30 + 9) 0xffffffc080200123
        - of_nat (256 * 2 ^ 30) + of_nat (0 * 2 ^ 30)))"
    unfolding u using v by (auto simp del: of_nat_mult of_nat_power)
  have "take_bit (30 + 9) 0xffffffc080200123 - of_nat (256 * 2 ^ 30) + of_nat (0 * 2 ^ 30)
      = (0x80200123 :: usize)"
    by simp
  with m q show ?thesis by simp
qed

section \<open>Splitting a superpage\<close>

text \<open>
  C7. Splitting a root leaf that is valid and readable or executable, or not valid at all, succeeds
  when the allocator gives a fresh page-aligned block, and after the new table has been installed
  every lookup that had a result has the same result.
\<close>

theorem split_preserves_query:
  assumes "fresh_block alloc (virt_to_phys_fn self) (phys_to_virt_fn self) mem ptr phys"
    and "mem (root_table self) = Some t" and "k < length (entries t)" and "e = entries t ! k"
    and "superpage_aligned 8 (pte e) (Suc l)" and "pte e < 2 ^ 54" and "l \<le> 3"
    and "\<not> bit (pte e) 0 \<or> bit (pte e) 1 \<or> bit (pte e) 3"
    and "root_unreferenced (phys_to_virt_fn self) mem (root_table self)"
  shows "\<exists>mem1 e' mem2. split alloc (virt_to_phys_fn self) (get_vpn_size l 8) mem e = Some (mem1, e')
    \<and> mem_store mem1 (root_table self) k e' = Some mem2
    \<and> (\<forall>va r. query (Suc (Suc l)) 8 self mem va = Some r
          \<longrightarrow> query (Suc (Suc l)) 8 self mem2 va = Some r)"
  using assms by (rule split_root_entry)

text \<open>A root table whose entry \<open>0\<close> maps the first gigabyte to itself.\<close>

definition giga_memory :: memory where
  "giga_memory = [0x1000 \<mapsto> \<lparr>entries = \<lparr>pte = 0xf\<rparr> # replicate 511 \<lparr>pte = 0\<rparr>\<rparr>]"

lemma giga_aligned: "superpage_aligned 8 (0xf :: usize) (Suc 1)"
  unfolding superpage_aligned_def
proof (intro allI impI)
  fix n :: nat
  assume "12 \<le> n \<and> n < vpn_shift (Suc 1) 8"
  then show "\<not> bit (0xf :: usize) (n - 2)"
    by (intro less_pow2_bits [of _ 4]) auto
qed

theorem split_preserves_query_witness:
  "\<exists>mem1 e' mem2. split demo_alloc Some (get_vpn_size 1 8) giga_memory \<lparr>pte = 0xf\<rparr> = Some (mem1, e')
    \<and> mem_store mem1 0x1000 0 e' = Some mem2
    \<and> query 3 8 demo_paging giga_memory 0x12345678 = Some (Inr 0x12345678)
    \<and> query 3 8 demo_paging mem2 0x12345678 = Some (Inr 0x12345678)"
proof -
  let ?t = "\<lparr>entries = \<lparr>pte = 0xf\<rparr> # replicate 511 \<lparr>pte = 0\<rparr>\<rparr> :: Table"
  have sel: "phys_to_virt_fn demo_paging = Some" "virt_to_phys_fn demo_paging = Some"
    "root_table demo_paging = 0x1000"
    by (simp_all add: demo_paging_def)
  have blk: "fresh_block demo_alloc Some Some giga_memory 0x2000 0x2000"
    by (simp add: fresh_block_def demo_alloc_def giga_memory_def table_zeroed_def)
  have mem: "giga_memory 0x1000 = Some ?t"
    by (simp add: giga_memory_def)
  have unref: "root_unreferenced Some giga_memory 0x1000"
    by (auto simp: root_unreferenced_def giga_memory_def is_leaf_bits split: if_splits)
  have e: "pte \<lparr>pte = 0xf\<rparr> = (0xf :: usize)" "(0xf :: usize) < 2 ^ 54" "(1::nat) \<le> 3"
    "\<not> bit (0xf :: usize) 0 \<or> bit (0xf :: usize) 1 \<or> bit (0xf :: usize) 3"
    by simp_all
  have idx: "unat (get_vpn_number 0x12345678 (Suc 1) 8) = 0"
    by (subst unat_get_vpn_number) simp_all
  have "walk_entry (Suc (Suc 1)) 8 Some giga_memory 0x12345678 (Suc 1)
        (superpage_entry (12 + 9 * Suc 1) 0xf 0)
      = Some (Inr (of_nat (0 * 2 ^ (12 + 9 * Suc 1)) OR take_bit (12 + 9 * Suc 1) 0x12345678))"
    using idx by (intro superpage_translation [where k = 0]) simp_all
  moreover have "superpage_entry (12 + 9 * Suc 1) 0xf 0 = \<lparr>pte = 0xf\<rparr>"
    by (simp add: superpage_entry_def)
  moreover have "of_nat (0 * 2 ^ (12 + 9 * Suc 1)) OR take_bit (12 + 9 * Suc 1) 0x12345678
      = (0x12345678 :: usize)"
    by simp
  ultimately have w: "walk_entry (Suc (Suc 1)) 8 Some giga_memory 0x12345678 (Suc 1) \<lparr>pte = 0xf\<rparr>
      = Some (Inr 0x12345678)"
    by (simp only:)
  have m0: "mem_entry giga_memory 0x1000 0 = Some \<lparr>pte = 0xf\<rparr>"
    by (simp add: mem_entry_def table_index_def mem)
  have three: "(3 :: nat) = Suc (Suc 1)" "Suc (Suc 1) - 1 = Suc 1"
    by simp_all
  have q: "query 3 8 demo_paging giga_memory 0x12345678 = Some (Inr 0x12345678)"
    unfolding query_def query_loop_walk sel three idx m0 by (simp only: bind.bind_lunit w)
  have k: "0 < length (entries ?t)" "\<lparr>pte = 0xf\<rparr> = entries ?t ! 0"
    by simp_all
  from split_preserves_query [of demo_alloc demo_paging giga_memory "0x2000" "0x2000" ?t 0 "\<lparr>pte = 0xf\<rparr>" 1,
      unfolded sel e(1), OF blk mem k giga_aligned e(2,3,4) unref] q
  show ?thesis
    unfolding three by blast
qed

section \<open>Errors of the walk\<close>

text \<open>
  C29. The walk classifies an entry it meets by bit \<open>0\<close> and bit \<open>60\<close> only: it reports \<^verbatim>\<open>Invalid\<close>
  for an entry of the root table exactly when bit \<open>0\<close> is clear, and \<^verbatim>\<open>ReservedBitSet\<close> for a valid
  leaf exactly when bit \<open>60\<close> is set; no lookup ever returns \<^verbatim>\<open>WriteOnly\<close>.
\<close>

theorem query_error_classes:
  assumes "LEVELS \<noteq> 0" and "8 = PTESIZE"
    and "mem_entry mem (root_table self) (unat (get_vpn_number va (LEVELS - 1) PTESIZE)) = Some e"
  shows "query LEVELS PTESIZE self mem va \<noteq> Some (Inl WriteOnly)
    \<and> (\<not> bit (pte e) 0 \<longrightarrow> query LEVELS PTESIZE self mem va = Some (Inl Invalid))
    \<and> (bit (pte e) 0 \<longrightarrow> is_leaf e \<longrightarrow>
         (query LEVELS PTESIZE self mem va = Some (Inl ReservedBitSet) \<longleftrightarrow> bit (pte e) 60)
         \<and> query LEVELS PTESIZE self mem va \<noteq> Some (Inl Invalid))"
proof -
  have "query LEVELS PTESIZE self mem va
      = walk_entry LEVELS PTESIZE (phys_to_virt_fn self) mem va (LEVELS - 1) e"
    unfolding query_def query_loop_walk using assms by simp
  moreover have "query LEVELS PTESIZE self mem va \<noteq> Some (Inl WriteOnly)"
    unfolding query_def by (rule query_loop_not_WriteOnly)
  ultimately show ?thesis
    using assms(2) by (auto simp: walk_entry_def)
qed

theorem query_error_classes_witness:
  "query 3 8 demo_paging demo_memory 0 = Some (Inl Invalid)"
proof -
  have idx: "unat (get_vpn_number 0 (3 - 1) 8) = 0"
    by (subst unat_get_vpn_number) simp_all
  have "mem_entry demo_memory (root_table demo_paging) (unat (get_vpn_number 0 (3 - 1) 8)) = Some \<lparr>pte = 0\<rparr>"
    unfolding idx by (simp add: demo_paging_def mem_entry_def demo_table table_index_def)
  from query_error_classes [OF _ refl this] show ?thesis by simp
qed

section \<open>The last level maps one page too many\<close>

text \<open>
  The last level of the recursion, asked to map \<open>n\<close> pages inside one table, overwrites the
  \<open>n + 1\<close> entries from the first page on: the page just after the range is mapped too, to the page
  just after the physical range; the other entries are kept.
\<close>

theorem map_last_level_extra_page:
  assumes "mem ptr = Some \<lparr>entries = es\<rparr>" and "length es = 512"
    and "v0 + n < 512" and "p0 + n < 2 ^ 44" and "flags < 2 ^ 10"
  shows "\<exists>mem'. map_internal 0 8 alloc v2p p2v (of_nat (p0 * 2 ^ 12)) (of_nat (v0 * 2 ^ 12))
        (of_nat (n * 2 ^ 12)) flags ptr 0 mem = Some mem'
    \<and> mem_entry mem' ptr (v0 + n) = Some \<lparr>pte = drop_bit 2 (of_nat ((p0 + n) * 2 ^ 12)) OR flags\<rparr>
    \<and> (\<forall>k. v0 \<le> k \<and> k < v0 + n \<longrightarrow>
         mem_entry mem' ptr k = Some \<lparr>pte = drop_bit 2 (of_nat ((p0 + (k - v0)) * 2 ^ 12)) OR flags\<rparr>)
    \<and> (\<forall>k<512. \<not> (v0 \<le> k \<and> k \<le> v0 + n) \<longrightarrow> mem_entry mem' ptr k = Some (es ! k))"
  using map_internal_pages [where mem = mem and ptr = ptr and es = es, OF assms,
      of alloc v2p p2v] assms(2,3)
  by (auto simp: mem_entry_def table_index_def superpage_entry_def simp del: of_nat_mult of_nat_power)

theorem map_last_level_extra_page_witness:
  "\<exists>mem'. map_internal 0 8 demo_alloc Some Some 0x5000 0 0x1000 0xf 0x1000 0 demo_memory = Some mem'
    \<and> mem_entry mem' 0x1000 0 = Some \<lparr>pte = 0x140f\<rparr>
    \<and> mem_entry mem' 0x1000 1 = Some \<lparr>pte = 0x180f\<rparr>"
proof -
  have "length (replicate 512 \<lparr>pte = 0\<rparr>) = 512" "(0::nat) + 1 < 512" "(5::nat) + 1 < 2 ^ 44"
    "(0xf :: usize) < 2 ^ 10"
    by simp_all
  from map_last_level_extra_page [where mem = demo_memory and ptr = "0x1000" and
      es = "replicate 512 \<lparr>pte = 0\<rparr>", OF demo_table this, of demo_alloc Some Some]
  obtain mem' where "map_internal 0 8 demo_alloc Some Some 0x5000 0 0x1000 0xf 0x1000 0 demo_memory = Some mem'"
    "mem_entry mem' 0x1000 1 = Some \<lparr>pte = 0x180f\<rparr>"
    "\<forall>k. 0 \<le> k \<and> k < 0 + 1 \<longrightarrow>
         mem_entry mem' 0x1000 k = Some \<lparr>pte = drop_bit 2 (of_nat ((5 + (k - 0)) * 2 ^ 12)) OR 0xf\<rparr>"
    by auto
  then show ?thesis by auto
qed

section \<open>Virtual page numbers and canonical addresses\<close>

text \<open>
  Writing a page number into an address and reading the page numbers back: the written field
  has the new value, every other field and the page offset are unchanged.
\<close>

theorem vpn_fields_independent:
  assumes "format_ok LEVELS PTESIZE" and "i < LEVELS" and "j < LEVELS"
    and "unat v < 2 ^ vpn_bits PTESIZE"
  shows "get_vpn_number (set_vpn_number a i v PTESIZE) j PTESIZE
      = (if i = j then v else get_vpn_number a j PTESIZE)
    \<and> get_page_offset (set_vpn_number a i v PTESIZE) = get_page_offset a"
proof -
  note sz = format_okD(1) [OF assms(1)]
  let ?b = "vpn_bits PTESIZE"
  have sh: "vpn_shift i PTESIZE < 256" "vpn_shift j PTESIZE < 256"
    using format_ok_shift(2) [OF assms(1)] assms(2,3) by simp_all
  have top: "vpn_shift i PTESIZE + ?b \<le> 64" "vpn_shift j PTESIZE + ?b \<le> 64"
    using format_ok_shift(1) [OF assms(1), of "Suc i"] format_ok_shift(1) [OF assms(1), of "Suc j"]
      assms(2,3) by simp_all
  have vbits: "bit v m \<Longrightarrow> m < ?b" for m
    using nat_bit_less [OF assms(4), of m] by (simp add: bit_unsigned_iff)
  have apart: "vpn_shift i PTESIZE + ?b \<le> vpn_shift j PTESIZE \<or> vpn_shift j PTESIZE + ?b \<le> vpn_shift i PTESIZE"
    if "i \<noteq> j"
    using that mult_le_mono1 [of "Suc i" j ?b] mult_le_mono1 [of "Suc j" i ?b] by (cases i j rule: linorder_cases) auto
  obtain I J where IJ: "vpn_shift i PTESIZE = I" "vpn_shift j PTESIZE = J" by blast
  have "get_vpn_number (set_vpn_number a i v PTESIZE) j PTESIZE
      = (if i = j then v else get_vpn_number a j PTESIZE)"
  proof (rule bit_word_eqI)
    fix n
    show "bit (get_vpn_number (set_vpn_number a i v PTESIZE) j PTESIZE) n \<longleftrightarrow>
        bit (if i = j then v else get_vpn_number a j PTESIZE) n"
      using vbits [of n] vbits [of "J + n - I"] apart top IJ
      by (auto simp: bit_get_vpn_number [OF sz sh(2)] bit_set_vpn_number [OF sz sh(1)]
          simp del: add_le_cancel_left dest: bit_imp_le_length)
  qed
  moreover have "get_page_offset (set_vpn_number a i v PTESIZE) = get_page_offset a"
    by (rule bit_word_eqI)
      (auto simp: bit_get_page_offset bit_set_vpn_number [OF sz sh(1)] dest: bit_imp_le_length)
  ultimately show ?thesis ..
qed

theorem vpn_fields_independent_witness:
  "get_vpn_number (set_vpn_number 0x7f12345678 1 12 8) 1 8 = 12
    \<and> get_vpn_number (set_vpn_number 0x7f12345678 1 12 8) 0 8 = get_vpn_number 0x7f12345678 0 8"
  using vpn_fields_independent [OF format_ok_sv(2), of 1 1 12 "0x7f12345678"]
    vpn_fields_independent [OF format_ok_sv(2), of 1 0 12 "0x7f12345678"]
  by simp

text \<open>
  C32. \<^verbatim>\<open>canonicalize_address\<close> sign-extends from the top bit of the address format,
  \<^verbatim>\<open>decanonicalize_address\<close> keeps the bits of the format, and the two undo each other.
\<close>

theorem canonicalize_sign_extends:
  assumes "format_ok LEVELS PTESIZE"
  shows "canonicalize_address LEVELS PTESIZE a = signed_take_bit (vpn_shift LEVELS PTESIZE - 1) a
    \<and> decanonicalize_address LEVELS PTESIZE a = take_bit (vpn_shift LEVELS PTESIZE) a
    \<and> decanonicalize_address LEVELS PTESIZE (canonicalize_address LEVELS PTESIZE a)
        = decanonicalize_address LEVELS PTESIZE a
    \<and> canonicalize_address LEVELS PTESIZE (decanonicalize_address LEVELS PTESIZE a)
        = canonicalize_address LEVELS PTESIZE a"
proof -
  note le = format_okD(3) [OF assms]
  note bits = bit_canonicalize [OF le] bit_decanonicalize [OF le]
  obtain S where S: "vpn_shift LEVELS PTESIZE = S" "12 \<le> S" by simp
  show ?thesis
    unfolding word_bits_eq_iff bits bit_signed_take_bit_iff bit_take_bit_iff S
    using S(2) by (auto simp: min_def dest: bit_imp_le_length)
qed

theorem canonicalize_sign_extends_witness:
  "canonicalize_address 3 8 0x7f12345678 = 0xffffffff12345678
    \<and> decanonicalize_address 3 8 0xffffffff12345678 = 0x7f12345678"
  using canonicalize_sign_extends [OF format_ok_sv(2), of "0x7f12345678"]
    canonicalize_sign_extends [OF format_ok_sv(2), of "0xffffffff12345678"]
  by (simp add: signed_take_bit_eq_if_negative)

end
