(* ===== verification/Lock_Interfaces.thy ===== *)
theory Lock_Interfaces
  imports Kernel_Prelude
begin

text \<open>
  The contracts of the traits \<^verbatim>\<open>RawMutex\<close> and \<^verbatim>\<open>RawRwLock\<close> that every lock of \<^verbatim>\<open>kernel_lock\<close>
  implements, as abstract state machines and as locales. A mutex is abstractly a Boolean, a
  reader-writer lock a number of readers or one writer. A lock is used by a sequence of calls; a
  blocking call that can never succeed because nobody else runs is \<^const>\<open>None\<close>, like a panic, and
  so is the release of a lock that is not held, which the traits forbid.

  The locales say what an implementation promises for one call; the lemmas inside them lift it to
  every sequence of calls. They are interpreted on the locks of the kernel in the theories of those
  locks.
\<close>

section \<open>Mutexes\<close>

datatype mutex_call = Lock | TryLock | Unlock

fun mutex_spec_step :: "mutex_call \<Rightarrow> bool \<Rightarrow> (bool \<times> bool) option" where
  "mutex_spec_step Lock h = (if h then None else Some (True, True))"
| "mutex_spec_step TryLock h = Some (\<not> h, True)"
| "mutex_spec_step Unlock h = (if h then Some (True, False) else None)"

fun mutex_exec ::
  "('s \<Rightarrow> 's option) \<Rightarrow> ('s \<Rightarrow> (bool \<times> 's) option) \<Rightarrow> ('s \<Rightarrow> 's option) \<Rightarrow> mutex_call \<Rightarrow> 's
     \<Rightarrow> (bool \<times> 's) option" where
  "mutex_exec lock try_lock unlock Lock s = map_option (Pair True) (lock s)"
| "mutex_exec lock try_lock unlock TryLock s = try_lock s"
| "mutex_exec lock try_lock unlock Unlock s = map_option (Pair True) (unlock s)"

text \<open>A sequence of calls, with the list of the results.\<close>

primrec run_calls :: "('c \<Rightarrow> 's \<Rightarrow> ('r \<times> 's) option) \<Rightarrow> 'c list \<Rightarrow> 's \<Rightarrow> ('r list \<times> 's) option" where
  "run_calls exec [] s = Some ([], s)"
| "run_calls exec (c # cs) s = do {
     (r, s) \<leftarrow> exec c s;
     (rs, s) \<leftarrow> run_calls exec cs s;
     Some (r # rs, s)
   }"

lemma run_calls_refines:
  assumes step: "\<And>c s r a. ok s \<Longrightarrow> spec c (view s) = Some (r, a) \<Longrightarrow>
      \<exists>s'. exec c s = Some (r, s') \<and> view s' = a \<and> ok s'"
    and "ok s" and "run_calls spec cs (view s) = Some (rs, a)"
  shows "\<exists>s'. run_calls exec cs s = Some (rs, s') \<and> view s' = a \<and> ok s'"
  using assms(2,3)
proof (induction cs arbitrary: s rs)
  case Nil
  then show ?case by auto
next
  case (Cons c cs)
  from Cons.prems(2) obtain r a' rs' where sp: "spec c (view s) = Some (r, a')"
    "run_calls spec cs a' = Some (rs', a)" "rs = r # rs'"
    by (auto split: Option.bind_splits prod.splits)
  from step [OF Cons.prems(1) sp(1)] obtain s1 where
    s1: "exec c s = Some (r, s1)" "view s1 = a'" "ok s1"
    by blast
  from Cons.IH [OF s1(3)] sp(2) s1(2) obtain s' where
    "run_calls exec cs s1 = Some (rs', s')" "view s' = a" "ok s'"
    by blast
  with s1 sp(3) show ?case by auto
qed

locale raw_mutex =
  fixes held :: "'s \<Rightarrow> bool" and ok :: "'s \<Rightarrow> bool"
    and lock :: "'s \<Rightarrow> 's option" and try_lock :: "'s \<Rightarrow> (bool \<times> 's) option"
    and unlock :: "'s \<Rightarrow> 's option"
  assumes try_lock_free: "ok s \<Longrightarrow> \<not> held s \<Longrightarrow> \<exists>s'. try_lock s = Some (True, s') \<and> held s' \<and> ok s'"
    and try_lock_held: "ok s \<Longrightarrow> held s \<Longrightarrow> \<exists>s'. try_lock s = Some (False, s') \<and> held s' \<and> ok s'"
    and lock_free: "ok s \<Longrightarrow> \<not> held s \<Longrightarrow> \<exists>s'. lock s = Some s' \<and> held s' \<and> ok s'"
    and lock_held: "ok s \<Longrightarrow> held s \<Longrightarrow> lock s = None"
    and unlock_held: "ok s \<Longrightarrow> held s \<Longrightarrow> \<exists>s'. unlock s = Some s' \<and> \<not> held s' \<and> ok s'"
begin

lemma exec_refines:
  assumes "ok s" "mutex_spec_step c (held s) = Some (r, h)"
  shows "\<exists>s'. mutex_exec lock try_lock unlock c s = Some (r, s') \<and> held s' = h \<and> ok s'"
proof (cases c)
  case Lock
  then show ?thesis using lock_free assms by (force split: if_splits)
next
  case TryLock
  then show ?thesis using try_lock_free try_lock_held assms by (cases "held s") auto
next
  case Unlock
  then show ?thesis using unlock_held assms by (force split: if_splits)
qed

lemma run_refines:
  assumes "ok s" "run_calls mutex_spec_step cs (held s) = Some (rs, h)"
  shows "\<exists>s'. run_calls (mutex_exec lock try_lock unlock) cs s = Some (rs, s') \<and> held s' = h \<and> ok s'"
  by (rule run_calls_refines [where ok = ok and view = held, OF exec_refines assms])

lemma relock_deadlocks:
  assumes "ok s" "lock s = Some s'" shows "lock s' = None"
  using lock_free [OF assms(1)] lock_held [OF assms(1)] lock_held [of s'] assms(2) by (cases "held s") auto

end

section \<open>Reader-writer locks\<close>

datatype rw_state = Readers nat | Writer

datatype rw_call =
  LockShared | TryLockShared | UnlockShared | LockExclusive | TryLockExclusive | UnlockExclusive

fun rw_spec_step :: "nat \<Rightarrow> rw_call \<Rightarrow> rw_state \<Rightarrow> (bool \<times> rw_state) option" where
  "rw_spec_step limit LockShared (Readers n) = (if n < limit then Some (True, Readers (Suc n)) else None)"
| "rw_spec_step limit LockShared Writer = None"
| "rw_spec_step limit TryLockShared (Readers n) = (if n < limit then Some (True, Readers (Suc n)) else None)"
| "rw_spec_step limit TryLockShared Writer = Some (False, Writer)"
| "rw_spec_step limit UnlockShared (Readers (Suc n)) = Some (True, Readers n)"
| "rw_spec_step limit UnlockShared _ = None"
| "rw_spec_step limit LockExclusive (Readers n) = (if n = 0 then Some (True, Writer) else None)"
| "rw_spec_step limit LockExclusive Writer = None"
| "rw_spec_step limit TryLockExclusive (Readers n) =
     (if n = 0 then Some (True, Writer) else Some (False, Readers n))"
| "rw_spec_step limit TryLockExclusive Writer = Some (False, Writer)"
| "rw_spec_step limit UnlockExclusive Writer = Some (True, Readers 0)"
| "rw_spec_step limit UnlockExclusive (Readers n) = None"

fun rw_exec ::
  "('s \<Rightarrow> 's option) \<Rightarrow> ('s \<Rightarrow> (bool \<times> 's) option) \<Rightarrow> ('s \<Rightarrow> 's option)
     \<Rightarrow> ('s \<Rightarrow> 's option) \<Rightarrow> ('s \<Rightarrow> (bool \<times> 's) option) \<Rightarrow> ('s \<Rightarrow> 's option)
     \<Rightarrow> rw_call \<Rightarrow> 's \<Rightarrow> (bool \<times> 's) option" where
  "rw_exec ls tls us le tle ue LockShared s = map_option (Pair True) (ls s)"
| "rw_exec ls tls us le tle ue TryLockShared s = tls s"
| "rw_exec ls tls us le tle ue UnlockShared s = map_option (Pair True) (us s)"
| "rw_exec ls tls us le tle ue LockExclusive s = map_option (Pair True) (le s)"
| "rw_exec ls tls us le tle ue TryLockExclusive s = tle s"
| "rw_exec ls tls us le tle ue UnlockExclusive s = map_option (Pair True) (ue s)"

locale raw_rwlock =
  fixes limit :: nat and view :: "'s \<Rightarrow> rw_state" and ok :: "'s \<Rightarrow> bool"
    and lock_shared :: "'s \<Rightarrow> 's option" and try_lock_shared :: "'s \<Rightarrow> (bool \<times> 's) option"
    and unlock_shared :: "'s \<Rightarrow> 's option"
    and lock_exclusive :: "'s \<Rightarrow> 's option" and try_lock_exclusive :: "'s \<Rightarrow> (bool \<times> 's) option"
    and unlock_exclusive :: "'s \<Rightarrow> 's option"
  assumes try_lock_shared_ok: "ok s \<Longrightarrow> view s = Readers n \<Longrightarrow> n < limit \<Longrightarrow>
      \<exists>s'. try_lock_shared s = Some (True, s') \<and> view s' = Readers (Suc n) \<and> ok s'"
    and try_lock_shared_busy: "ok s \<Longrightarrow> view s = Writer \<Longrightarrow>
      \<exists>s'. try_lock_shared s = Some (False, s') \<and> view s' = Writer \<and> ok s'"
    and lock_shared_ok: "ok s \<Longrightarrow> view s = Readers n \<Longrightarrow> n < limit \<Longrightarrow>
      \<exists>s'. lock_shared s = Some s' \<and> view s' = Readers (Suc n) \<and> ok s'"
    and lock_shared_busy: "ok s \<Longrightarrow> view s = Writer \<Longrightarrow> lock_shared s = None"
    and unlock_shared_ok: "ok s \<Longrightarrow> view s = Readers (Suc n) \<Longrightarrow>
      \<exists>s'. unlock_shared s = Some s' \<and> view s' = Readers n \<and> ok s'"
    and try_lock_exclusive_ok: "ok s \<Longrightarrow> view s = Readers 0 \<Longrightarrow>
      \<exists>s'. try_lock_exclusive s = Some (True, s') \<and> view s' = Writer \<and> ok s'"
    and try_lock_exclusive_busy: "ok s \<Longrightarrow> view s \<noteq> Readers 0 \<Longrightarrow>
      \<exists>s'. try_lock_exclusive s = Some (False, s') \<and> view s' = view s \<and> ok s'"
    and lock_exclusive_ok: "ok s \<Longrightarrow> view s = Readers 0 \<Longrightarrow>
      \<exists>s'. lock_exclusive s = Some s' \<and> view s' = Writer \<and> ok s'"
    and lock_exclusive_busy: "ok s \<Longrightarrow> view s \<noteq> Readers 0 \<Longrightarrow> lock_exclusive s = None"
    and unlock_exclusive_ok: "ok s \<Longrightarrow> view s = Writer \<Longrightarrow>
      \<exists>s'. unlock_exclusive s = Some s' \<and> view s' = Readers 0 \<and> ok s'"
begin

lemma rw_exec_refines:
  assumes "ok s" "rw_spec_step limit c (view s) = Some (r, a)"
  shows "\<exists>s'. rw_exec lock_shared try_lock_shared unlock_shared lock_exclusive try_lock_exclusive
      unlock_exclusive c s = Some (r, s') \<and> view s' = a \<and> ok s'"
proof (cases c)
  case LockShared
  with assms show ?thesis using lock_shared_ok [OF assms(1)]
    by (cases "view s") (force split: if_splits)+
next
  case TryLockShared
  with assms show ?thesis using try_lock_shared_ok [OF assms(1)] try_lock_shared_busy [OF assms(1)]
    by (cases "view s") (force split: if_splits)+
next
  case UnlockShared
  with assms obtain n where "view s = Readers (Suc n)" "r = True" "a = Readers n"
    by (cases "view s" rule: rw_state.exhaust; cases "case view s of Readers n \<Rightarrow> n | Writer \<Rightarrow> 0") auto
  with UnlockShared show ?thesis using unlock_shared_ok [OF assms(1)] by force
next
  case LockExclusive
  with assms show ?thesis using lock_exclusive_ok [OF assms(1)]
    by (cases "view s") (force split: if_splits)+
next
  case TryLockExclusive
  with assms show ?thesis
    using try_lock_exclusive_ok [OF assms(1)] try_lock_exclusive_busy [OF assms(1)]
    by (cases "view s") (force split: if_splits)+
next
  case UnlockExclusive
  with assms show ?thesis using unlock_exclusive_ok [OF assms(1)]
    by (cases "view s") (force split: if_splits)+
qed

lemma rw_run_refines:
  assumes "ok s" "run_calls (rw_spec_step limit) cs (view s) = Some (rs, a)"
  shows "\<exists>s'. run_calls (rw_exec lock_shared try_lock_shared unlock_shared lock_exclusive
      try_lock_exclusive unlock_exclusive) cs s = Some (rs, s') \<and> view s' = a \<and> ok s'"
  by (rule run_calls_refines [where ok = ok and view = view, OF rw_exec_refines assms])

lemma write_excludes:
  assumes "ok s" "lock_exclusive s = Some s'"
  shows "lock_shared s' = None \<and> lock_exclusive s' = None"
proof -
  from assms lock_exclusive_busy have "view s = Readers 0" by force
  from lock_exclusive_ok [OF assms(1) this] assms(2) have "view s' = Writer" "ok s'" by auto
  then show ?thesis using lock_shared_busy lock_exclusive_busy by simp
qed

end

end
