(* ===== verification/Spin_Locks.thy ===== *)
theory Spin_Locks
  imports Lock_Interfaces
begin

text \<open>
  \<^verbatim>\<open>kernel_lock/src/spin\<close>: the spin mutex \<^verbatim>\<open>RawSpinlock\<close> and the spin reader-writer lock
  \<^verbatim>\<open>RawSpinRwLock\<close>, run without interference. A spin loop is a partial function: its value is
  \<^const>\<open>None\<close> when it spins forever. (The interleaving of several harts is in Spin_Interleaving.)
  The debug check at the start of \<^verbatim>\<open>RawSpinlock::lock\<close> has an empty body and is left out.
\<close>

section \<open>Atomic cells\<close>

text \<open>
  \<^verbatim>\<open>compare_exchange(current, new)\<close> stores \<^verbatim>\<open>new\<close> when the cell holds \<^verbatim>\<open>current\<close>; the result says
  whether it did. \<^verbatim>\<open>fetch_sub\<close> wraps around on underflow.
\<close>

definition compare_exchange :: "'a \<Rightarrow> 'a \<Rightarrow> 'a \<Rightarrow> bool \<times> 'a" where
  "compare_exchange current new v = (if v = current then (True, new) else (False, v))"

section \<open>The spin mutex\<close>

definition NO_HART :: usize where "NO_HART = usize_MAX"

record RawSpinlock =
  locked :: bool
  locker_hartid :: usize

definition spinlock_INIT :: RawSpinlock where
  "spinlock_INIT = \<lparr>locked = False, locker_hartid = NO_HART\<rparr>"

definition spin_try_lock :: "RawSpinlock \<Rightarrow> bool \<times> RawSpinlock" where
  "spin_try_lock self =
     (let (is_ok, v) = compare_exchange False True (locked self) in (is_ok, self\<lparr>locked := v\<rparr>))"

text \<open>
  In a debug build, \<^verbatim>\<open>lock\<close> first compares the number of the hart with \<^verbatim>\<open>locker_hartid\<close> when the lock is taken, and does nothing with the
  result. Nothing ever stores a number there, and the comparison is left out; reading the number needs the trap frame of the hart.
\<close>

partial_function (option) spin_lock :: "RawSpinlock \<Rightarrow> RawSpinlock option" where
  "spin_lock self =
     (if fst (spin_try_lock self) then Some (snd (spin_try_lock self))
      else spin_lock (snd (spin_try_lock self)))"

definition spin_unlock :: "RawSpinlock \<Rightarrow> RawSpinlock" where
  "spin_unlock self = self\<lparr>locked := False\<rparr>"

definition unlock_and_swap :: "RawSpinlock \<Rightarrow> bool \<times> RawSpinlock" where
  "unlock_and_swap self = (locked self, self\<lparr>locked := False\<rparr>)"

section \<open>The spin reader-writer lock\<close>

definition SHARED :: usize where "SHARED = push_bit 1 1"
definition WRITER :: usize where "WRITER = push_bit 0 1"

record RawSpinRwLock =
  rw_value :: usize

definition spin_rwlock_INIT :: RawSpinRwLock where
  "spin_rwlock_INIT = \<lparr>rw_value = 0\<rparr>"

partial_function (option) try_lock_shared_loop ::
    "usize \<Rightarrow> RawSpinRwLock \<Rightarrow> (bool \<times> RawSpinRwLock) option" where
  "try_lock_shared_loop outdated_value self = do {
     new \<leftarrow> checked_add outdated_value SHARED;
     if fst (compare_exchange outdated_value new (rw_value self))
     then Some (True, self\<lparr>rw_value := snd (compare_exchange outdated_value new (rw_value self))\<rparr>)
     else if rw_value self AND WRITER \<noteq> 0 then Some (False, self)
     else try_lock_shared_loop (rw_value self) self
   }"

definition spin_try_lock_shared :: "RawSpinRwLock \<Rightarrow> (bool \<times> RawSpinRwLock) option" where
  "spin_try_lock_shared self =
     (let outdated_value = rw_value self
      in if outdated_value AND WRITER \<noteq> 0 then Some (False, self)
         else try_lock_shared_loop outdated_value self)"

partial_function (option) spin_lock_shared :: "RawSpinRwLock \<Rightarrow> RawSpinRwLock option" where
  "spin_lock_shared self = do {
     r \<leftarrow> spin_try_lock_shared self;
     if fst r then Some (snd r) else spin_lock_shared (snd r)
   }"

definition spin_unlock_shared :: "RawSpinRwLock \<Rightarrow> RawSpinRwLock" where
  "spin_unlock_shared self = self\<lparr>rw_value := rw_value self - SHARED\<rparr>"

partial_function (option) try_lock_exclusive_loop ::
    "usize \<Rightarrow> RawSpinRwLock \<Rightarrow> (bool \<times> RawSpinRwLock) option" where
  "try_lock_exclusive_loop outdated_value self = do {
     new \<leftarrow> checked_add outdated_value WRITER;
     if fst (compare_exchange outdated_value new (rw_value self))
     then Some (True, self\<lparr>rw_value := snd (compare_exchange outdated_value new (rw_value self))\<rparr>)
     else if rw_value self \<noteq> 0 then Some (False, self)
     else try_lock_exclusive_loop (rw_value self) self
   }"

definition spin_try_lock_exclusive :: "RawSpinRwLock \<Rightarrow> (bool \<times> RawSpinRwLock) option" where
  "spin_try_lock_exclusive self =
     (let outdated_value = rw_value self
      in if outdated_value \<noteq> 0 then Some (False, self)
         else try_lock_exclusive_loop outdated_value self)"

partial_function (option) spin_lock_exclusive :: "RawSpinRwLock \<Rightarrow> RawSpinRwLock option" where
  "spin_lock_exclusive self = do {
     r \<leftarrow> spin_try_lock_exclusive self;
     if fst r then Some (snd r) else spin_lock_exclusive (snd r)
   }"

definition spin_unlock_exclusive :: "RawSpinRwLock \<Rightarrow> RawSpinRwLock" where
  "spin_unlock_exclusive self = self\<lparr>rw_value := rw_value self - WRITER\<rparr>"

definition spin_is_locked :: "RawSpinRwLock \<Rightarrow> bool" where
  "spin_is_locked self \<longleftrightarrow> rw_value self \<noteq> 0"

section \<open>The mutex keeps its contract\<close>

lemma spin_try_lock_eq [kernel_step]:
  "spin_try_lock l = (\<not> locked l, l\<lparr>locked := True\<rparr>)"
  by (auto simp: spin_try_lock_def compare_exchange_def)

lemma spin_lock_free [kernel_step]: "\<not> locked l \<Longrightarrow> spin_lock l = Some (l\<lparr>locked := True\<rparr>)"
  by (subst spin_lock.simps) (simp add: spin_try_lock_eq)

lemma spin_lock_returns:
  assumes "spin_lock l = Some l'" shows "\<not> locked l"
proof (rule spin_lock.raw_induct [where P = "\<lambda>l _. \<not> locked l", OF _ assms])
  fix f l l'
  assume "\<And>l l'. f l = Some l' \<Longrightarrow> \<not> locked l"
    and "(if fst (spin_try_lock l) then Some (snd (spin_try_lock l)) else f (snd (spin_try_lock l))) = Some l'"
  then show "\<not> locked l" by (force simp: spin_try_lock_eq split: if_splits)
qed

lemma spin_lock_busy [kernel_step]: "locked l \<Longrightarrow> spin_lock l = None"
  using spin_lock_returns by (cases "spin_lock l") auto

interpretation spin_mutex: raw_mutex locked "\<lambda>_. True" spin_lock "Some \<circ> spin_try_lock" "Some \<circ> spin_unlock"
  by unfold_locales (auto simp: kernel_step spin_unlock_def)

section \<open>The value of a reader-writer lock\<close>

text \<open>
  The value of the cell that stands for an abstract state: twice the number of readers, or one for
  the writer. The reader count may not reach \<open>2 ^ 63 - 1\<close>, the last value whose increment would
  overflow.
\<close>

definition reader_limit :: nat where "reader_limit = 2 ^ 63 - 1"

definition rw_view :: "RawSpinRwLock \<Rightarrow> rw_state" where
  "rw_view self = (if bit (rw_value self) 0 then Writer else Readers (unat (rw_value self) div 2))"

definition rw_ok :: "RawSpinRwLock \<Rightarrow> bool" where
  "rw_ok self \<longleftrightarrow> (bit (rw_value self) 0 \<longrightarrow> rw_value self = 1)"

lemma SHARED_eq [simp]: "SHARED = 2" and WRITER_eq [simp]: "WRITER = 1"
  by (simp_all add: SHARED_def WRITER_def)

lemma and_WRITER [simp]: "(v :: usize) AND 1 = 0 \<longleftrightarrow> \<not> bit v 0"
  using and_exp_eq_0_iff_not_bit [of v 0] by simp

lemma rw_view_Readers: "rw_view l = Readers n \<longleftrightarrow> unat (rw_value l) = 2 * n"
proof -
  have "bit (rw_value l) 0 \<longleftrightarrow> odd (unat (rw_value l))"
    using bit_unsigned_iff [where 'a = nat, of "rw_value l" 0] by (simp add: bit_0)
  then show ?thesis by (auto simp: rw_view_def)
qed

lemma rw_view_Writer: "rw_view l = Writer \<longleftrightarrow> bit (rw_value l) 0"
  by (simp add: rw_view_def)

lemma rw_view_free: "rw_view l = Readers 0 \<longleftrightarrow> rw_value l = 0"
  by (simp add: rw_view_Readers unat_eq_0)

lemma even_value_add_shared:
  assumes "unat v = 2 * n" "n < reader_limit"
  shows "checked_add v 2 = Some (v + 2)" "unat (v + 2 :: usize) = 2 * Suc n"
proof -
  have "unat v + unat (2 :: usize) < 2 ^ 64"
    using assms by (simp add: reader_limit_def)
  then show "checked_add v 2 = Some (v + 2)" "unat (v + 2 :: usize) = 2 * Suc n"
    using unat_add_no_overflow [of v 2] assms(1) by (simp_all add: checked_add_def)
qed

lemma spin_try_lock_shared_ok [kernel_step]:
  assumes "rw_view l = Readers n" "n < reader_limit"
  shows "spin_try_lock_shared l = Some (True, l\<lparr>rw_value := rw_value l + 2\<rparr>)"
    and "rw_view (l\<lparr>rw_value := rw_value l + 2\<rparr>) = Readers (Suc n)"
    and "rw_ok (l\<lparr>rw_value := rw_value l + 2\<rparr>)"
proof -
  have v: "unat (rw_value l) = 2 * n"
    using assms(1) by (simp add: rw_view_Readers)
  note add = even_value_add_shared [OF v assms(2)]
  have "\<not> bit (rw_value l) 0" using assms(1) by (auto simp: rw_view_def split: if_splits)
  then show "spin_try_lock_shared l = Some (True, l\<lparr>rw_value := rw_value l + 2\<rparr>)"
    by (subst spin_try_lock_shared_def, subst try_lock_shared_loop.simps)
      (simp add: add(1) compare_exchange_def)
  show view: "rw_view (l\<lparr>rw_value := rw_value l + 2\<rparr>) = Readers (Suc n)"
    using add(2) by (simp add: rw_view_Readers)
  then show "rw_ok (l\<lparr>rw_value := rw_value l + 2\<rparr>)"
    by (auto simp: rw_ok_def rw_view_def split: if_splits)
qed

lemma spin_try_lock_shared_busy [kernel_step]:
  "rw_view l = Writer \<Longrightarrow> spin_try_lock_shared l = Some (False, l)"
  by (simp add: spin_try_lock_shared_def rw_view_Writer)

lemma spin_lock_shared_ok [kernel_step]:
  "rw_view l = Readers n \<Longrightarrow> n < reader_limit \<Longrightarrow>
   spin_lock_shared l = Some (l\<lparr>rw_value := rw_value l + 2\<rparr>)"
  by (subst spin_lock_shared.simps) (simp add: kernel_step)

lemma spin_lock_shared_returns:
  assumes "spin_lock_shared l = Some l'" shows "rw_view l \<noteq> Writer"
proof (rule spin_lock_shared.raw_induct [where P = "\<lambda>l _. rw_view l \<noteq> Writer", OF _ assms])
  fix f l l'
  assume "\<And>l l'. f l = Some l' \<Longrightarrow> rw_view l \<noteq> Writer"
    and "spin_try_lock_shared l \<bind> (\<lambda>r. if fst r then Some (snd r) else f (snd r)) = Some l'"
  then show "rw_view l \<noteq> Writer" by (cases "rw_view l = Writer") (auto simp: spin_try_lock_shared_busy)
qed

lemma spin_lock_shared_busy [kernel_step]: "rw_view l = Writer \<Longrightarrow> spin_lock_shared l = None"
  using spin_lock_shared_returns by (cases "spin_lock_shared l") auto

lemma spin_try_lock_exclusive_eq [kernel_step]:
  "spin_try_lock_exclusive l =
     Some (rw_view l = Readers 0, if rw_view l = Readers 0 then l\<lparr>rw_value := 1\<rparr> else l)"
proof (cases "rw_value l = 0")
  case True
  have "checked_add 0 1 = Some 1" by (simp add: checked_add_def)
  with True show ?thesis
    by (subst spin_try_lock_exclusive_def, subst try_lock_exclusive_loop.simps)
      (simp add: compare_exchange_def rw_view_free)
qed (simp add: spin_try_lock_exclusive_def rw_view_free)

lemma spin_lock_exclusive_ok [kernel_step]:
  "rw_view l = Readers 0 \<Longrightarrow> spin_lock_exclusive l = Some (l\<lparr>rw_value := 1\<rparr>)"
  by (subst spin_lock_exclusive.simps) (simp add: kernel_step)

lemma spin_lock_exclusive_returns:
  assumes "spin_lock_exclusive l = Some l'" shows "rw_view l = Readers 0"
proof (rule spin_lock_exclusive.raw_induct [where P = "\<lambda>l _. rw_view l = Readers 0", OF _ assms])
  fix f l l'
  assume "\<And>l l'. f l = Some l' \<Longrightarrow> rw_view l = Readers 0"
    and "spin_try_lock_exclusive l \<bind> (\<lambda>r. if fst r then Some (snd r) else f (snd r)) = Some l'"
  then show "rw_view l = Readers 0" by (cases "rw_view l = Readers 0") (auto simp: spin_try_lock_exclusive_eq)
qed

lemma spin_lock_exclusive_busy [kernel_step]: "rw_view l \<noteq> Readers 0 \<Longrightarrow> spin_lock_exclusive l = None"
  using spin_lock_exclusive_returns by (cases "spin_lock_exclusive l") auto

lemma spin_unlock_shared_view:
  assumes "rw_view l = Readers (Suc n)"
  shows "rw_view (spin_unlock_shared l) = Readers n" "rw_ok (spin_unlock_shared l)"
proof -
  have v: "unat (rw_value l) = 2 * Suc n" using assms by (simp add: rw_view_Readers)
  then have "(2 :: usize) \<le> rw_value l" by (simp add: word_le_nat_alt)
  then have "unat (rw_value l - 2) = 2 * n" using v by (simp add: unat_sub)
  then show "rw_view (spin_unlock_shared l) = Readers n"
    by (simp add: rw_view_Readers spin_unlock_shared_def)
  then show "rw_ok (spin_unlock_shared l)"
    by (auto simp: rw_ok_def rw_view_def split: if_splits)
qed

lemma spin_unlock_exclusive_view:
  "rw_ok l \<Longrightarrow> rw_view l = Writer \<Longrightarrow> rw_view (spin_unlock_exclusive l) = Readers 0 \<and> rw_ok (spin_unlock_exclusive l)"
  by (simp add: spin_unlock_exclusive_def rw_view_free rw_view_Writer rw_ok_def)

interpretation spin_rw: raw_rwlock reader_limit rw_view rw_ok
  spin_lock_shared spin_try_lock_shared "Some \<circ> spin_unlock_shared"
  spin_lock_exclusive spin_try_lock_exclusive "Some \<circ> spin_unlock_exclusive"
proof unfold_locales
  show "\<exists>s'. spin_try_lock_exclusive s = Some (True, s') \<and> rw_view s' = Writer \<and> rw_ok s'"
    if "rw_view s = Readers 0" for s
    using that by (simp add: kernel_step rw_view_Writer rw_ok_def)
  show "\<exists>s'. spin_lock_exclusive s = Some s' \<and> rw_view s' = Writer \<and> rw_ok s'"
    if "rw_view s = Readers 0" for s
    using that by (simp add: kernel_step rw_view_Writer rw_ok_def)
qed (simp_all add: kernel_step spin_unlock_shared_view spin_unlock_exclusive_view)

end
