(* ===== verification/Spin_Interleaving.thy ===== *)
theory Spin_Interleaving
  imports Spin_Locks
begin

text \<open>
  The spin locks of \<^verbatim>\<open>kernel_lock/src/spin\<close> used by several clients at once. One atomic access to
  the cell is one step; between two steps of a client any other client may run. A client is in the
  phase that its program counter says: idle, about to load, about to run the compare-and-exchange
  with the value it loaded, or holding the lock. The Boolean of a phase says whether the call is
  blocking (\<^verbatim>\<open>lock_shared\<close>, \<^verbatim>\<open>lock_exclusive\<close>, \<^verbatim>\<open>lock\<close>: a failed attempt starts over) or a single
  attempt (\<^verbatim>\<open>try_lock...\<close>: a failed attempt returns). All accesses are modelled as sequentially
  consistent, which is the ordering the reader-writer lock asks for.
\<close>

section \<open>The mutex\<close>

datatype mutex_phase = MIdle | MTry bool | MHolds

record mutex_system =
  m_cell :: RawSpinlock
  m_clients :: "mutex_phase list"

fun mutex_client_step :: "RawSpinlock \<Rightarrow> mutex_phase \<Rightarrow> RawSpinlock \<times> mutex_phase" where
  "mutex_client_step l MIdle = (l, MIdle)"
| "mutex_client_step l (MTry blocking) =
     (case spin_try_lock l of
        (True, l') \<Rightarrow> (l', MHolds)
      | (False, l') \<Rightarrow> (l', if blocking then MTry blocking else MIdle))"
| "mutex_client_step l MHolds = (spin_unlock l, MIdle)"

inductive mutex_step :: "mutex_system \<Rightarrow> mutex_system \<Rightarrow> bool" where
  m_call: "i < length (m_clients s) \<Longrightarrow> m_clients s ! i = MIdle \<Longrightarrow>
     mutex_step s (s\<lparr>m_clients := (m_clients s)[i := MTry blocking]\<rparr>)"
| m_run: "i < length (m_clients s) \<Longrightarrow> mutex_client_step (m_cell s) (m_clients s ! i) = (l, p) \<Longrightarrow>
     mutex_step s \<lparr>m_cell = l, m_clients = (m_clients s)[i := p]\<rparr>"

definition mutex_start :: "nat \<Rightarrow> mutex_system" where
  "mutex_start n = \<lparr>m_cell = spinlock_INIT, m_clients = replicate n MIdle\<rparr>"

section \<open>The reader-writer lock\<close>

datatype rw_phase =
    Idle
  | SharedLoad bool
  | SharedCas bool usize
  | ExclusiveLoad bool
  | ExclusiveCas bool usize
  | HoldsShared
  | HoldsExclusive

record rw_system =
  rw_cell :: usize
  rw_clients :: "rw_phase list"

text \<open>
  One step of a client that has started a call; \<^const>\<open>None\<close> is the overflow panic of
  \<^verbatim>\<open>outdated_value + SHARED\<close>, which is evaluated before the compare-and-exchange.
\<close>

fun rw_client_step :: "usize \<Rightarrow> rw_phase \<Rightarrow> (usize \<times> rw_phase) option" where
  "rw_client_step v Idle = Some (v, Idle)"
| "rw_client_step v (SharedLoad blocking) =
     Some (v, if v AND WRITER \<noteq> 0 then if blocking then SharedLoad blocking else Idle
              else SharedCas blocking v)"
| "rw_client_step v (SharedCas blocking outdated_value) = do {
     new \<leftarrow> checked_add outdated_value SHARED;
     case compare_exchange outdated_value new v of
       (True, v') \<Rightarrow> Some (v', HoldsShared)
     | (False, v') \<Rightarrow> Some (v', SharedLoad blocking)
   }"
| "rw_client_step v (ExclusiveLoad blocking) =
     Some (v, if v \<noteq> 0 then if blocking then ExclusiveLoad blocking else Idle
              else ExclusiveCas blocking v)"
| "rw_client_step v (ExclusiveCas blocking outdated_value) = do {
     new \<leftarrow> checked_add outdated_value WRITER;
     case compare_exchange outdated_value new v of
       (True, v') \<Rightarrow> Some (v', HoldsExclusive)
     | (False, v') \<Rightarrow> Some (v', ExclusiveLoad blocking)
   }"
| "rw_client_step v HoldsShared = Some (v - SHARED, Idle)"
| "rw_client_step v HoldsExclusive = Some (v - WRITER, Idle)"

fun call_phase :: "rw_call \<Rightarrow> rw_phase option" where
  "call_phase LockShared = Some (SharedLoad True)"
| "call_phase TryLockShared = Some (SharedLoad False)"
| "call_phase LockExclusive = Some (ExclusiveLoad True)"
| "call_phase TryLockExclusive = Some (ExclusiveLoad False)"
| "call_phase _ = None"

inductive rw_step :: "rw_system \<Rightarrow> rw_system \<Rightarrow> bool" where
  rw_call: "i < length (rw_clients s) \<Longrightarrow> rw_clients s ! i = Idle \<Longrightarrow> call_phase c = Some p \<Longrightarrow>
     rw_step s (s\<lparr>rw_clients := (rw_clients s)[i := p]\<rparr>)"
| rw_run: "i < length (rw_clients s) \<Longrightarrow>
     rw_client_step (rw_cell s) (rw_clients s ! i) = Some (v, p) \<Longrightarrow>
     rw_step s \<lparr>rw_cell = v, rw_clients = (rw_clients s)[i := p]\<rparr>"

definition rw_start :: "nat \<Rightarrow> rw_system" where
  "rw_start n = \<lparr>rw_cell = rw_value spin_rwlock_INIT, rw_clients = replicate n Idle\<rparr>"

inductive_cases mutex_stepE: "mutex_step s s'"
inductive_cases rw_stepE: "rw_step s s'"

section \<open>Mutual exclusion of the mutex\<close>

definition mutex_inv :: "nat \<Rightarrow> mutex_system \<Rightarrow> bool" where
  "mutex_inv n s \<longleftrightarrow> length (m_clients s) = n
     \<and> count_if (\<lambda>p. p = MHolds) (m_clients s) = of_bool (locked (m_cell s))"

lemma mutex_inv_start [kernel_inv]: "mutex_inv n (mutex_start n)"
  by (simp add: mutex_inv_def mutex_start_def spinlock_INIT_def)

lemma mutex_inv_step [kernel_inv]:
  assumes "mutex_step s s'" "mutex_inv n s" shows "mutex_inv n s'"
  using assms
proof (induction rule: mutex_step.induct)
  case (m_call i s blocking)
  with count_if_update [of i "m_clients s" "\<lambda>p. p = MHolds" "MTry blocking"] show ?case
    by (simp add: mutex_inv_def)
next
  case (m_run i s l p)
  note upd = count_if_update [OF m_run(1), of "\<lambda>p. p = MHolds" p]
  show ?case
  proof (cases "m_clients s ! i")
    case MIdle
    with m_run upd show ?thesis by (auto simp: mutex_inv_def)
  next
    case (MTry b)
    with m_run upd show ?thesis
      by (cases "locked (m_cell s)") (auto simp: mutex_inv_def spin_try_lock_eq split: if_splits)
  next
    case MHolds
    with m_run upd show ?thesis
      by (cases "locked (m_cell s)") (auto simp: mutex_inv_def spin_unlock_def)
  qed
qed

lemma mutex_inv_reachable: "mutex_step\<^sup>*\<^sup>* (mutex_start n) s \<Longrightarrow> mutex_inv n s"
  by (induction rule: rtranclp_induct) (auto intro: kernel_inv)

section \<open>The invariant of the reader-writer lock\<close>

abbreviation readers :: "rw_system \<Rightarrow> nat" where
  "readers s \<equiv> count_if (\<lambda>p. p = HoldsShared) (rw_clients s)"

abbreviation writers :: "rw_system \<Rightarrow> nat" where
  "writers s \<equiv> count_if (\<lambda>p. p = HoldsExclusive) (rw_clients s)"

text \<open>A value that a client still has from an earlier load was even and not above twice the clients.\<close>

fun phase_ok :: "nat \<Rightarrow> rw_phase \<Rightarrow> bool" where
  "phase_ok n (SharedCas _ out) \<longleftrightarrow> \<not> bit out 0 \<and> unat out \<le> 2 * n"
| "phase_ok n (ExclusiveCas _ out) \<longleftrightarrow> out = 0"
| "phase_ok n _ \<longleftrightarrow> True"

definition rw_inv :: "nat \<Rightarrow> rw_system \<Rightarrow> bool" where
  "rw_inv n s \<longleftrightarrow> length (rw_clients s) = n
     \<and> unat (rw_cell s) = 2 * readers s + writers s
     \<and> (writers s = 0 \<or> writers s = 1 \<and> readers s = 0)
     \<and> (\<forall>p\<in>set (rw_clients s). phase_ok n p)"

lemma rw_inv_start [kernel_inv]: "rw_inv n (rw_start n)"
  by (simp add: rw_inv_def rw_start_def spin_rwlock_INIT_def)

lemma bit0_odd: "bit (v :: usize) 0 \<longleftrightarrow> odd (unat v)"
  using bit_unsigned_iff [where 'a = nat, of v 0] by (simp add: bit_0)

lemma rw_inv_bit: "rw_inv n s \<Longrightarrow> bit (rw_cell s) 0 \<longleftrightarrow> writers s = 1"
  by (auto simp: rw_inv_def bit0_odd)

lemma rw_inv_zero: "rw_inv n s \<Longrightarrow> rw_cell s = 0 \<longleftrightarrow> readers s = 0 \<and> writers s = 0"
  by (auto simp: rw_inv_def unat_eq_0 [symmetric])

lemma rw_inv_value_le: "rw_inv n s \<Longrightarrow> unat (rw_cell s) \<le> 2 * n + 1"
  using count_if_le_length [of "\<lambda>p. p = HoldsShared" "rw_clients s"] by (auto simp: rw_inv_def)

text \<open>
  The phases a step leads to, one lemma per phase. In each the clients' counts change as
  \<open>count_if_update\<close> says.
\<close>

lemma rw_inv_update:
  assumes inv: "rw_inv n s" and i: "i < length (rw_clients s)"
    and v: "unat v = 2 * r + w" and w: "w = 0 \<or> w = 1 \<and> r = 0"
    and r: "r + of_bool (rw_clients s ! i = HoldsShared) = readers s + of_bool (p = HoldsShared)"
    and wr: "w + of_bool (rw_clients s ! i = HoldsExclusive) = writers s + of_bool (p = HoldsExclusive)"
    and p: "phase_ok n p"
  shows "rw_inv n \<lparr>rw_cell = v, rw_clients = (rw_clients s)[i := p]\<rparr>"
proof -
  let ?s = "\<lparr>rw_cell = v, rw_clients = (rw_clients s)[i := p]\<rparr>"
  have "readers ?s = r" "writers ?s = w"
    using count_if_update [OF i, of "\<lambda>p. p = HoldsShared" p]
      count_if_update [OF i, of "\<lambda>p. p = HoldsExclusive" p] r wr by simp_all
  then show ?thesis
    using inv v w update_ball [of "rw_clients s" "phase_ok n", OF _ p] by (auto simp: rw_inv_def)
qed

lemma rw_inv_call:
  assumes "rw_inv n s" "i < length (rw_clients s)" "rw_clients s ! i = Idle" "call_phase c = Some p"
  shows "rw_inv n (s\<lparr>rw_clients := (rw_clients s)[i := p]\<rparr>)"
proof -
  have p: "p \<noteq> HoldsShared" "p \<noteq> HoldsExclusive" "phase_ok n p"
    using assms(4) by (cases c; auto)+
  have "rw_inv n \<lparr>rw_cell = rw_cell s, rw_clients = (rw_clients s)[i := p]\<rparr>"
    by (rule rw_inv_update [OF assms(1,2), where r = "readers s" and w = "writers s"])
      (use assms p in \<open>auto simp: rw_inv_def\<close>)
  then show ?thesis by (cases s) simp
qed

lemma holder_counts:
  assumes "i < length (rw_clients s)"
  shows "rw_clients s ! i = HoldsShared \<Longrightarrow> 0 < readers s"
    and "rw_clients s ! i = HoldsExclusive \<Longrightarrow> 0 < writers s"
  using count_if_pos [OF assms] by simp_all

lemma rw_inv_run:
  assumes inv: "rw_inv n s" and i: "i < length (rw_clients s)" and n: "n < reader_limit"
    and step: "rw_client_step (rw_cell s) (rw_clients s ! i) = Some (v, p)"
  shows "rw_inv n \<lparr>rw_cell = v, rw_clients = (rw_clients s)[i := p]\<rparr>"
proof (cases "rw_clients s ! i")
  case Idle
  with inv step show ?thesis
    by (intro rw_inv_update [OF inv i, where r = "readers s" and w = "writers s"]) (auto simp: rw_inv_def)
next
  case (SharedLoad b)
  have "unat (rw_cell s) \<le> 2 * n" if "\<not> bit (rw_cell s) 0"
    using that rw_inv_value_le [OF inv] by (cases "unat (rw_cell s) = 2 * n + 1") (auto simp: bit0_odd)
  with step [unfolded SharedLoad]
  have "v = rw_cell s" "phase_ok n p" "p \<noteq> HoldsShared" "p \<noteq> HoldsExclusive"
    by (auto split: if_splits)
  with SharedLoad inv show ?thesis
    by (intro rw_inv_update [OF inv i, where r = "readers s" and w = "writers s"])
      (auto simp: rw_inv_def split: if_splits)
next
  case (SharedCas b out)
  from inv i SharedCas have out: "\<not> bit out 0" "unat out \<le> 2 * n"
    by (auto simp: rw_inv_def dest!: nth_mem)
  show ?thesis
  proof (cases "rw_cell s = out")
    case True
    then have w: "writers s = 0" using out rw_inv_bit [OF inv] inv by (auto simp: rw_inv_def)
    then have "unat (rw_cell s) = 2 * readers s" using inv by (simp add: rw_inv_def)
    moreover have "readers s < reader_limit"
      using n inv count_if_le_length [of "\<lambda>p. p = HoldsShared" "rw_clients s"] by (auto simp: rw_inv_def)
    ultimately have "unat (rw_cell s + 2) = 2 * Suc (readers s)" "checked_add out 2 = Some (out + 2)"
      using even_value_add_shared [of "rw_cell s" "readers s"] True by auto
    with True SharedCas step w show ?thesis
      by (intro rw_inv_update [OF inv i, where r = "Suc (readers s)" and w = 0])
        (auto simp: compare_exchange_def)
  next
    case False
    with SharedCas step inv show ?thesis
      by (intro rw_inv_update [OF inv i, where r = "readers s" and w = "writers s"])
        (auto simp: compare_exchange_def rw_inv_def split: Option.bind_splits)
  qed
next
  case (ExclusiveLoad b)
  from step [unfolded ExclusiveLoad]
  have "v = rw_cell s" "phase_ok n p" "p \<noteq> HoldsShared" "p \<noteq> HoldsExclusive"
    by (auto split: if_splits)
  with ExclusiveLoad inv show ?thesis
    by (intro rw_inv_update [OF inv i, where r = "readers s" and w = "writers s"])
      (auto simp: rw_inv_def split: if_splits)
next
  case (ExclusiveCas b out)
  from inv i ExclusiveCas have out: "out = 0"
    by (auto simp: rw_inv_def dest!: nth_mem)
  show ?thesis
  proof (cases "rw_cell s = 0")
    case True
    then have "readers s = 0" "writers s = 0" using rw_inv_zero [OF inv] by auto
    with True out ExclusiveCas step show ?thesis
      by (intro rw_inv_update [OF inv i, where r = 0 and w = 1])
        (auto simp: compare_exchange_def checked_add_def)
  next
    case False
    with ExclusiveCas out step inv show ?thesis
      by (intro rw_inv_update [OF inv i, where r = "readers s" and w = "writers s"])
        (auto simp: compare_exchange_def rw_inv_def split: Option.bind_splits)
  qed
next
  case HoldsShared
  then have r: "0 < readers s" using holder_counts [OF i] by simp
  with inv have "unat (rw_cell s) = 2 * readers s" "writers s = 0" by (auto simp: rw_inv_def)
  moreover from this r have "unat (rw_cell s - 2) = 2 * (readers s - 1)"
    by (subst unat_sub) (auto simp: word_le_nat_alt)
  ultimately show ?thesis using HoldsShared step r
    by (intro rw_inv_update [OF inv i, where r = "readers s - 1" and w = 0]) auto
next
  case HoldsExclusive
  then have "writers s = 1" "readers s = 0" "unat (rw_cell s) = 1"
    using holder_counts [OF i] inv by (auto simp: rw_inv_def)
  with HoldsExclusive step show ?thesis
    by (intro rw_inv_update [OF inv i, where r = 0 and w = 0]) (auto simp: unat_sub word_le_nat_alt)
qed

lemma rw_inv_step [kernel_inv]:
  "rw_step s s' \<Longrightarrow> n < reader_limit \<Longrightarrow> rw_inv n s \<Longrightarrow> rw_inv n s'"
  by (erule rw_stepE) (auto intro: rw_inv_run rw_inv_call)

lemma rw_inv_reachable:
  "rw_step\<^sup>*\<^sup>* (rw_start n) s \<Longrightarrow> n < reader_limit \<Longrightarrow> rw_inv n s"
  by (induction rule: rtranclp_induct) (auto intro: kernel_inv)

section \<open>A client that runs alone\<close>

primrec solo :: "nat \<Rightarrow> nat \<Rightarrow> rw_system \<Rightarrow> rw_system option" where
  "solo i 0 s = Some s"
| "solo i (Suc k) s = do {
     (v, p) \<leftarrow> rw_client_step (rw_cell s) (rw_clients s ! i);
     solo i k \<lparr>rw_cell = v, rw_clients = (rw_clients s)[i := p]\<rparr>
   }"

definition acquiring_shared :: "rw_phase \<Rightarrow> bool" where
  "acquiring_shared p \<longleftrightarrow> (\<exists>b out. p = SharedLoad b \<or> p = SharedCas b out)"

definition acquiring_exclusive :: "rw_phase \<Rightarrow> bool" where
  "acquiring_exclusive p \<longleftrightarrow> (\<exists>b out. p = ExclusiveLoad b \<or> p = ExclusiveCas b out)"

lemma rw_inv_shared_add:
  assumes "rw_inv n s" "n < reader_limit" "writers s = 0"
  shows "checked_add (rw_cell s) 2 = Some (rw_cell s + 2)"
proof -
  have "unat (rw_cell s) = 2 * readers s" "readers s < reader_limit"
    using assms count_if_le_length [of "\<lambda>p. p = HoldsShared" "rw_clients s"] by (auto simp: rw_inv_def)
  then show ?thesis by (rule even_value_add_shared)
qed

lemma rw_inv_no_panic:
  assumes "rw_inv n s" "n < reader_limit" "i < length (rw_clients s)"
  shows "rw_client_step (rw_cell s) (rw_clients s ! i) \<noteq> None"
proof (cases "rw_clients s ! i")
  case (SharedCas b out)
  with assms have "unat out \<le> 2 * n"
    by (auto simp: rw_inv_def dest!: nth_mem)
  with assms(2) have "checked_add out 2 \<noteq> None"
    by (simp add: checked_add_def reader_limit_def)
  with SharedCas show ?thesis by (auto simp: compare_exchange_def)
next
  case (ExclusiveCas b out)
  with assms have "out = 0" by (auto simp: rw_inv_def dest!: nth_mem)
  with ExclusiveCas show ?thesis by (auto simp: compare_exchange_def checked_add_def)
qed simp_all

lemma solo_shared:
  assumes inv: "rw_inv n s" and n: "n < reader_limit" and i: "i < length (rw_clients s)"
    and w: "writers s = 0" and a: "acquiring_shared (rw_clients s ! i)"
  shows "\<exists>k\<le>3. \<exists>s'. solo i k s = Some s' \<and> rw_clients s' ! i = HoldsShared"
proof -
  note add = rw_inv_shared_add [OF inv n w]
  have nb: "\<not> bit (rw_cell s) 0" using rw_inv_bit [OF inv] w by simp
  from a consider b where "rw_clients s ! i = SharedLoad b"
    | b where "rw_clients s ! i = SharedCas b (rw_cell s)"
    | b out where "rw_clients s ! i = SharedCas b out" "out \<noteq> rw_cell s"
    by (auto simp: acquiring_shared_def)
  then show ?thesis
  proof cases
    case 1
    then have "\<exists>s'. solo i 2 s = Some s' \<and> rw_clients s' ! i = HoldsShared"
      using i add nb by (auto simp: numeral_2_eq_2 compare_exchange_def)
    then show ?thesis by (intro exI [of _ 2]) simp
  next
    case 2
    then have "\<exists>s'. solo i 1 s = Some s' \<and> rw_clients s' ! i = HoldsShared"
      using i add by (auto simp: compare_exchange_def)
    then show ?thesis by (intro exI [of _ 1]) simp
  next
    case 3
    from rw_inv_no_panic [OF inv n i] 3 obtain c where "checked_add out 2 = Some c"
      by (cases "checked_add out 2") auto
    with 3 have "\<exists>s'. solo i 3 s = Some s' \<and> rw_clients s' ! i = HoldsShared"
      using i add nb by (auto simp: numeral_3_eq_3 compare_exchange_def)
    then show ?thesis by (intro exI [of _ 3]) simp
  qed
qed

lemma solo_exclusive:
  assumes inv: "rw_inv n s" and i: "i < length (rw_clients s)"
    and w: "writers s = 0" "readers s = 0" and a: "acquiring_exclusive (rw_clients s ! i)"
  shows "\<exists>k\<le>3. \<exists>s'. solo i k s = Some s' \<and> rw_clients s' ! i = HoldsExclusive"
proof -
  have z: "rw_cell s = 0" using rw_inv_zero [OF inv] w by simp
  have one: "checked_add 0 1 = Some 1" by (simp add: checked_add_def)
  from a inv i consider b where "rw_clients s ! i = ExclusiveLoad b"
    | b where "rw_clients s ! i = ExclusiveCas b 0"
    by (auto simp: acquiring_exclusive_def rw_inv_def dest!: nth_mem)
  then show ?thesis
  proof cases
    case 1
    then have "\<exists>s'. solo i 2 s = Some s' \<and> rw_clients s' ! i = HoldsExclusive"
      using i z one by (auto simp: numeral_2_eq_2 compare_exchange_def)
    then show ?thesis by (intro exI [of _ 2]) simp
  next
    case 2
    then have "\<exists>s'. solo i 1 s = Some s' \<and> rw_clients s' ! i = HoldsExclusive"
      using i z one by (auto simp: compare_exchange_def)
    then show ?thesis by (intro exI [of _ 1]) simp
  qed
qed

end
