(* ===== verification/Spin_Properties.thy ===== *)
theory Spin_Properties
  imports Spin_Interleaving
begin

text \<open>
  The properties of the spin locks: mutual exclusion and absence of overflow in every reachable
  state of any number of clients, progress of a client that runs alone, simulation of the abstract
  reader-writer lock, and the refinement of the sequential contract.
\<close>

section \<open>The reader-writer lock under interleaving\<close>

text \<open>A state with a writer and a waiting reader, reached from the start.\<close>

lemma demo_rw_reachable:
  "rw_step\<^sup>*\<^sup>* (rw_start 2) \<lparr>rw_cell = 1, rw_clients = [HoldsExclusive, SharedLoad True]\<rparr>"
proof -
  let ?s = "\<lambda>v ps. \<lparr>rw_cell = v, rw_clients = ps\<rparr>"
  have start: "rw_start 2 = ?s 0 [Idle, Idle]"
    by (simp add: rw_start_def spin_rwlock_INIT_def numeral_2_eq_2)
  have "rw_step (?s 0 [Idle, Idle]) (?s 0 [ExclusiveLoad True, Idle])"
    using rw_call [of 0 "?s 0 [Idle, Idle]" LockExclusive] by simp
  moreover have "rw_step (?s 0 [ExclusiveLoad True, Idle]) (?s 0 [ExclusiveCas True 0, Idle])"
    using rw_run [of 0 "?s 0 [ExclusiveLoad True, Idle]"] by simp
  moreover have "rw_step (?s 0 [ExclusiveCas True 0, Idle]) (?s 1 [HoldsExclusive, Idle])"
    using rw_run [of 0 "?s 0 [ExclusiveCas True 0, Idle]"]
    by (simp add: checked_add_def compare_exchange_def)
  moreover have "rw_step (?s 1 [HoldsExclusive, Idle]) (?s 1 [HoldsExclusive, SharedLoad True])"
    using rw_call [of 1 "?s 1 [HoldsExclusive, Idle]" LockShared] by simp
  ultimately show ?thesis unfolding start by (meson rtranclp.intros converse_rtranclp_into_rtranclp)
qed

text \<open>
  C9. In every state that any interleaving of \<open>n\<close> clients reaches, the cell holds twice the number
  of readers plus the number of writers; a client that holds the lock exclusively holds it alone;
  and no client is about to overflow the reader count.
\<close>

theorem rwlock_mutual_exclusion:
  assumes "rw_step\<^sup>*\<^sup>* (rw_start n) s" and "n < reader_limit"
  shows "unat (rw_cell s) = 2 * readers s + writers s
    \<and> (\<forall>i<n. \<forall>j<n. i \<noteq> j \<longrightarrow> rw_clients s ! i = HoldsExclusive \<longrightarrow>
         rw_clients s ! j \<noteq> HoldsExclusive \<and> rw_clients s ! j \<noteq> HoldsShared)
    \<and> (\<forall>i<n. rw_client_step (rw_cell s) (rw_clients s ! i) \<noteq> None)"
proof -
  note inv = rw_inv_reachable [OF assms]
  then have len: "length (rw_clients s) = n" and excl: "writers s = 0 \<or> writers s = 1 \<and> readers s = 0"
    and val: "unat (rw_cell s) = 2 * readers s + writers s"
    by (simp_all add: rw_inv_def)
  have "rw_clients s ! j \<noteq> HoldsExclusive \<and> rw_clients s ! j \<noteq> HoldsShared"
    if "i < n" "j < n" "i \<noteq> j" "rw_clients s ! i = HoldsExclusive" for i j
    using that excl len holder_counts [of i s] holder_counts [of j s]
      count_if_two [of i "rw_clients s" j "\<lambda>p. p = HoldsExclusive"] by auto
  with val rw_inv_no_panic [OF inv assms(2)] len show ?thesis by blast
qed

theorem rwlock_mutual_exclusion_witness:
  "(let s = \<lparr>rw_cell = 1, rw_clients = [HoldsExclusive, SharedLoad True]\<rparr>
    in unat (rw_cell s) = 2 * readers s + writers s \<and> writers s = 1 \<and> readers s = 0)"
  using rwlock_mutual_exclusion [OF demo_rw_reachable] by (simp add: reader_limit_def)

text \<open>
  C15. A client in the middle of acquiring the lock obtains it after at most three of its own steps
  once nobody holds it against the client and the others pause: a reader needs that there is no
  writer, a writer that there are no holders at all. This is so from every reachable state, also
  when the value the client loaded is out of date.
\<close>

theorem rwlock_progress:
  assumes "rw_step\<^sup>*\<^sup>* (rw_start n) s" and "n < reader_limit" and "i < n" and "writers s = 0"
  shows "(acquiring_shared (rw_clients s ! i) \<longrightarrow>
      (\<exists>k\<le>3. \<exists>s'. solo i k s = Some s' \<and> rw_clients s' ! i = HoldsShared))
    \<and> (acquiring_exclusive (rw_clients s ! i) \<longrightarrow> readers s = 0 \<longrightarrow>
      (\<exists>k\<le>3. \<exists>s'. solo i k s = Some s' \<and> rw_clients s' ! i = HoldsExclusive))"
proof -
  note inv = rw_inv_reachable [OF assms(1,2)]
  then have i: "i < length (rw_clients s)" using assms(3) by (simp add: rw_inv_def)
  show ?thesis
    using solo_shared [OF inv assms(2) i assms(4)] solo_exclusive [OF inv i assms(4)] by blast
qed

theorem rwlock_progress_witness:
  "\<exists>k\<le>3. \<exists>s'. solo 0 k \<lparr>rw_cell = 0, rw_clients = [SharedLoad True]\<rparr> = Some s'
     \<and> rw_clients s' ! 0 = HoldsShared"
proof -
  have "rw_step (rw_start 1) \<lparr>rw_cell = 0, rw_clients = [SharedLoad True]\<rparr>"
    using rw_call [of 0 "rw_start 1" LockShared] by (simp add: rw_start_def spin_rwlock_INIT_def)
  then have "rw_step\<^sup>*\<^sup>* (rw_start 1) \<lparr>rw_cell = 0, rw_clients = [SharedLoad True]\<rparr>" by blast
  moreover have "acquiring_shared (SharedLoad True)"
    by (auto simp: acquiring_shared_def)
  ultimately show ?thesis
    using rwlock_progress [of 1 "\<lparr>rw_cell = 0, rw_clients = [SharedLoad True]\<rparr>" 0]
    by (simp add: reader_limit_def)
qed

section \<open>Simulation of the abstract lock\<close>

definition system_view :: "rw_system \<Rightarrow> rw_state" where
  "system_view s = (if writers s = 0 then Readers (readers s) else Writer)"

lemma counts_after_update:
  assumes "i < length (rw_clients s)"
  shows "readers \<lparr>rw_cell = v, rw_clients = (rw_clients s)[i := p]\<rparr> + of_bool (rw_clients s ! i = HoldsShared)
      = readers s + of_bool (p = HoldsShared)"
    and "writers \<lparr>rw_cell = v, rw_clients = (rw_clients s)[i := p]\<rparr> + of_bool (rw_clients s ! i = HoldsExclusive)
      = writers s + of_bool (p = HoldsExclusive)"
  using count_if_update [OF assms, of "\<lambda>p. p = HoldsShared" p]
    count_if_update [OF assms, of "\<lambda>p. p = HoldsExclusive" p] by simp_all

lemma run_simulates:
  assumes inv: "rw_inv n s" and n: "n < reader_limit" and i: "i < length (rw_clients s)"
    and step: "rw_client_step (rw_cell s) (rw_clients s ! i) = Some (v, p)"
    and s': "s' = \<lparr>rw_cell = v, rw_clients = (rw_clients s)[i := p]\<rparr>"
  shows "system_view s' = system_view s \<or>
    (\<exists>c. rw_spec_step reader_limit c (system_view s) = Some (True, system_view s'))"
proof -
  note cnt = counts_after_update [OF i, of v p, folded s']
  have lim: "readers s < reader_limit"
    using inv n count_if_le_length [of "\<lambda>p. p = HoldsShared" "rw_clients s"] by (auto simp: rw_inv_def)
  have excl: "writers s = 0 \<or> writers s = 1 \<and> readers s = 0" using inv by (simp add: rw_inv_def)
  obtain q where q: "rw_clients s ! i = q" by blast
  consider "rw_clients s ! i \<noteq> HoldsShared" "rw_clients s ! i \<noteq> HoldsExclusive"
      "p \<noteq> HoldsShared" "p \<noteq> HoldsExclusive"
    | "rw_clients s ! i = HoldsShared" | "rw_clients s ! i = HoldsExclusive"
    | b out where "rw_clients s ! i = SharedCas b out" "p = HoldsShared" "rw_cell s = out"
    | b out where "rw_clients s ! i = ExclusiveCas b out" "p = HoldsExclusive" "rw_cell s = out"
    using step [unfolded q] q by (cases q)
      (fastforce simp: compare_exchange_def split: if_splits Option.bind_splits)+
  then show ?thesis
  proof cases
    case 1
    then show ?thesis using cnt by (simp add: system_view_def)
  next
    case 2
    then have "readers s' + 1 = readers s" "writers s' = 0" "writers s = 0"
      using cnt step excl holder_counts [OF i] by auto
    then show ?thesis
      by (intro disjI2 exI [of _ UnlockShared])
        (metis Suc_eq_plus1 rw_spec_step.simps(5) system_view_def)
  next
    case 3
    then have "writers s' = 0" "readers s' = 0" "writers s = 1"
      using cnt step excl holder_counts [OF i] by auto
    then show ?thesis by (intro disjI2 exI [of _ UnlockExclusive]) (simp add: system_view_def)
  next
    case 4
    have "\<not> bit out 0" using inv i 4 by (auto simp: rw_inv_def dest!: nth_mem)
    then have "writers s = 0" using rw_inv_bit [OF inv] 4 excl by auto
    with 4 cnt have "readers s' = Suc (readers s)" "writers s' = 0" by auto
    with \<open>writers s = 0\<close> lim show ?thesis
      by (intro disjI2 exI [of _ TryLockShared]) (simp add: system_view_def)
  next
    case 5
    have "out = 0" using inv i 5 by (auto simp: rw_inv_def dest!: nth_mem)
    then have "writers s = 0" "readers s = 0" using rw_inv_zero [OF inv] 5 by auto
    with 5 cnt show ?thesis
      by (intro disjI2 exI [of _ TryLockExclusive]) (auto simp: system_view_def)
  qed
qed

text \<open>
  C12. Every step of the interleaved system is invisible to the abstract reader-writer lock (number
  of readers, or a writer) or is one successful call of it: the atomic accesses refine the contract
  of the lock.
\<close>

theorem rwlock_simulation:
  assumes "rw_step\<^sup>*\<^sup>* (rw_start n) s" and "n < reader_limit" and "rw_step s s'"
  shows "system_view (rw_start n) = Readers 0
    \<and> (system_view s' = system_view s \<or>
       (\<exists>c. rw_spec_step reader_limit c (system_view s) = Some (True, system_view s')))"
proof
  show "system_view (rw_start n) = Readers 0"
    by (simp add: system_view_def rw_start_def)
  note inv = rw_inv_reachable [OF assms(1,2)]
  from assms(3) show "system_view s' = system_view s \<or>
      (\<exists>c. rw_spec_step reader_limit c (system_view s) = Some (True, system_view s'))"
  proof (cases rule: rw_step.cases)
    case (rw_call i c p)
    then have "p \<noteq> HoldsShared" "p \<noteq> HoldsExclusive" by (cases c; auto)+
    with rw_call counts_after_update [OF rw_call(2), of 0 p] show ?thesis
      by (simp add: system_view_def)
  next
    case (rw_run i v p)
    then show ?thesis by (intro run_simulates [OF inv assms(2)]) auto
  qed
qed

theorem rwlock_simulation_witness:
  "rw_step (rw_start 1) \<lparr>rw_cell = 0, rw_clients = [SharedLoad True]\<rparr>
    \<and> system_view \<lparr>rw_cell = 0, rw_clients = [SharedLoad True]\<rparr> = Readers 0"
proof -
  have step: "rw_step (rw_start 1) \<lparr>rw_cell = 0, rw_clients = [SharedLoad True]\<rparr>"
    using rw_call [of 0 "rw_start 1" LockShared] by (simp add: rw_start_def spin_rwlock_INIT_def)
  with rwlock_simulation [OF rtranclp.rtrancl_refl _ step] show ?thesis
    by (simp add: reader_limit_def system_view_def)
qed

section \<open>Sequential contracts\<close>

text \<open>
  Every sequence of calls that the contract of a reader-writer lock allows gives on the spin
  lock the results the contract says and ends in the state it says.
\<close>

theorem spin_rwlock_refines_contract:
  assumes "rw_ok l" and "run_calls (rw_spec_step reader_limit) cs (rw_view l) = Some (rs, a)"
  shows "\<exists>l'. run_calls (rw_exec spin_lock_shared spin_try_lock_shared (Some \<circ> spin_unlock_shared)
      spin_lock_exclusive spin_try_lock_exclusive (Some \<circ> spin_unlock_exclusive)) cs l = Some (rs, l')
    \<and> rw_view l' = a \<and> rw_ok l'"
  using assms by (rule spin_rw.rw_run_refines)

theorem spin_rwlock_refines_contract_witness:
  "\<exists>l'. run_calls (rw_exec spin_lock_shared spin_try_lock_shared (Some \<circ> spin_unlock_shared)
      spin_lock_exclusive spin_try_lock_exclusive (Some \<circ> spin_unlock_exclusive))
      [LockShared, LockShared, TryLockExclusive, UnlockShared, UnlockShared, LockExclusive, TryLockShared]
      spin_rwlock_INIT = Some ([True, True, False, True, True, True, False], l')
    \<and> rw_view l' = Writer"
proof -
  have "rw_ok spin_rwlock_INIT" "rw_view spin_rwlock_INIT = Readers 0"
    by (simp_all add: rw_ok_def rw_view_def spin_rwlock_INIT_def)
  moreover have "run_calls (rw_spec_step reader_limit)
      [LockShared, LockShared, TryLockExclusive, UnlockShared, UnlockShared, LockExclusive, TryLockShared]
      (Readers 0) = Some ([True, True, False, True, True, True, False], Writer)"
    by (simp add: reader_limit_def)
  ultimately show ?thesis
    using spin_rwlock_refines_contract [of spin_rwlock_INIT
        "[LockShared, LockShared, TryLockExclusive, UnlockShared, UnlockShared, LockExclusive, TryLockShared]"
        "[True, True, False, True, True, True, False]" Writer]
    by metis
qed

text \<open>
  C21. In every reachable state of any number of clients of the spin mutex the flag is set exactly
  when some client holds the mutex, and no two clients hold it.
\<close>

theorem spin_mutex_exclusion:
  assumes "mutex_step\<^sup>*\<^sup>* (mutex_start n) s"
  shows "(locked (m_cell s) \<longleftrightarrow> MHolds \<in> set (m_clients s))
    \<and> (\<forall>i<n. \<forall>j<n. m_clients s ! i = MHolds \<longrightarrow> m_clients s ! j = MHolds \<longrightarrow> i = j)"
proof -
  from mutex_inv_reachable [OF assms] have len: "length (m_clients s) = n"
    and cnt: "count_if (\<lambda>p. p = MHolds) (m_clients s) = of_bool (locked (m_cell s))"
    by (simp_all add: mutex_inv_def)
  have "i = j" if "i < n" "j < n" "m_clients s ! i = MHolds" "m_clients s ! j = MHolds" for i j
    using that len cnt count_if_two [of i "m_clients s" j "\<lambda>p. p = MHolds"]
    by (cases "locked (m_cell s)") auto
  moreover have "locked (m_cell s) \<longleftrightarrow> MHolds \<in> set (m_clients s)"
    using cnt count_if_zero [of "\<lambda>p. p = MHolds" "m_clients s"] by (cases "locked (m_cell s)") auto
  ultimately show ?thesis by blast
qed

theorem spin_mutex_exclusion_witness:
  "\<exists>s. mutex_step\<^sup>*\<^sup>* (mutex_start 2) s \<and> m_clients s ! 0 = MHolds \<and> locked (m_cell s) \<and> m_clients s ! 1 \<noteq> MHolds"
proof -
  let ?s = "\<lambda>b ps. \<lparr>m_cell = \<lparr>locked = b, locker_hartid = NO_HART\<rparr>, m_clients = ps\<rparr>"
  have start: "mutex_start 2 = ?s False [MIdle, MIdle]"
    by (simp add: mutex_start_def spinlock_INIT_def numeral_2_eq_2)
  have "mutex_step (mutex_start 2) (?s False [MTry True, MIdle])"
    using m_call [of 0 "mutex_start 2" True] by (simp add: start)
  moreover have "mutex_step (?s False [MTry True, MIdle]) (?s True [MHolds, MIdle])"
    using m_run [of 0 "?s False [MTry True, MIdle]"] by (simp add: spin_try_lock_eq)
  ultimately have r: "mutex_step\<^sup>*\<^sup>* (mutex_start 2) (?s True [MHolds, MIdle])"
    by (meson rtranclp.intros)
  have "m_clients (?s True [MHolds, MIdle]) ! 0 = MHolds" by simp
  with spin_mutex_exclusion [OF r] r show ?thesis by (intro exI [of _ "?s True [MHolds, MIdle]"]) auto
qed

end
