(* ===== verification/Cpu.thy ===== *)
theory Cpu
  imports Kernel_Prelude
begin

text \<open>
  \<^verbatim>\<open>kernel_trap_frame\<close> and \<^verbatim>\<open>kernel_cpu\<close>: the trap frame that \<^verbatim>\<open>sscratch\<close> points to, the register
  numbering, the control and status registers of one hart and the accessors the kernel uses, and
  the bit layouts of module \<^verbatim>\<open>csr\<close>.

  A hart is the record of the CSRs the kernel reads and writes together with the trap frames in
  memory, indexed by address. An accessor is one CSR instruction; the write of a CSR stores the
  value (the kernel only writes bits that the supervisor level implements). Dereferencing
  \<^verbatim>\<open>sscratch\<close> where no trap frame lives is undefined behaviour and is \<^const>\<open>None\<close>.
\<close>

section \<open>Trap frames\<close>

record TrapFrame =
  general_registers :: "usize list"
  tf_pc :: usize
  hartid :: usize
  tf_pid :: usize
  interrupt_stack :: usize
  tf_flags :: usize
  tf_satp :: usize
  kernel_satp :: usize
  hart_locals :: usize
  process_raw_ptr :: usize
  restore_context :: usize

definition trap_frame_zeroed :: TrapFrame where
  "trap_frame_zeroed =
     \<lparr>general_registers = replicate 32 0, tf_pc = 0, hartid = 0, tf_pid = 0, interrupt_stack = 0,
      tf_flags = 0, tf_satp = 0, kernel_satp = 0, hart_locals = 0, process_raw_ptr = 0,
      restore_context = 0\<rparr>"

definition zeroed_interrupt_context :: TrapFrame where
  "zeroed_interrupt_context = trap_frame_zeroed\<lparr>tf_flags := 1\<rparr>"

definition inherit_from :: "TrapFrame \<Rightarrow> TrapFrame \<Rightarrow> TrapFrame" where
  "inherit_from self other = self
     \<lparr>hartid := hartid other, hart_locals := hart_locals other,
      interrupt_stack := interrupt_stack other, tf_flags := tf_flags other,
      tf_satp := tf_satp other\<rparr>"

definition is_interrupt_context :: "TrapFrame \<Rightarrow> bool" where
  "is_interrupt_context self \<longleftrightarrow> tf_flags self AND 1 \<noteq> 0"

definition has_trapped_before :: "TrapFrame \<Rightarrow> bool" where
  "has_trapped_before self \<longleftrightarrow> tf_flags self AND 2 \<noteq> 0"

definition is_double_faulting :: "TrapFrame \<Rightarrow> bool" where
  "is_double_faulting self \<longleftrightarrow> tf_flags self AND 4 \<noteq> 0"

definition is_in_fault_trap :: "TrapFrame \<Rightarrow> bool" where
  "is_in_fault_trap self \<longleftrightarrow> tf_flags self AND 8 \<noteq> 0"

definition tf_set_interrupt_context :: "TrapFrame \<Rightarrow> TrapFrame" where
  "tf_set_interrupt_context self = self\<lparr>tf_flags := tf_flags self OR 1\<rparr>"

definition set_trapped_before :: "TrapFrame \<Rightarrow> TrapFrame" where
  "set_trapped_before self = self\<lparr>tf_flags := tf_flags self OR 2\<rparr>"

definition set_double_faulting :: "TrapFrame \<Rightarrow> TrapFrame" where
  "set_double_faulting self = self\<lparr>tf_flags := tf_flags self OR 4\<rparr>"

definition set_in_fault_trap :: "TrapFrame \<Rightarrow> TrapFrame" where
  "set_in_fault_trap self = self\<lparr>tf_flags := tf_flags self OR 8\<rparr>"

definition clear_in_fault_trap :: "TrapFrame \<Rightarrow> TrapFrame" where
  "clear_in_fault_trap self = self\<lparr>tf_flags := tf_flags self AND NOT 8\<rparr>"

section \<open>Registers\<close>

datatype Registers =
    Zero | Ra | Sp | Gp | Tp | T0 | T1 | T2 | S0 | S1
  | A0 | A1 | A2 | A3 | A4 | A5 | A6 | A7 | S2 | S3
  | S4 | S5 | S6 | S7 | S8 | S9 | S10 | S11 | T3 | T4
  | T5 | T6

fun reg_idx :: "Registers \<Rightarrow> nat" where
  "reg_idx Zero = 0" | "reg_idx Ra = 1" | "reg_idx Sp = 2" | "reg_idx Gp = 3" | "reg_idx Tp = 4" | "reg_idx T0 = 5"
| "reg_idx T1 = 6" | "reg_idx T2 = 7" | "reg_idx S0 = 8" | "reg_idx S1 = 9" | "reg_idx A0 = 10" | "reg_idx A1 = 11"
| "reg_idx A2 = 12" | "reg_idx A3 = 13" | "reg_idx A4 = 14" | "reg_idx A5 = 15" | "reg_idx A6 = 16" | "reg_idx A7 = 17"
| "reg_idx S2 = 18" | "reg_idx S3 = 19" | "reg_idx S4 = 20" | "reg_idx S5 = 21" | "reg_idx S6 = 22" | "reg_idx S7 = 23"
| "reg_idx S8 = 24" | "reg_idx S9 = 25" | "reg_idx S10 = 26" | "reg_idx S11 = 27" | "reg_idx T3 = 28" | "reg_idx T4 = 29"
| "reg_idx T5 = 30" | "reg_idx T6 = 31"

definition register_of :: "TrapFrame \<Rightarrow> Registers \<Rightarrow> usize option" where
  "register_of frame r =
     (if reg_idx r < length (general_registers frame) then Some (general_registers frame ! reg_idx r) else None)"

definition set_register :: "TrapFrame \<Rightarrow> Registers \<Rightarrow> usize \<Rightarrow> TrapFrame option" where
  "set_register frame r v =
     (if reg_idx r < length (general_registers frame)
      then Some (frame\<lparr>general_registers := (general_registers frame)[reg_idx r := v]\<rparr>) else None)"

section \<open>One hart\<close>

record Hart =
  sie :: usize
  sip :: usize
  stvec :: usize
  satp :: usize
  sstatus :: usize
  sscratch :: usize
  stval :: usize
  scause :: usize
  time :: u64
  frames :: "usize \<rightharpoonup> TrapFrame"

definition write_sie :: "usize \<Rightarrow> Hart \<Rightarrow> Hart" where "write_sie value h = h\<lparr>sie := value\<rparr>"
definition write_sip :: "usize \<Rightarrow> Hart \<Rightarrow> Hart" where "write_sip value h = h\<lparr>sip := value\<rparr>"
definition write_stvec :: "usize \<Rightarrow> Hart \<Rightarrow> Hart" where "write_stvec value h = h\<lparr>stvec := value\<rparr>"
definition write_satp :: "usize \<Rightarrow> Hart \<Rightarrow> Hart" where "write_satp value h = h\<lparr>satp := value\<rparr>"
definition write_sstatus :: "usize \<Rightarrow> Hart \<Rightarrow> Hart" where
  "write_sstatus value h = h\<lparr>sstatus := value\<rparr>"
definition write_sscratch :: "usize \<Rightarrow> Hart \<Rightarrow> Hart" where
  "write_sscratch value h = h\<lparr>sscratch := value\<rparr>"
definition read_sscratch :: "Hart \<Rightarrow> usize" where "read_sscratch h = sscratch h"
definition read_sip :: "Hart \<Rightarrow> usize" where "read_sip h = sip h"
definition read_satp :: "Hart \<Rightarrow> usize" where "read_satp h = satp h"
definition read_sie :: "Hart \<Rightarrow> usize" where "read_sie h = sie h"
definition read_sstatus :: "Hart \<Rightarrow> usize" where "read_sstatus h = sstatus h"
definition read_stval :: "Hart \<Rightarrow> usize" where "read_stval h = stval h"
definition read_scause :: "Hart \<Rightarrow> usize" where "read_scause h = scause h"
definition read_time :: "Hart \<Rightarrow> u64" where "read_time h = time h"

definition current_frame :: "Hart \<Rightarrow> TrapFrame option" where
  "current_frame h = (if read_sscratch h = 0 then None else frames h (read_sscratch h))"

definition load_hartid :: "Hart \<Rightarrow> usize option" where
  "load_hartid h = map_option hartid (current_frame h)"

definition in_interrupt_context :: "Hart \<Rightarrow> bool option" where
  "in_interrupt_context h =
     (if read_sscratch h = 0 then Some True else map_option is_interrupt_context (current_frame h))"

definition update_frame :: "(TrapFrame \<Rightarrow> TrapFrame) \<Rightarrow> Hart \<Rightarrow> Hart option" where
  "update_frame f h = do {
     frame \<leftarrow> current_frame h;
     Some (h\<lparr>frames := (frames h)(read_sscratch h \<mapsto> f frame)\<rparr>)
   }"

definition set_interrupt_context :: "Hart \<Rightarrow> Hart option" where
  "set_interrupt_context h = update_frame (\<lambda>frame. frame\<lparr>tf_flags := tf_flags frame OR 1\<rparr>) h"

definition clear_interrupt_context :: "Hart \<Rightarrow> Hart option" where
  "clear_interrupt_context h = update_frame (\<lambda>frame. frame\<lparr>tf_flags := tf_flags frame AND NOT 1\<rparr>) h"

definition is_paging_enabled :: "Hart \<Rightarrow> bool" where
  "is_paging_enabled h \<longleftrightarrow> read_satp h AND push_bit 62 0xF \<noteq> 0"

section \<open>CSR layouts\<close>

definition USIP :: usize where "USIP = push_bit 0 1"
definition SSIP :: usize where "SSIP = push_bit 1 1"
definition MSIP :: usize where "MSIP = push_bit 3 1"
definition UTIP :: usize where "UTIP = push_bit 4 1"
definition STIP :: usize where "STIP = push_bit 5 1"
definition MTIP :: usize where "MTIP = push_bit 7 1"
definition UEIP :: usize where "UEIP = push_bit 8 1"
definition SEIP :: usize where "SEIP = push_bit 9 1"
definition MEIP :: usize where "MEIP = push_bit 11 1"
definition USIE :: usize where "USIE = push_bit 0 1"
definition SSIE :: usize where "SSIE = push_bit 1 1"
definition MSIE :: usize where "MSIE = push_bit 3 1"
definition UTIE :: usize where "UTIE = push_bit 4 1"
definition STIE :: usize where "STIE = push_bit 5 1"
definition MTIE :: usize where "MTIE = push_bit 7 1"
definition UEIE :: usize where "UEIE = push_bit 8 1"
definition SEIE :: usize where "SEIE = push_bit 9 1"
definition MEIE :: usize where "MEIE = push_bit 11 1"
definition status_SIE :: usize where "status_SIE = push_bit 1 1"
definition status_MIE :: usize where "status_MIE = push_bit 3 1"
definition status_SPIE :: usize where "status_SPIE = push_bit 5 1"
definition status_MPIE :: usize where "status_MPIE = push_bit 7 1"

definition SUPERVISOR_SOFTWARE :: usize where "SUPERVISOR_SOFTWARE = 1"
definition VIRTUAL_SUPERVISOR_SOFTWARE :: usize where "VIRTUAL_SUPERVISOR_SOFTWARE = 2"
definition MACHINE_SOFTWARE :: usize where "MACHINE_SOFTWARE = 3"
definition SUPERVISOR_TIMER :: usize where "SUPERVISOR_TIMER = 5"
definition VIRTUAL_SUPERVISOR_TIMER :: usize where "VIRTUAL_SUPERVISOR_TIMER = 6"
definition MACHINE_TIMER :: usize where "MACHINE_TIMER = 7"
definition SUPERVISOR_EXTERNAL :: usize where "SUPERVISOR_EXTERNAL = 9"
definition VIRTUAL_SUPERVISOR_EXTERNAL :: usize where "VIRTUAL_SUPERVISOR_EXTERNAL = 10"
definition MACHINE_EXTERNAL :: usize where "MACHINE_EXTERNAL = 11"
definition SUPERVISOR_GUEST_EXTERNAL :: usize where "SUPERVISOR_GUEST_EXTERNAL = 12"

definition SATP_BARE :: usize where "SATP_BARE = 0"
definition SATP_SV32 :: usize where "SATP_SV32 = push_bit 30 1"
definition SATP_SV39 :: usize where "SATP_SV39 = push_bit 60 8"
definition SATP_SV48 :: usize where "SATP_SV48 = push_bit 60 9"

definition XCAUSE_DESCRIPTION :: "string list" where
  "XCAUSE_DESCRIPTION = [
     ''Instruction address misaligned'', ''Instruction access fault'', ''Illegal instruction'',
     ''Breakpoint'', ''Load address misaligned'', ''Load access fault'',
     ''Store/AMO address misaligned'', ''Store/AMO access fault'',
     ''Enviornment call from U-mode'', ''Enviornment call from S-mode'', ''<Reserved>'',
     ''Enviornment call from M-mode'', ''Instruction page fault'', ''Load page fault'',
     ''<Reserved>'', ''Store/AMO page fault'']"

definition get_xcause_explanation :: "usize \<Rightarrow> string option" where
  "get_xcause_explanation cause =
     (if unat cause < length XCAUSE_DESCRIPTION then Some (XCAUSE_DESCRIPTION ! unat cause) else None)"

section \<open>Registers are ordered by number\<close>

lemma reg_idx_less [simp]: "reg_idx r < 32"
  by (cases r) simp_all

lemma reg_idx_inject [simp]: "reg_idx r = reg_idx q \<longleftrightarrow> r = q"
  by (cases r; cases q) simp_all

instantiation Registers :: linorder
begin

definition less_eq_Registers :: "Registers \<Rightarrow> Registers \<Rightarrow> bool" where
  "less_eq_Registers r q \<longleftrightarrow> reg_idx r \<le> reg_idx q"

definition less_Registers :: "Registers \<Rightarrow> Registers \<Rightarrow> bool" where
  "less_Registers r q \<longleftrightarrow> reg_idx r < reg_idx q"

instance
  by standard (auto simp: less_eq_Registers_def less_Registers_def)

end

lemma set_register_same:
  "set_register frame r v = Some frame' \<Longrightarrow> register_of frame' r = Some v"
  by (auto simp: set_register_def register_of_def split: if_splits)

lemma set_register_other:
  "set_register frame r v = Some frame' \<Longrightarrow> r \<noteq> q \<Longrightarrow> register_of frame' q = register_of frame q"
  by (auto simp: set_register_def register_of_def split: if_splits)

lemma set_register_total:
  "length (general_registers frame) = 32 \<Longrightarrow>
   \<exists>frame'. set_register frame r v = Some frame' \<and> length (general_registers frame') = 32"
  by (simp add: set_register_def)

section \<open>Flags of a trap frame\<close>

lemma and_pow2_bit [kernel_bits]: "(a :: usize) AND 2 ^ n \<noteq> 0 \<longleftrightarrow> bit a n"
  by (auto simp: and_exp_eq_0_iff_not_bit)

lemmas and_small_bit [kernel_bits] =
  and_pow2_bit [of _ 0, simplified] and_pow2_bit [of _ 1, simplified]
  and_pow2_bit [of _ 2, simplified] and_pow2_bit [of _ 3, simplified]

lemma bit_small_numerals [kernel_bits]:
  "bit (1 :: usize) n \<longleftrightarrow> n = 0" "bit (2 :: usize) n \<longleftrightarrow> n = 1"
  "bit (4 :: usize) n \<longleftrightarrow> n = 2" "bit (8 :: usize) n \<longleftrightarrow> n = 3"
  using bit_exp_iff [where 'a = usize, of 0 n] bit_exp_iff [where 'a = usize, of 1 n]
    bit_exp_iff [where 'a = usize, of 2 n] bit_exp_iff [where 'a = usize, of 3 n]
  by (auto simp: possible_bit_def)

lemmas frame_flag_defs =
  is_interrupt_context_def has_trapped_before_def is_double_faulting_def is_in_fault_trap_def
  tf_set_interrupt_context_def set_trapped_before_def set_double_faulting_def
  set_in_fault_trap_def clear_in_fault_trap_def

lemma update_frame_Some:
  "current_frame h = Some frame \<Longrightarrow>
   update_frame f h = Some (h\<lparr>frames := (frames h)(sscratch h \<mapsto> f frame)\<rparr>)"
  by (simp add: update_frame_def read_sscratch_def)

end
