(* ===== verification/Shared_Locks.thy ===== *)
theory Shared_Locks
  imports Spin_Locks Cpu
begin

text \<open>
  \<^verbatim>\<open>kernel_lock/src/shared\<close>, \<^verbatim>\<open>simple_shared\<close> and \<^verbatim>\<open>interrupt\<close>: the locks that also manage the
  interrupt-enable register of the hart. A shared lock counts in \<^verbatim>\<open>HART_LOCK_COUNT\<close> how many locks
  the hart holds, clears \<^verbatim>\<open>sie\<close> when it takes one and writes \<^verbatim>\<open>0x222\<close> back when it releases the last
  one; a simple shared mutex saves and restores \<^verbatim>\<open>sie\<close>; an interrupt lock may only be used in
  interrupt context.

  The state is that of the running hart, the vector \<^verbatim>\<open>HART_LOCK_COUNT\<close> with the spin reader-writer
  lock that guards it, and the lock itself. \<^verbatim>\<open>read()\<close> and \<^verbatim>\<open>write()\<close> of \<^verbatim>\<open>lock_api::RwLock\<close> take
  the raw lock, give access to the value and release the raw lock when the guard is dropped at the
  end of the expression. The \<^verbatim>\<open>debug!\<close> lines are logging and are left out.
\<close>

section \<open>The lock counts of the harts\<close>

record lock_world =
  hart :: Hart
  count_guard :: RawSpinRwLock
  hart_lock_count :: "usize list"

definition count_read :: "(usize list \<Rightarrow> ('a \<times> usize list) option) \<Rightarrow> lock_world \<Rightarrow> ('a \<times> lock_world) option" where
  "count_read f w = do {
     guard \<leftarrow> spin_lock_shared (count_guard w);
     (a, counts) \<leftarrow> f (hart_lock_count w);
     Some (a, w\<lparr>hart_lock_count := counts, count_guard := spin_unlock_shared guard\<rparr>)
   }"

definition count_write :: "(usize list \<Rightarrow> ('a \<times> usize list) option) \<Rightarrow> lock_world \<Rightarrow> ('a \<times> lock_world) option" where
  "count_write f w = do {
     guard \<leftarrow> spin_lock_exclusive (count_guard w);
     (a, counts) \<leftarrow> f (hart_lock_count w);
     Some (a, w\<lparr>hart_lock_count := counts, count_guard := spin_unlock_exclusive guard\<rparr>)
   }"

definition create_hart_lock_count_entry_if_necessary :: "usize \<Rightarrow> lock_world \<Rightarrow> (bool \<times> lock_world) option" where
  "create_hart_lock_count_entry_if_necessary idx w = do {
     (len, w) \<leftarrow> count_read (\<lambda>counts. Some (length counts, counts)) w;
     if unat idx < len then Some (False, w)
     else do {
       (_, w) \<leftarrow> count_write (\<lambda>counts. do {
           n \<leftarrow> checked_add idx 1;
           Some ((), take (unat n) counts @ replicate (unat n - length counts) 0)
         }) w;
       Some (True, w)
     }
   }"

text \<open>\<^verbatim>\<open>fetch_add\<close> and \<^verbatim>\<open>fetch_sub\<close> on the counter of a hart: the old value; the counter wraps around.\<close>

definition fetch_update :: "(usize \<Rightarrow> usize) \<Rightarrow> usize \<Rightarrow> lock_world \<Rightarrow> (usize \<times> lock_world) option" where
  "fetch_update f idx w =
     count_read (\<lambda>counts. if unat idx < length counts
        then Some (counts ! unat idx, counts[unat idx := f (counts ! unat idx)]) else None) w"

definition lock_and_disable_interrupts :: "lock_world \<Rightarrow> lock_world option" where
  "lock_and_disable_interrupts w = do {
     interrupt \<leftarrow> in_interrupt_context (hart w);
     if interrupt then Some w
     else do {
       let w = w\<lparr>hart := write_sie 0 (hart w)\<rparr>;
       idx \<leftarrow> load_hartid (hart w);
       (_, w) \<leftarrow> create_hart_lock_count_entry_if_necessary idx w;
       idx \<leftarrow> load_hartid (hart w);
       (_, w) \<leftarrow> fetch_update (\<lambda>n. n + 1) idx w;
       Some w
     }
   }"

definition unlock_and_enable_interrupts_if_necessary :: "lock_world \<Rightarrow> lock_world option" where
  "unlock_and_enable_interrupts_if_necessary w = do {
     interrupt \<leftarrow> in_interrupt_context (hart w);
     if interrupt then Some w
     else do {
       idx \<leftarrow> load_hartid (hart w);
       (old, w) \<leftarrow> fetch_update (\<lambda>n. n - 1) idx w;
       Some (if old = 1 then w\<lparr>hart := write_sie 0x222 (hart w)\<rparr> else w)
     }
   }"

definition this_hart_lock_count :: "lock_world \<Rightarrow> (usize \<times> lock_world) option" where
  "this_hart_lock_count w = do {
     idx \<leftarrow> load_hartid (hart w);
     fetch_update (\<lambda>n. n) idx w
   }"

section \<open>The shared mutex\<close>

definition shared_lock :: "lock_world \<times> RawSpinlock \<Rightarrow> (lock_world \<times> RawSpinlock) option" where
  "shared_lock = (\<lambda>(w, internal). do {
     w \<leftarrow> lock_and_disable_interrupts w;
     internal \<leftarrow> spin_lock internal;
     Some (w, internal)
   })"

definition shared_try_lock :: "lock_world \<times> RawSpinlock \<Rightarrow> (bool \<times> lock_world \<times> RawSpinlock) option" where
  "shared_try_lock = (\<lambda>(w, internal).
     case spin_try_lock internal of
       (True, internal) \<Rightarrow> do { w \<leftarrow> lock_and_disable_interrupts w; Some (True, w, internal) }
     | (False, internal) \<Rightarrow> Some (False, w, internal))"

definition shared_unlock :: "lock_world \<times> RawSpinlock \<Rightarrow> (lock_world \<times> RawSpinlock) option" where
  "shared_unlock = (\<lambda>(w, internal). do {
     let internal = spin_unlock internal;
     w \<leftarrow> unlock_and_enable_interrupts_if_necessary w;
     Some (w, internal)
   })"

section \<open>The shared reader-writer lock\<close>

definition shared_lock_shared :: "lock_world \<times> RawSpinRwLock \<Rightarrow> (lock_world \<times> RawSpinRwLock) option" where
  "shared_lock_shared = (\<lambda>(w, internal). do {
     w \<leftarrow> lock_and_disable_interrupts w;
     internal \<leftarrow> spin_lock_shared internal;
     Some (w, internal)
   })"

definition shared_try_lock_shared :: "lock_world \<times> RawSpinRwLock \<Rightarrow> (bool \<times> lock_world \<times> RawSpinRwLock) option" where
  "shared_try_lock_shared = (\<lambda>(w, internal). do {
     (got, internal) \<leftarrow> spin_try_lock_shared internal;
     if got then do { w \<leftarrow> lock_and_disable_interrupts w; Some (True, w, internal) }
     else Some (False, w, internal)
   })"

definition shared_unlock_shared :: "lock_world \<times> RawSpinRwLock \<Rightarrow> (lock_world \<times> RawSpinRwLock) option" where
  "shared_unlock_shared = (\<lambda>(w, internal). do {
     let internal = spin_unlock_shared internal;
     w \<leftarrow> unlock_and_enable_interrupts_if_necessary w;
     Some (w, internal)
   })"

definition shared_lock_exclusive :: "lock_world \<times> RawSpinRwLock \<Rightarrow> (lock_world \<times> RawSpinRwLock) option" where
  "shared_lock_exclusive = (\<lambda>(w, internal). do {
     w \<leftarrow> lock_and_disable_interrupts w;
     internal \<leftarrow> spin_lock_exclusive internal;
     Some (w, internal)
   })"

definition shared_try_lock_exclusive :: "lock_world \<times> RawSpinRwLock \<Rightarrow> (bool \<times> lock_world \<times> RawSpinRwLock) option" where
  "shared_try_lock_exclusive = (\<lambda>(w, internal). do {
     (got, internal) \<leftarrow> spin_try_lock_exclusive internal;
     if got then do { w \<leftarrow> lock_and_disable_interrupts w; Some (True, w, internal) }
     else Some (False, w, internal)
   })"

definition shared_unlock_exclusive :: "lock_world \<times> RawSpinRwLock \<Rightarrow> (lock_world \<times> RawSpinRwLock) option" where
  "shared_unlock_exclusive = (\<lambda>(w, internal). do {
     let internal = spin_unlock_exclusive internal;
     w \<leftarrow> unlock_and_enable_interrupts_if_necessary w;
     Some (w, internal)
   })"

section \<open>The simple shared mutex\<close>

record SimpleSharedLock =
  internal_lock :: RawSpinlock
  old_sie :: usize

definition simple_shared_INIT :: SimpleSharedLock where
  "simple_shared_INIT = \<lparr>internal_lock = spinlock_INIT, old_sie = 0\<rparr>"

definition simple_try_lock :: "Hart \<times> SimpleSharedLock \<Rightarrow> bool \<times> Hart \<times> SimpleSharedLock" where
  "simple_try_lock = (\<lambda>(h, self).
     case spin_try_lock (internal_lock self) of
       (True, l) \<Rightarrow> (True, write_sie 0 h, self\<lparr>internal_lock := l, old_sie := read_sie h\<rparr>)
     | (False, l) \<Rightarrow> (False, h, self\<lparr>internal_lock := l\<rparr>))"

partial_function (option) simple_lock :: "Hart \<times> SimpleSharedLock \<Rightarrow> (Hart \<times> SimpleSharedLock) option" where
  "simple_lock s =
     (if fst (simple_try_lock s) then Some (snd (simple_try_lock s)) else simple_lock (snd (simple_try_lock s)))"

text \<open>The release has two separate accesses: it frees the spin lock, then reads the saved value.\<close>

definition simple_unlock_release :: "SimpleSharedLock \<Rightarrow> SimpleSharedLock" where
  "simple_unlock_release self = self\<lparr>internal_lock := spin_unlock (internal_lock self)\<rparr>"

definition simple_unlock_restore :: "Hart \<times> SimpleSharedLock \<Rightarrow> Hart \<times> SimpleSharedLock" where
  "simple_unlock_restore = (\<lambda>(h, self). (write_sie (old_sie self) h, self))"

definition simple_unlock :: "Hart \<times> SimpleSharedLock \<Rightarrow> Hart \<times> SimpleSharedLock" where
  "simple_unlock = (\<lambda>(h, self). simple_unlock_restore (h, simple_unlock_release self))"

section \<open>The simple shared reader-writer lock\<close>

definition simple_lock_shared :: "lock_world \<times> RawSpinRwLock \<Rightarrow> (lock_world \<times> RawSpinRwLock) option" where
  "simple_lock_shared = (\<lambda>(w, internal). do {
     w \<leftarrow> lock_and_disable_interrupts w;
     internal \<leftarrow> spin_lock_shared internal;
     Some (w, internal)
   })"

definition simple_try_lock_shared :: "lock_world \<times> RawSpinRwLock \<Rightarrow> (bool \<times> lock_world \<times> RawSpinRwLock) option" where
  "simple_try_lock_shared = (\<lambda>(w, internal). do {
     (got, internal) \<leftarrow> spin_try_lock_shared internal;
     if got then do { w \<leftarrow> lock_and_disable_interrupts w; Some (True, w, internal) }
     else Some (False, w, internal)
   })"

definition simple_unlock_shared :: "lock_world \<times> RawSpinRwLock \<Rightarrow> (lock_world \<times> RawSpinRwLock) option" where
  "simple_unlock_shared = (\<lambda>(w, internal). do {
     let internal = spin_unlock_shared internal;
     w \<leftarrow> unlock_and_enable_interrupts_if_necessary w;
     Some (w, internal)
   })"

definition simple_lock_exclusive :: "lock_world \<times> RawSpinRwLock \<Rightarrow> (lock_world \<times> RawSpinRwLock) option" where
  "simple_lock_exclusive = (\<lambda>(w, internal). do {
     w \<leftarrow> lock_and_disable_interrupts w;
     internal \<leftarrow> spin_lock_exclusive internal;
     Some (w, internal)
   })"

definition simple_try_lock_exclusive :: "lock_world \<times> RawSpinRwLock \<Rightarrow> (bool \<times> lock_world \<times> RawSpinRwLock) option" where
  "simple_try_lock_exclusive = (\<lambda>(w, internal). do {
     (got, internal) \<leftarrow> spin_try_lock_exclusive internal;
     if got then do { w \<leftarrow> lock_and_disable_interrupts w; Some (True, w, internal) }
     else Some (False, w, internal)
   })"

definition simple_unlock_exclusive :: "lock_world \<times> RawSpinRwLock \<Rightarrow> (lock_world \<times> RawSpinRwLock) option" where
  "simple_unlock_exclusive = (\<lambda>(w, internal). do {
     let internal = spin_unlock_exclusive internal;
     w \<leftarrow> unlock_and_enable_interrupts_if_necessary w;
     Some (w, internal)
   })"

section \<open>The interrupt locks\<close>

definition assert_interrupt :: "Hart \<Rightarrow> unit option" where
  "assert_interrupt h = do { interrupt \<leftarrow> in_interrupt_context h; assert_that interrupt }"

definition interrupt_lock :: "Hart \<times> RawSpinlock \<Rightarrow> (Hart \<times> RawSpinlock) option" where
  "interrupt_lock = (\<lambda>(h, internal). do {
     assert_interrupt h;
     internal \<leftarrow> spin_lock internal;
     Some (h, internal)
   })"

definition interrupt_try_lock :: "Hart \<times> RawSpinlock \<Rightarrow> (bool \<times> Hart \<times> RawSpinlock) option" where
  "interrupt_try_lock = (\<lambda>(h, internal).
     let (got, internal) = spin_try_lock internal in Some (got, h, internal))"

definition interrupt_unlock :: "Hart \<times> RawSpinlock \<Rightarrow> (Hart \<times> RawSpinlock) option" where
  "interrupt_unlock = (\<lambda>(h, internal). do {
     assert_interrupt h;
     Some (h, spin_unlock internal)
   })"

definition interrupt_lock_shared :: "Hart \<times> RawSpinRwLock \<Rightarrow> (Hart \<times> RawSpinRwLock) option" where
  "interrupt_lock_shared = (\<lambda>(h, internal). do {
     assert_interrupt h;
     internal \<leftarrow> spin_lock_shared internal;
     Some (h, internal)
   })"

definition interrupt_try_lock_shared :: "Hart \<times> RawSpinRwLock \<Rightarrow> (bool \<times> Hart \<times> RawSpinRwLock) option" where
  "interrupt_try_lock_shared = (\<lambda>(h, internal). do {
     (got, internal) \<leftarrow> spin_try_lock_shared internal;
     Some (got, h, internal)
   })"

definition interrupt_unlock_shared :: "Hart \<times> RawSpinRwLock \<Rightarrow> (Hart \<times> RawSpinRwLock) option" where
  "interrupt_unlock_shared = (\<lambda>(h, internal). Some (h, spin_unlock_shared internal))"

text \<open>\<^verbatim>\<open>RawInterruptRwLock::lock_exclusive\<close> calls \<^verbatim>\<open>lock_shared\<close> of the inner lock.\<close>

definition interrupt_lock_exclusive :: "Hart \<times> RawSpinRwLock \<Rightarrow> (Hart \<times> RawSpinRwLock) option" where
  "interrupt_lock_exclusive = (\<lambda>(h, internal). do {
     assert_interrupt h;
     internal \<leftarrow> spin_lock_shared internal;
     Some (h, internal)
   })"

definition interrupt_try_lock_exclusive :: "Hart \<times> RawSpinRwLock \<Rightarrow> (bool \<times> Hart \<times> RawSpinRwLock) option" where
  "interrupt_try_lock_exclusive = (\<lambda>(h, internal). do {
     (got, internal) \<leftarrow> spin_try_lock_exclusive internal;
     Some (got, h, internal)
   })"

definition interrupt_unlock_exclusive :: "Hart \<times> RawSpinRwLock \<Rightarrow> (Hart \<times> RawSpinRwLock) option" where
  "interrupt_unlock_exclusive = (\<lambda>(h, internal). do {
     assert_interrupt h;
     Some (h, spin_unlock_exclusive internal)
   })"

end
