(* ===== verification/Shared_Lock_Lemmas.thy ===== *)
theory Shared_Lock_Lemmas
  imports Shared_Locks
begin

text \<open>
  What taking and releasing a shared lock does to the hart and to its lock count, and the
  interpretations of the lock contracts on the shared, simple shared and interrupt locks.
\<close>

section \<open>The counts under their guard\<close>

definition count_at :: "lock_world \<Rightarrow> usize \<Rightarrow> usize" where
  "count_at w i = (if unat i < length (hart_lock_count w) then hart_lock_count w ! unat i else 0)"

lemma guard_INIT_view: "rw_view spin_rwlock_INIT = Readers 0"
  by (simp add: rw_view_free spin_rwlock_INIT_def)

lemma count_read_eq [kernel_step]:
  assumes "count_guard w = spin_rwlock_INIT"
  shows "count_read f w =
    map_option (\<lambda>(a, counts). (a, w\<lparr>hart_lock_count := counts\<rparr>)) (f (hart_lock_count w))"
proof -
  have "spin_lock_shared (count_guard w) = Some \<lparr>rw_value = 2\<rparr>"
    using spin_lock_shared_ok [OF guard_INIT_view] assms by (simp add: reader_limit_def spin_rwlock_INIT_def)
  moreover have "spin_unlock_shared \<lparr>rw_value = 2\<rparr> = count_guard w"
    using assms by (simp add: spin_unlock_shared_def spin_rwlock_INIT_def)
  ultimately show ?thesis
    by (cases w, cases "f (hart_lock_count w)") (auto simp: count_read_def)
qed

lemma count_write_eq [kernel_step]:
  assumes "count_guard w = spin_rwlock_INIT"
  shows "count_write f w =
    map_option (\<lambda>(a, counts). (a, w\<lparr>hart_lock_count := counts\<rparr>)) (f (hart_lock_count w))"
proof -
  have "spin_lock_exclusive (count_guard w) = Some \<lparr>rw_value = 1\<rparr>"
    using spin_lock_exclusive_ok [OF guard_INIT_view] assms by (simp add: spin_rwlock_INIT_def)
  moreover have "spin_unlock_exclusive \<lparr>rw_value = 1\<rparr> = count_guard w"
    using assms by (simp add: spin_unlock_exclusive_def spin_rwlock_INIT_def)
  ultimately show ?thesis
    by (cases w, cases "f (hart_lock_count w)") (auto simp: count_write_def)
qed

section \<open>A hart outside interrupt context\<close>

text \<open>
  The hart \<open>i\<close> runs outside interrupt context and nobody is inside the guard of the counts. The
  hart id is not the largest \<^verbatim>\<open>usize\<close>, for which the size of the vector would overflow.
\<close>

definition thread_world :: "usize \<Rightarrow> lock_world \<Rightarrow> bool" where
  "thread_world i w \<longleftrightarrow> count_guard w = spin_rwlock_INIT \<and> in_interrupt_context (hart w) = Some False
     \<and> load_hartid (hart w) = Some i \<and> i \<noteq> usize_MAX"

lemma hart_context_write_sie [simp]:
  "in_interrupt_context (write_sie v h) = in_interrupt_context h"
  "load_hartid (write_sie v h) = load_hartid h"
  "sie (write_sie v h) = v"
  by (simp_all add: in_interrupt_context_def load_hartid_def current_frame_def write_sie_def
      read_sscratch_def)

lemma unat_Suc_no_overflow:
  assumes "i \<noteq> usize_MAX"
  shows "checked_add i 1 = Some (i + 1)" "unat (i + 1) = Suc (unat i)"
proof -
  have i: "unat i \<noteq> 2 ^ 64 - 1"
    using assms by (auto simp: word_unat_eq_iff unsigned_minus_1_eq_mask mask_eq_exp_minus_1)
  then have "unat i + unat (1 :: usize) < 2 ^ 64" using unat_usize_less [of i] by simp
  then show "checked_add i 1 = Some (i + 1)" "unat (i + 1) = Suc (unat i)"
    using unat_add_no_overflow [of i 1] by (simp_all add: checked_add_def)
qed

lemma create_entry:
  assumes "thread_world i w"
  shows "\<exists>b w'. create_hart_lock_count_entry_if_necessary i w = Some (b, w')
    \<and> thread_world i w' \<and> hart w' = hart w \<and> unat i < length (hart_lock_count w')
    \<and> (\<forall>j. count_at w' j = count_at w j)"
proof -
  note g = assms [unfolded thread_world_def, THEN conjunct1]
  note o = unat_Suc_no_overflow [of i]
  let ?n = "Suc (unat i) - length (hart_lock_count w)"
  show ?thesis
  proof (cases "unat i < length (hart_lock_count w)")
    case True
    then show ?thesis using assms g
      by (auto simp: create_hart_lock_count_entry_if_necessary_def count_read_eq count_at_def)
  next
    case False
    let ?w = "w\<lparr>hart_lock_count := hart_lock_count w @ replicate ?n 0\<rparr>"
    have "create_hart_lock_count_entry_if_necessary i w = Some (True, ?w)"
      using False assms o
      by (auto simp: create_hart_lock_count_entry_if_necessary_def count_read_eq [OF g]
          count_write_eq [OF g] thread_world_def)
    moreover have "count_at ?w j = count_at w j" for j
      by (auto simp: count_at_def nth_append)
    moreover have "unat i < length (hart_lock_count ?w)" using False by simp
    ultimately show ?thesis using assms by (auto simp: thread_world_def)
  qed
qed

lemma fetch_update_eq [kernel_step]:
  assumes "thread_world i w" "unat i < length (hart_lock_count w)"
  shows "\<exists>w'. fetch_update f i w = Some (count_at w i, w') \<and> thread_world i w' \<and> hart w' = hart w
    \<and> count_at w' i = f (count_at w i) \<and> (\<forall>j. j \<noteq> i \<longrightarrow> count_at w' j = count_at w j)
    \<and> length (hart_lock_count w') = length (hart_lock_count w)"
  using assms
  by (auto simp: fetch_update_def count_read_eq thread_world_def count_at_def nth_list_update
      simp flip: word_unat_eq_iff)

lemma lock_and_disable_thread:
  assumes "thread_world i w"
  shows "\<exists>w'. lock_and_disable_interrupts w = Some w' \<and> thread_world i w'
    \<and> hart w' = write_sie 0 (hart w) \<and> count_at w' i = count_at w i + 1
    \<and> (\<forall>j. j \<noteq> i \<longrightarrow> count_at w' j = count_at w j) \<and> unat i < length (hart_lock_count w')"
proof -
  let ?w = "w\<lparr>hart := write_sie 0 (hart w)\<rparr>"
  have w: "thread_world i ?w" and id: "load_hartid (hart w) = Some i"
    and ctx: "in_interrupt_context (hart w) = Some False"
    using assms by (simp_all add: thread_world_def)
  from create_entry [OF w] obtain b w1 where w1:
    "create_hart_lock_count_entry_if_necessary i ?w = Some (b, w1)" "thread_world i w1"
    "hart w1 = write_sie 0 (hart w)" "unat i < length (hart_lock_count w1)"
    "\<forall>j. count_at w1 j = count_at w j"
    by (auto simp: count_at_def)
  from fetch_update_eq [OF w1(2,4), of "\<lambda>n. n + 1"] obtain w2 where
    "fetch_update (\<lambda>n. n + 1) i w1 = Some (count_at w1 i, w2)" "thread_world i w2" "hart w2 = hart w1"
    "count_at w2 i = count_at w1 i + 1" "\<forall>j. j \<noteq> i \<longrightarrow> count_at w2 j = count_at w1 j"
    "length (hart_lock_count w2) = length (hart_lock_count w1)"
    by blast
  with w1 id ctx show ?thesis
    by (auto simp: lock_and_disable_interrupts_def)
qed

lemma unlock_and_enable_thread:
  assumes "thread_world i w" "unat i < length (hart_lock_count w)"
  shows "\<exists>w'. unlock_and_enable_interrupts_if_necessary w = Some w' \<and> thread_world i w'
    \<and> hart w' = (if count_at w i = 1 then write_sie 0x222 (hart w) else hart w)
    \<and> count_at w' i = count_at w i - 1 \<and> (\<forall>j. j \<noteq> i \<longrightarrow> count_at w' j = count_at w j)
    \<and> length (hart_lock_count w') = length (hart_lock_count w)"
proof -
  have id: "load_hartid (hart w) = Some i" and ctx: "in_interrupt_context (hart w) = Some False"
    using assms by (simp_all add: thread_world_def)
  from fetch_update_eq [OF assms, of "\<lambda>n. n - 1"] obtain w2 where
    "fetch_update (\<lambda>n. n - 1) i w = Some (count_at w i, w2)" "thread_world i w2" "hart w2 = hart w"
    "count_at w2 i = count_at w i - 1" "\<forall>j. j \<noteq> i \<longrightarrow> count_at w2 j = count_at w j"
    "length (hart_lock_count w2) = length (hart_lock_count w)"
    by blast
  with id ctx assms(2) show ?thesis
    by (auto simp: unlock_and_enable_interrupts_if_necessary_def thread_world_def count_at_def)
qed

lemma interrupt_context_no_effect:
  assumes "in_interrupt_context (hart w) = Some True"
  shows "lock_and_disable_interrupts w = Some w"
    and "unlock_and_enable_interrupts_if_necessary w = Some w"
  using assms
  by (simp_all add: lock_and_disable_interrupts_def unlock_and_enable_interrupts_if_necessary_def)

section \<open>The contracts\<close>

text \<open>
  Between the calls of one hart the lock count has an entry whenever a lock is held outside
  interrupt context.
\<close>

definition world_ok :: "bool \<Rightarrow> lock_world \<Rightarrow> bool" where
  "world_ok any_held w \<longleftrightarrow> in_interrupt_context (hart w) = Some True
     \<or> (\<exists>i. thread_world i w \<and> (any_held \<longrightarrow> unat i < length (hart_lock_count w)))"

lemma world_ok_lock:
  assumes "world_ok b w"
  shows "\<exists>w'. lock_and_disable_interrupts w = Some w' \<and> world_ok True w'"
proof (cases "in_interrupt_context (hart w) = Some True")
  case True
  then show ?thesis using interrupt_context_no_effect by (simp add: world_ok_def)
next
  case False
  with assms obtain i where "thread_world i w" by (auto simp: world_ok_def)
  from lock_and_disable_thread [OF this] show ?thesis by (auto simp: world_ok_def)
qed

lemma world_ok_unlock:
  assumes "world_ok True w"
  shows "\<exists>w'. unlock_and_enable_interrupts_if_necessary w = Some w' \<and> world_ok True w'"
proof (cases "in_interrupt_context (hart w) = Some True")
  case True
  then show ?thesis using interrupt_context_no_effect by (simp add: world_ok_def)
next
  case False
  with assms obtain i where "thread_world i w" "unat i < length (hart_lock_count w)"
    by (auto simp: world_ok_def)
  from unlock_and_enable_thread [OF this] this(2) show ?thesis by (auto simp: world_ok_def)
qed

lemma world_ok_weaken: "world_ok True w \<Longrightarrow> world_ok b w"
  by (auto simp: world_ok_def)

definition shared_held :: "lock_world \<times> RawSpinlock \<Rightarrow> bool" where
  "shared_held s \<longleftrightarrow> locked (snd s)"

definition shared_ok :: "lock_world \<times> RawSpinlock \<Rightarrow> bool" where
  "shared_ok s \<longleftrightarrow> world_ok (locked (snd s)) (fst s)"

lemma shared_acquire:
  assumes "shared_ok s" "\<not> shared_held s"
  shows "\<exists>s'. shared_lock s = Some s' \<and> shared_try_lock s = Some (True, s') \<and> shared_held s' \<and> shared_ok s'"
proof (cases s)
  case (Pair w l)
  with assms obtain w' where "lock_and_disable_interrupts w = Some w'" "world_ok True w'"
    using world_ok_lock by (auto simp: shared_ok_def)
  with Pair assms show ?thesis
    by (simp add: shared_lock_def shared_try_lock_def shared_held_def shared_ok_def spin_try_lock_eq
        spin_lock_free)
qed

interpretation shared_mutex: raw_mutex shared_held shared_ok shared_lock shared_try_lock shared_unlock
proof unfold_locales
  fix s
  assume s: "shared_ok s" "shared_held s"
  obtain w l where [simp]: "s = (w, l)" by (cases s)
  have l: "locked l" and w: "world_ok True w" using s by (simp_all add: shared_held_def shared_ok_def)
  show "\<exists>s'. shared_try_lock s = Some (False, s') \<and> shared_held s' \<and> shared_ok s'"
    using l w by (simp add: shared_try_lock_def spin_try_lock_eq shared_held_def shared_ok_def)
  show "shared_lock s = None"
    using l world_ok_lock [OF w] by (auto simp: shared_lock_def spin_lock_busy)
  show "\<exists>s'. shared_unlock s = Some s' \<and> \<not> shared_held s' \<and> shared_ok s'"
    using world_ok_unlock [OF w] world_ok_weaken
    by (auto simp: shared_unlock_def spin_unlock_def shared_held_def shared_ok_def)
qed (use shared_acquire in blast)+

definition shared_rw_view :: "lock_world \<times> RawSpinRwLock \<Rightarrow> rw_state" where
  "shared_rw_view s = rw_view (snd s)"

definition shared_rw_ok :: "lock_world \<times> RawSpinRwLock \<Rightarrow> bool" where
  "shared_rw_ok s \<longleftrightarrow> rw_ok (snd s) \<and> world_ok (rw_view (snd s) \<noteq> Readers 0) (fst s)"

lemma shared_rwE:
  assumes "shared_rw_ok s"
  obtains w l where "s = (w, l)" "rw_ok l" "world_ok (rw_view l \<noteq> Readers 0) w"
  using assms by (cases s) (auto simp: shared_rw_ok_def)

lemma shared_rw_release:
  assumes "shared_rw_ok (w, l)" "rw_view l \<noteq> Readers 0" "rw_ok l'"
  shows "\<exists>w'. unlock_and_enable_interrupts_if_necessary w = Some w' \<and> shared_rw_ok (w', l')"
  using assms world_ok_unlock [of w] world_ok_weaken by (auto simp: shared_rw_ok_def)

lemma shared_rw_take:
  assumes "shared_rw_ok (w, l)" "rw_ok l'"
  shows "\<exists>w'. lock_and_disable_interrupts w = Some w' \<and> shared_rw_ok (w', l')"
  using assms world_ok_lock [of _ w] world_ok_weaken by (fastforce simp: shared_rw_ok_def)

lemmas shared_rw_defs =
  shared_lock_shared_def shared_try_lock_shared_def shared_unlock_shared_def
  shared_lock_exclusive_def shared_try_lock_exclusive_def shared_unlock_exclusive_def
  shared_rw_view_def

interpretation shared_rw: raw_rwlock reader_limit shared_rw_view shared_rw_ok
  shared_lock_shared shared_try_lock_shared shared_unlock_shared
  shared_lock_exclusive shared_try_lock_exclusive shared_unlock_exclusive
proof unfold_locales
  fix s n
  assume s: "shared_rw_ok s"
  then obtain w l where [simp]: "s = (w, l)" and l: "rw_ok l" by (rule shared_rwE)
  note take = shared_rw_take [OF s [simplified]]
  { assume v: "shared_rw_view s = Readers n" "n < reader_limit"
    note step = spin_try_lock_shared_ok [of l n] spin_lock_shared_ok [of l n]
    show "\<exists>s'. shared_try_lock_shared s = Some (True, s') \<and> shared_rw_view s' = Readers (Suc n) \<and> shared_rw_ok s'"
      "\<exists>s'. shared_lock_shared s = Some s' \<and> shared_rw_view s' = Readers (Suc n) \<and> shared_rw_ok s'"
      using v step take by (fastforce simp: shared_rw_defs)+ }
  { assume v: "shared_rw_view s = Writer"
    show "\<exists>s'. shared_try_lock_shared s = Some (False, s') \<and> shared_rw_view s' = Writer \<and> shared_rw_ok s'"
      using v s by (simp add: shared_rw_defs spin_try_lock_shared_busy)
    show "shared_lock_shared s = None"
      using v take [OF l] by (auto simp: shared_rw_defs spin_lock_shared_busy)
    show "\<exists>s'. shared_unlock_exclusive s = Some s' \<and> shared_rw_view s' = Readers 0 \<and> shared_rw_ok s'"
      using v shared_rw_release [OF s [simplified], of "spin_unlock_exclusive l"] spin_unlock_exclusive_view [OF l]
      by (auto simp: shared_rw_defs) }
  { assume v: "shared_rw_view s = Readers (Suc n)"
    show "\<exists>s'. shared_unlock_shared s = Some s' \<and> shared_rw_view s' = Readers n \<and> shared_rw_ok s'"
      using v shared_rw_release [OF s [simplified], of "spin_unlock_shared l"] spin_unlock_shared_view [of l n]
      by (auto simp: shared_rw_defs) }
  { assume v: "shared_rw_view s = Readers 0"
    have new: "rw_view (l\<lparr>rw_value := 1\<rparr>) = Writer" "rw_ok (l\<lparr>rw_value := 1\<rparr>)"
      by (simp_all add: rw_view_Writer rw_ok_def)
    show "\<exists>s'. shared_try_lock_exclusive s = Some (True, s') \<and> shared_rw_view s' = Writer \<and> shared_rw_ok s'"
      "\<exists>s'. shared_lock_exclusive s = Some s' \<and> shared_rw_view s' = Writer \<and> shared_rw_ok s'"
      using v take [OF new(2)] new(1)
      by (auto simp: shared_rw_defs spin_try_lock_exclusive_eq spin_lock_exclusive_ok) }
  { assume v: "shared_rw_view s \<noteq> Readers 0"
    show "\<exists>s'. shared_try_lock_exclusive s = Some (False, s') \<and> shared_rw_view s' = shared_rw_view s \<and> shared_rw_ok s'"
      using v s by (simp add: shared_rw_defs spin_try_lock_exclusive_eq)
    show "shared_lock_exclusive s = None"
      using v take [OF l] by (auto simp: shared_rw_defs spin_lock_exclusive_busy) }
qed

end
