(* ===== verification/Async_Locks.thy ===== *)
theory Async_Locks
  imports Shared_Lock_Lemmas
begin

text \<open>
  \<^verbatim>\<open>kernel_lock/src/future\<close>: the asynchronous mutex and reader-writer lock. A poll tries the raw spin
  lock once and registers its waker when it fails; dropping a guard releases the raw lock and wakes.
  The list of wakers is behind a shared mutex, whose effect on the hart is part of the state. Waking
  is a call into the executor; the model records the wakers that were woken, in order. The value
  behind the lock is not changed by the lock operations and is left out.
\<close>

section \<open>The state shared by both locks\<close>

record 'w waker_list =
  aw_world :: lock_world
  aw_guard :: RawSpinlock
  wakers :: "'w list"
  woken :: "'w list"

text \<open>One use of \<^verbatim>\<open>wakers.lock()\<close>: the guard is dropped at the end of the statement.\<close>

definition with_wakers :: "('w waker_list \<Rightarrow> ('a \<times> 'w waker_list) option) \<Rightarrow> 'w waker_list \<Rightarrow> ('a \<times> 'w waker_list) option" where
  "with_wakers f s = do {
     (w, g) \<leftarrow> shared_lock (aw_world s, aw_guard s);
     (a, s) \<leftarrow> f (s\<lparr>aw_world := w, aw_guard := g\<rparr>);
     (w, g) \<leftarrow> shared_unlock (aw_world s, aw_guard s);
     Some (a, s\<lparr>aw_world := w, aw_guard := g\<rparr>)
   }"

definition push_waker :: "'w \<Rightarrow> 'w waker_list \<Rightarrow> 'w waker_list option" where
  "push_waker waker s = map_option snd (with_wakers (\<lambda>s. Some ((), s\<lparr>wakers := wakers s @ [waker]\<rparr>)) s)"

definition wake :: "'w \<Rightarrow> 'w waker_list \<Rightarrow> 'w waker_list" where
  "wake waker s = s\<lparr>woken := woken s @ [waker]\<rparr>"

section \<open>The asynchronous mutex\<close>

type_synonym 'w async_mutex = "RawSpinlock \<times> 'w waker_list"

definition mutex_poll :: "'w \<Rightarrow> 'w async_mutex \<Rightarrow> (unit Poll \<times> 'w async_mutex) option" where
  "mutex_poll waker = (\<lambda>(locked_cell, s).
     case spin_try_lock locked_cell of
       (True, locked_cell) \<Rightarrow> Some (Ready (), locked_cell, s)
     | (False, locked_cell) \<Rightarrow> do { s \<leftarrow> push_waker waker s; Some (Pending, locked_cell, s) })"

text \<open>\<^verbatim>\<open>Vec::remove(0)\<close> panics on an empty vector.\<close>

definition remove_first_waker :: "'w waker_list \<Rightarrow> ('w \<times> 'w waker_list) option" where
  "remove_first_waker s = with_wakers (\<lambda>s. case wakers s of
       [] \<Rightarrow> None
     | waker # rest \<Rightarrow> Some (waker, s\<lparr>wakers := rest\<rparr>)) s"

definition force_unlock :: "'w async_mutex \<Rightarrow> 'w async_mutex option" where
  "force_unlock = (\<lambda>(locked_cell, s). do {
     let locked_cell = spin_unlock locked_cell;
     (waker, s) \<leftarrow> remove_first_waker s;
     Some (locked_cell, wake waker s)
   })"

section \<open>The asynchronous reader-writer lock\<close>

type_synonym 'w async_rwlock = "RawSpinRwLock \<times> 'w waker_list"

definition read_poll :: "'w \<Rightarrow> 'w async_rwlock \<Rightarrow> (unit Poll \<times> 'w async_rwlock) option" where
  "read_poll waker = (\<lambda>(cell, s). do {
     (got, cell) \<leftarrow> spin_try_lock_shared cell;
     if got then Some (Ready (), cell, s)
     else do { s \<leftarrow> push_waker waker s; Some (Pending, cell, s) }
   })"

definition write_poll :: "'w \<Rightarrow> 'w async_rwlock \<Rightarrow> (unit Poll \<times> 'w async_rwlock) option" where
  "write_poll waker = (\<lambda>(cell, s). do {
     (got, cell) \<leftarrow> spin_try_lock_exclusive cell;
     if got then Some (Ready (), cell, s)
     else do { s \<leftarrow> push_waker waker s; Some (Pending, cell, s) }
   })"

text \<open>
  The two statements at the end of a release: wake every registered waker under one guard, then
  clear the list under a second guard.
\<close>

definition wake_all :: "'w waker_list \<Rightarrow> 'w waker_list option" where
  "wake_all s = map_option snd (with_wakers (\<lambda>s. Some ((), fold wake (wakers s) s)) s)"

definition clear_wakers :: "'w waker_list \<Rightarrow> 'w waker_list option" where
  "clear_wakers s = map_option snd (with_wakers (\<lambda>s. Some ((), s\<lparr>wakers := []\<rparr>)) s)"

definition force_unlock_exclusive :: "'w async_rwlock \<Rightarrow> 'w async_rwlock option" where
  "force_unlock_exclusive = (\<lambda>(cell, s). do {
     let cell = spin_unlock_exclusive cell;
     s \<leftarrow> wake_all s;
     s \<leftarrow> clear_wakers s;
     Some (cell, s)
   })"

definition force_unlock_shared :: "'w async_rwlock \<Rightarrow> 'w async_rwlock option" where
  "force_unlock_shared = (\<lambda>(cell, s). do {
     let cell = spin_unlock_shared cell;
     s \<leftarrow> wake_all s;
     s \<leftarrow> clear_wakers s;
     Some (cell, s)
   })"

section \<open>The guard of the waker list\<close>

definition wakers_ok :: "'w waker_list \<Rightarrow> bool" where
  "wakers_ok s \<longleftrightarrow> shared_ok (aw_world s, aw_guard s) \<and> \<not> locked (aw_guard s)"

text \<open>A statement under the guard that keeps the guard's own fields.\<close>

lemma with_wakers_Some:
  assumes "wakers_ok s"
    and f: "\<And>w g. \<exists>s'. f (s\<lparr>aw_world := w, aw_guard := g\<rparr>) = Some (a, s')
      \<and> aw_world s' = w \<and> aw_guard s' = g \<and> wakers s' = ws \<and> woken s' = wk"
  shows "\<exists>s'. with_wakers f s = Some (a, s') \<and> wakers_ok s' \<and> wakers s' = ws \<and> woken s' = wk"
proof -
  from assms(1) shared_mutex.lock_free obtain w g where lk: "shared_lock (aw_world s, aw_guard s) = Some (w, g)"
    "shared_held (w, g)" "shared_ok (w, g)"
    by (fastforce simp: wakers_ok_def shared_held_def)
  from shared_mutex.unlock_held [OF lk(3,2)] obtain w' g' where ul: "shared_unlock (w, g) = Some (w', g')"
    "\<not> locked g'" "shared_ok (w', g')"
    by (auto simp: shared_held_def)
  with lk f [of g w] show ?thesis by (auto simp: with_wakers_def wakers_ok_def)
qed

lemma with_wakers_None:
  assumes "\<And>w g. f (s\<lparr>aw_world := w, aw_guard := g\<rparr>) = None"
  shows "with_wakers f s = None"
  using assms by (auto simp: with_wakers_def split: Option.bind_splits)

lemma push_waker_Some:
  assumes "wakers_ok s"
  shows "\<exists>s'. push_waker waker s = Some s' \<and> wakers_ok s' \<and> wakers s' = wakers s @ [waker] \<and> woken s' = woken s"
  using with_wakers_Some [OF assms, where f = "\<lambda>s. Some ((), s\<lparr>wakers := wakers s @ [waker]\<rparr>)"
      and ws = "wakers s @ [waker]" and wk = "woken s"]
  by (auto simp: push_waker_def)

lemma fold_wake: "fold wake ws s = s\<lparr>woken := woken s @ ws\<rparr>"
  by (induction ws arbitrary: s) (simp_all add: wake_def)

lemma wake_all_Some:
  assumes "wakers_ok s"
  shows "\<exists>s'. wake_all s = Some s' \<and> wakers_ok s' \<and> wakers s' = wakers s \<and> woken s' = woken s @ wakers s"
  using with_wakers_Some [OF assms, where f = "\<lambda>s. Some ((), fold wake (wakers s) s)"
      and ws = "wakers s" and wk = "woken s @ wakers s"]
  by (auto simp: wake_all_def fold_wake)

lemma clear_wakers_Some:
  assumes "wakers_ok s"
  shows "\<exists>s'. clear_wakers s = Some s' \<and> wakers_ok s' \<and> wakers s' = [] \<and> woken s' = woken s"
  using with_wakers_Some [OF assms, where f = "\<lambda>s. Some ((), s\<lparr>wakers := []\<rparr>)" and ws = "[]" and wk = "woken s"]
  by (auto simp: clear_wakers_def)

lemma remove_first_waker_Cons:
  assumes "wakers_ok s" "wakers s = w # ws"
  shows "\<exists>s'. remove_first_waker s = Some (w, s') \<and> wakers_ok s' \<and> wakers s' = ws \<and> woken s' = woken s"
  using with_wakers_Some [OF assms(1), where f = "\<lambda>s. case wakers s of [] \<Rightarrow> None
     | waker # rest \<Rightarrow> Some (waker, s\<lparr>wakers := rest\<rparr>)" and ws = ws and wk = "woken s"] assms(2)
  by (auto simp: remove_first_waker_def)

lemma remove_first_waker_Nil: "wakers s = [] \<Longrightarrow> remove_first_waker s = None"
  by (simp add: remove_first_waker_def with_wakers_None)

lemma release_wakers:
  assumes "wakers_ok s"
  shows "\<exists>s'. wake_all s \<bind> clear_wakers = Some s' \<and> wakers_ok s' \<and> wakers s' = []
    \<and> woken s' = woken s @ wakers s"
  using wake_all_Some [OF assms] clear_wakers_Some by fastforce

end
