(* ===== verification/Shared_Properties.thy ===== *)
theory Shared_Properties
  imports Shared_Lock_Lemmas
begin

text \<open>
  The properties of the shared, simple shared and interrupt locks.
\<close>

section \<open>Nested shared locks\<close>

text \<open>
  A hart takes and releases shared locks in any order: \<open>True\<close> stands for taking one more lock,
  \<open>False\<close> for releasing one; \<open>nesting\<close> is the number of locks held at the end.
\<close>

primrec nest_run :: "bool list \<Rightarrow> lock_world \<Rightarrow> lock_world option" where
  "nest_run [] w = Some w"
| "nest_run (e # es) w = do {
     w \<leftarrow> (if e then lock_and_disable_interrupts w else unlock_and_enable_interrupts_if_necessary w);
     nest_run es w
   }"

primrec nesting :: "bool list \<Rightarrow> nat \<Rightarrow> nat option" where
  "nesting [] d = Some d"
| "nesting (e # es) d = (if e then nesting es (Suc d) else if d = 0 then None else nesting es (d - 1))"

text \<open>The interrupts of hart \<open>i\<close> are off while it holds \<open>d > 0\<close> locks.\<close>

definition nest_inv :: "usize \<Rightarrow> nat \<Rightarrow> lock_world \<Rightarrow> bool" where
  "nest_inv i d w \<longleftrightarrow> thread_world i w \<and> unat (count_at w i) = d
     \<and> (0 < d \<longrightarrow> sie (hart w) = 0 \<and> unat i < length (hart_lock_count w))"

lemma nest_inv_take:
  assumes "nest_inv i d w" "Suc d < 2 ^ 64"
  shows "\<exists>w'. lock_and_disable_interrupts w = Some w' \<and> nest_inv i (Suc d) w'"
proof -
  from assms have w: "thread_world i w" and d: "unat (count_at w i) = d" by (auto simp: nest_inv_def)
  have "unat (count_at w i + 1) = Suc d"
    using unat_add_no_overflow [of "count_at w i" 1] d assms(2) by simp
  with lock_and_disable_thread [OF w] show ?thesis by (auto simp: nest_inv_def)
qed

lemma nest_inv_release:
  assumes "nest_inv i d w" "0 < d"
  shows "\<exists>w'. unlock_and_enable_interrupts_if_necessary w = Some w' \<and> nest_inv i (d - 1) w'
    \<and> sie (hart w') = (if d = 1 then 0x222 else 0)"
proof -
  from assms have w: "thread_world i w" "unat i < length (hart_lock_count w)"
    and d: "unat (count_at w i) = d" "sie (hart w) = 0"
    by (auto simp: nest_inv_def)
  have one: "count_at w i = 1 \<longleftrightarrow> d = 1"
    using d(1) by (auto simp: word_unat_eq_iff)
  have "unat (count_at w i - 1) = d - 1"
    using d(1) assms(2) by (subst unat_sub) (auto simp: word_le_nat_alt)
  with unlock_and_enable_thread [OF w] d w(2) one show ?thesis by (auto simp: nest_inv_def)
qed

lemma nest_run_inv:
  assumes "nest_inv i d w" "d + length es < 2 ^ 64" "nesting es d = Some d'"
  shows "\<exists>w'. nest_run es w = Some w' \<and> nest_inv i d' w'
    \<and> (es \<noteq> [] \<longrightarrow> sie (hart w') = (if d' = 0 then 0x222 else 0))"
  using assms
proof (induction es arbitrary: d w)
  case Nil
  then show ?case by simp
next
  case (Cons e es)
  show ?case
  proof (cases e)
    case True
    with Cons.prems nest_inv_take [of i d w] obtain w1 where w1:
      "lock_and_disable_interrupts w = Some w1" "nest_inv i (Suc d) w1" by auto
    from Cons.IH [OF w1(2)] Cons.prems(2,3) True obtain w' where
      "nest_run es w1 = Some w'" "nest_inv i d' w'"
      "es \<noteq> [] \<longrightarrow> sie (hart w') = (if d' = 0 then 0x222 else 0)" by auto
    with w1 True Cons.prems(3) show ?thesis by (cases es) (auto simp: nest_inv_def)
  next
    case False
    with Cons.prems have d: "0 < d" "nesting es (d - 1) = Some d'" by (auto split: if_splits)
    from nest_inv_release [OF Cons.prems(1) d(1)] obtain w1 where w1:
      "unlock_and_enable_interrupts_if_necessary w = Some w1" "nest_inv i (d - 1) w1"
      "sie (hart w1) = (if d = 1 then 0x222 else 0)" by blast
    have "d - 1 + length es < 2 ^ 64" using Cons.prems(2) by simp
    from Cons.IH [OF w1(2) this d(2)] obtain w' where
      "nest_run es w1 = Some w'" "nest_inv i d' w'"
      "es \<noteq> [] \<longrightarrow> sie (hart w') = (if d' = 0 then 0x222 else 0)" by auto
    with w1 False d show ?thesis by (cases es) auto
  qed
qed

text \<open>
  C16. A hart outside interrupt context that takes and releases shared locks in any balanced order
  never panics; its lock count is the number of locks it holds; its interrupts are all disabled
  while it holds one and are \<^verbatim>\<open>0x222\<close> after it has released the last one. The hypothesis is needed: inside interrupt context the locks
  do not touch the interrupts, and the frame that \<^verbatim>\<open>setup_hart\<close> gives a hart is of that kind.
\<close>

theorem shared_nesting:
  assumes "thread_world i w" and "count_at w i = 0" and "es \<noteq> []" and "length es < 2 ^ 64"
    and "nesting es 0 = Some d"
  shows "\<exists>w'. nest_run es w = Some w' \<and> unat (count_at w' i) = d
    \<and> sie (hart w') = (if d = 0 then 0x222 else 0)"
  using nest_run_inv [of i 0 w es d] assms by (auto simp: nest_inv_def)

definition demo_world :: lock_world where
  "demo_world =
     \<lparr>hart = \<lparr>sie = 0x222, sip = 0, stvec = 0, satp = 0, sstatus = 0, sscratch = 0x1000, stval = 0,
        scause = 0, time = 0, frames = [0x1000 \<mapsto> trap_frame_zeroed\<lparr>hartid := 3\<rparr>]\<rparr>,
      count_guard = spin_rwlock_INIT, hart_lock_count = []\<rparr>"

lemma demo_thread_world: "thread_world 3 demo_world" "count_at demo_world i = 0"
  by (simp_all add: thread_world_def demo_world_def in_interrupt_context_def read_sscratch_def
      current_frame_def load_hartid_def is_interrupt_context_def trap_frame_zeroed_def count_at_def)

theorem shared_nesting_witness:
  "\<exists>w'. nest_run [True, True, False, True] demo_world = Some w' \<and> unat (count_at w' 3) = 2
    \<and> sie (hart w') = 0"
  using shared_nesting [OF demo_thread_world, of "[True, True, False, True]" 2] by simp

text \<open>
  Every sequence of calls that the contract of a mutex allows gives on the shared mutex the
  results the contract says; in particular a second blocking \<^verbatim>\<open>lock\<close> by the same hart never
  returns.
\<close>

theorem shared_mutex_refines_contract:
  assumes "shared_ok s" and "run_calls mutex_spec_step cs (shared_held s) = Some (rs, h)"
  shows "(\<exists>s'. run_calls (mutex_exec shared_lock shared_try_lock shared_unlock) cs s = Some (rs, s')
      \<and> shared_held s' = h \<and> shared_ok s')
    \<and> (\<forall>s1. shared_lock s = Some s1 \<longrightarrow> shared_lock s1 = None)"
  using shared_mutex.run_refines [OF assms] shared_mutex.relock_deadlocks [OF assms(1)] by blast

theorem shared_mutex_refines_contract_witness:
  "\<exists>s'. run_calls (mutex_exec shared_lock shared_try_lock shared_unlock) [Lock, TryLock, Unlock, TryLock]
      (demo_world, spinlock_INIT) = Some ([True, False, True, True], s') \<and> shared_held s'"
proof -
  have "shared_ok (demo_world, spinlock_INIT)"
    using demo_thread_world by (auto simp: shared_ok_def world_ok_def spinlock_INIT_def)
  moreover have "run_calls mutex_spec_step [Lock, TryLock, Unlock, TryLock]
      (shared_held (demo_world, spinlock_INIT)) = Some ([True, False, True, True], True)"
    by (simp add: shared_held_def spinlock_INIT_def)
  ultimately show ?thesis
    using shared_mutex_refines_contract [of "(demo_world, spinlock_INIT)"
        "[Lock, TryLock, Unlock, TryLock]" "[True, False, True, True]" True] by blast
qed

section \<open>The simple shared mutex\<close>

lemma simple_try_lock_eq [kernel_step]:
  "simple_try_lock (h, l) =
     (if locked (internal_lock l) then (False, h, l)
      else (True, write_sie 0 h, l\<lparr>internal_lock := (internal_lock l)\<lparr>locked := True\<rparr>, old_sie := sie h\<rparr>))"
  by (cases l) (simp add: simple_try_lock_def spin_try_lock_eq read_sie_def)

lemma simple_lock_free [kernel_step]:
  "\<not> locked (internal_lock l) \<Longrightarrow> simple_lock (h, l) =
     Some (write_sie 0 h, l\<lparr>internal_lock := (internal_lock l)\<lparr>locked := True\<rparr>, old_sie := sie h\<rparr>)"
  by (subst simple_lock.simps) (simp add: simple_try_lock_eq)

lemma simple_lock_returns:
  assumes "simple_lock s = Some s'" shows "\<not> locked (internal_lock (snd s))"
proof (rule simple_lock.raw_induct [where P = "\<lambda>s _. \<not> locked (internal_lock (snd s))", OF _ assms])
  fix f s s'
  assume ih: "\<And>s s'. f s = Some s' \<Longrightarrow> \<not> locked (internal_lock (snd s))"
    and "(if fst (simple_try_lock s) then Some (snd (simple_try_lock s)) else f (snd (simple_try_lock s)))
      = Some s'"
  then show "\<not> locked (internal_lock (snd s))"
    using ih [of s s'] by (cases s) (auto simp: simple_try_lock_eq split: if_splits)
qed

interpretation simple_mutex: raw_mutex "\<lambda>s. locked (internal_lock (snd s))" "\<lambda>_. True"
  simple_lock "Some \<circ> simple_try_lock" "Some \<circ> simple_unlock"
proof unfold_locales
  fix s :: "Hart \<times> SimpleSharedLock"
  assume "locked (internal_lock (snd s))"
  then show "simple_lock s = None" using simple_lock_returns by (cases "simple_lock s") auto
qed (auto simp: kernel_step simple_unlock_def simple_unlock_restore_def simple_unlock_release_def spin_unlock_def)

text \<open>
  Releasing the simple shared mutex gives the hart back the interrupt-enable bits it had when
  it took the mutex, and interrupts are off in between; but the release is two accesses, and when
  another hart takes the mutex between them, the first hart restores the bits of the other one.
\<close>

theorem simple_shared_sie:
  assumes "\<not> locked (internal_lock l)"
  shows "\<exists>h1 l1. simple_lock (h, l) = Some (h1, l1) \<and> sie h1 = 0
    \<and> fst (simple_unlock (h1, l1)) = h
    \<and> (\<exists>g1 l2. simple_try_lock (g, simple_unlock_release l1) = (True, g1, l2)
        \<and> sie (fst (simple_unlock_restore (h1, l2))) = sie g)"
  using assms
  by (cases h) (auto simp: kernel_step simple_unlock_def simple_unlock_restore_def
      simple_unlock_release_def spin_unlock_def write_sie_def)

theorem simple_shared_sie_witness:
  "\<exists>h1 l1. simple_lock (hart demo_world, simple_shared_INIT) = Some (h1, l1) \<and> sie h1 = 0
    \<and> fst (simple_unlock (h1, l1)) = hart demo_world"
  using simple_shared_sie [of simple_shared_INIT "hart demo_world"]
  by (fastforce simp: simple_shared_INIT_def spinlock_INIT_def)

section \<open>The interrupt locks\<close>

definition interrupt_ok :: "Hart \<times> 'l \<Rightarrow> bool" where
  "interrupt_ok s \<longleftrightarrow> in_interrupt_context (fst s) = Some True"

interpretation interrupt_mutex: raw_mutex "\<lambda>s. locked (snd s)" interrupt_ok
  interrupt_lock interrupt_try_lock interrupt_unlock
  by unfold_locales
    (auto simp: kernel_step interrupt_ok_def interrupt_lock_def interrupt_try_lock_def interrupt_unlock_def
      assert_interrupt_def assert_that_def spin_unlock_def split: prod.splits)

text \<open>
  C38. The exclusive side of the interrupt reader-writer lock breaks the contract: \<^verbatim>\<open>lock_exclusive\<close>
  takes the lock shared, so that two exclusive holders get in, and after one \<^verbatim>\<open>lock_exclusive\<close> and
  \<^verbatim>\<open>unlock_exclusive\<close> of a fresh lock the cell is \<open>1\<close> and every later blocking call hangs.
\<close>

theorem interrupt_rwlock_exclusive_broken:
  assumes "in_interrupt_context h = Some True"
  shows "(\<exists>s1 s2. interrupt_lock_exclusive (h, spin_rwlock_INIT) = Some s1 \<and> interrupt_lock_exclusive s1 = Some s2)
    \<and> (\<exists>s1 s2. interrupt_lock_exclusive (h, spin_rwlock_INIT) = Some s1
        \<and> interrupt_unlock_exclusive s1 = Some s2 \<and> rw_value (snd s2) = 1
        \<and> interrupt_lock_shared s2 = None \<and> interrupt_lock_exclusive s2 = None)"
proof -
  have lim: "0 < reader_limit" "Suc 0 < reader_limit" by (simp_all add: reader_limit_def)
  have v: "rw_view \<lparr>rw_value = 0\<rparr> = Readers 0" "rw_view \<lparr>rw_value = 2\<rparr> = Readers (Suc 0)"
    "rw_view \<lparr>rw_value = 1\<rparr> = Writer"
    by (simp_all add: rw_view_Readers rw_view_Writer)
  note step = spin_lock_shared_ok [OF v(1) lim(1)] spin_lock_shared_ok [OF v(2) lim(2)]
    spin_lock_shared_busy [OF v(3)]
  show ?thesis
    using assms step
    by (simp add: interrupt_lock_exclusive_def interrupt_unlock_exclusive_def interrupt_lock_shared_def
        assert_interrupt_def assert_that_def spin_rwlock_INIT_def spin_unlock_exclusive_def)
qed

theorem interrupt_rwlock_exclusive_broken_witness:
  "\<exists>h s1 s2. interrupt_lock_exclusive (h, spin_rwlock_INIT) = Some s1 \<and> interrupt_lock_exclusive s1 = Some s2"
proof -
  have "in_interrupt_context ((hart demo_world)\<lparr>sscratch := 0\<rparr>) = Some True"
    by (simp add: in_interrupt_context_def read_sscratch_def)
  from interrupt_rwlock_exclusive_broken [OF this] show ?thesis by blast
qed

end
