(* ===== verification/Async_Properties.thy ===== *)
theory Async_Properties
  imports Async_Locks Shared_Properties
begin

text \<open>The properties of the asynchronous mutex and reader-writer lock.\<close>

section \<open>Waiting for the mutex\<close>

definition wait_for :: "'w \<Rightarrow> 'w async_mutex \<Rightarrow> 'w async_mutex option" where
  "wait_for waker m = do {
     (r, m) \<leftarrow> mutex_poll waker m;
     assert_that (r = Pending);
     Some m
   }"

text \<open>The holder drops its guard and the task that is woken polls again and gets the mutex.\<close>

definition hand_over :: "'w \<Rightarrow> 'w async_mutex \<Rightarrow> 'w async_mutex option" where
  "hand_over waker m = do {
     m \<leftarrow> force_unlock m;
     assert_that (last (woken (snd m)) = waker);
     (r, m) \<leftarrow> mutex_poll waker m;
     assert_that (r = Ready ());
     Some m
   }"

definition contended :: "'w list \<Rightarrow> 'w list \<Rightarrow> 'w async_mutex \<Rightarrow> bool" where
  "contended ws wk m \<longleftrightarrow> locked (fst m) \<and> wakers_ok (snd m) \<and> wakers (snd m) = ws \<and> woken (snd m) = wk"

lemma wait_for_contended:
  assumes "contended ws wk m" shows "\<exists>m'. wait_for w m = Some m' \<and> contended (ws @ [w]) wk m'"
  using assms push_waker_Some [of "snd m" w]
  by (cases m) (auto simp: contended_def wait_for_def mutex_poll_def spin_try_lock_eq assert_that_def)

lemma hand_over_contended:
  assumes "contended (w # ws) wk m" shows "\<exists>m'. hand_over w m = Some m' \<and> contended ws (wk @ [w]) m'"
proof -
  obtain c s where m: "m = (c, s)" by (cases m)
  from assms m have s: "wakers_ok s" "wakers s = w # ws" "woken s = wk" by (simp_all add: contended_def)
  from remove_first_waker_Cons [OF s(1,2)] obtain s' where
    s': "remove_first_waker s = Some (w, s')" "wakers_ok s'" "wakers s' = ws" "woken s' = wk"
    using s(3) by auto
  have "wakers_ok (wake w s')" using s'(2) by (simp add: wakers_ok_def wake_def)
  with m s' show ?thesis
    by (simp add: hand_over_def force_unlock_def mutex_poll_def spin_try_lock_eq spin_unlock_def
        contended_def assert_that_def wake_def)
qed

lemma wait_for_all:
  "contended ws wk m \<Longrightarrow> \<exists>m'. foldM wait_for vs m = Some m' \<and> contended (ws @ vs) wk m'"
proof (induction vs arbitrary: ws m)
  case (Cons v vs)
  from wait_for_contended [OF Cons.prems] obtain m1 where
    "wait_for v m = Some m1" "contended (ws @ [v]) wk m1" by blast
  with Cons.IH [of "ws @ [v]" m1] show ?case by simp
qed simp

lemma hand_over_all:
  "contended ws wk m \<Longrightarrow> \<exists>m'. foldM hand_over ws m = Some m' \<and> contended [] (wk @ ws) m'"
proof (induction ws arbitrary: wk m)
  case (Cons w ws)
  from hand_over_contended [OF Cons.prems] obtain m1 where
    "hand_over w m = Some m1" "contended ws (wk @ [w]) m1" by blast
  with Cons.IH [of "wk @ [w]" m1] show ?case by simp
qed simp

lemma force_unlock_no_waiters: "wakers (snd m) = [] \<Longrightarrow> force_unlock m = None"
  by (cases m) (simp add: force_unlock_def remove_first_waker_Nil)

text \<open>
  C18. Tasks that poll a locked asynchronous mutex all stay pending; each release then wakes the one
  that has waited longest, which gets the mutex at its next poll, so the tasks are served in the
  order in which they polled. When the last of them drops its guard, and nobody waits any more, the
  release panics (\<^verbatim>\<open>remove(0)\<close> of an empty vector).
\<close>

theorem async_mutex_fifo:
  assumes "wakers_ok s" and "wakers s = []" and "locked cell"
  shows "\<exists>m1 m2. foldM wait_for ws (cell, s) = Some m1 \<and> foldM hand_over ws m1 = Some m2
    \<and> locked (fst m2) \<and> woken (snd m2) = woken s @ ws \<and> force_unlock m2 = None"
proof -
  have "contended [] (woken s) (cell, s)" using assms by (simp add: contended_def)
  from wait_for_all [OF this, of ws] obtain m1 where
    m1: "foldM wait_for ws (cell, s) = Some m1" "contended ws (woken s) m1" by auto
  from hand_over_all [OF m1(2)] obtain m2 where
    m2: "foldM hand_over ws m1 = Some m2" "contended [] (woken s @ ws) m2" by auto
  then have "locked (fst m2) \<and> woken (snd m2) = woken s @ ws \<and> force_unlock m2 = None"
    using force_unlock_no_waiters [of m2] by (simp add: contended_def)
  with m1(1) m2(1) show ?thesis by blast
qed

definition demo_wakers :: "nat waker_list" where
  "demo_wakers = \<lparr>aw_world = demo_world, aw_guard = spinlock_INIT, wakers = [], woken = []\<rparr>"

lemma demo_wakers_ok: "wakers_ok demo_wakers" "wakers demo_wakers = []" "woken demo_wakers = []"
  using demo_thread_world
  by (auto simp: wakers_ok_def demo_wakers_def shared_ok_def world_ok_def spinlock_INIT_def)

theorem async_mutex_fifo_witness:
  "\<exists>m1 m2. foldM wait_for [5, 7] (\<lparr>locked = True, locker_hartid = NO_HART\<rparr>, demo_wakers) = Some m1
    \<and> foldM hand_over [5, 7] m1 = Some m2 \<and> woken (snd m2) = [5, 7] \<and> force_unlock m2 = None"
  using async_mutex_fifo [OF demo_wakers_ok(1,2), of "\<lparr>locked = True, locker_hartid = NO_HART\<rparr>" "[5, 7]"]
  by (auto simp: demo_wakers_ok(3))

section \<open>Releasing the reader-writer lock\<close>

text \<open>
  Releasing the asynchronous reader-writer lock, by the writer or by a reader, succeeds, wakes
  every registered task once in the order of registration and leaves no waker registered; but a
  task that registers between the two statements of the release is dropped from the list without
  being woken.
\<close>

theorem async_rwlock_release:
  assumes "wakers_ok s" and "rw_ok cell"
  shows "(rw_view cell = Writer \<longrightarrow> (\<exists>cell' s'. force_unlock_exclusive (cell, s) = Some (cell', s')
        \<and> rw_view cell' = Readers 0 \<and> wakers s' = [] \<and> woken s' = woken s @ wakers s))
    \<and> (rw_view cell = Readers (Suc n) \<longrightarrow> (\<exists>cell' s'. force_unlock_shared (cell, s) = Some (cell', s')
        \<and> rw_view cell' = Readers n \<and> wakers s' = [] \<and> woken s' = woken s @ wakers s))
    \<and> (\<exists>s1 s2 s3. wake_all s = Some s1 \<and> push_waker w s1 = Some s2 \<and> clear_wakers s2 = Some s3
        \<and> wakers s3 = [] \<and> woken s3 = woken s @ wakers s)"
proof -
  from wake_all_Some [OF assms(1)] obtain s1 where s1: "wake_all s = Some s1" "wakers_ok s1"
    "woken s1 = woken s @ wakers s" by blast
  from clear_wakers_Some [OF s1(2)] obtain s2 where s2: "clear_wakers s1 = Some s2"
    "wakers s2 = []" "woken s2 = woken s @ wakers s" using s1(3) by auto
  from push_waker_Some [OF s1(2), of w] obtain s3 where s3: "push_waker w s1 = Some s3" "wakers_ok s3"
    "woken s3 = woken s @ wakers s" using s1(3) by auto
  from clear_wakers_Some [OF s3(2)] s3(3) obtain s4 where s4: "clear_wakers s3 = Some s4"
    "wakers s4 = []" "woken s4 = woken s @ wakers s" by auto
  show ?thesis
    using s1 s2 s3 s4 spin_unlock_exclusive_view [OF assms(2)] spin_unlock_shared_view [of cell n]
    by (auto simp: force_unlock_exclusive_def force_unlock_shared_def)
qed

theorem async_rwlock_release_witness:
  "\<exists>cell' s'. force_unlock_exclusive (\<lparr>rw_value = 1\<rparr>, demo_wakers\<lparr>wakers := [4, 9]\<rparr>) = Some (cell', s')
     \<and> rw_view cell' = Readers 0 \<and> wakers s' = [] \<and> woken s' = [4, 9]"
proof -
  have "wakers_ok (demo_wakers\<lparr>wakers := [4, 9]\<rparr>)" using demo_wakers_ok(1) by (simp add: wakers_ok_def)
  moreover have "rw_ok \<lparr>rw_value = 1\<rparr>" "rw_view \<lparr>rw_value = 1\<rparr> = Writer"
    by (simp_all add: rw_ok_def rw_view_Writer)
  ultimately show ?thesis
    using async_rwlock_release [of "demo_wakers\<lparr>wakers := [4, 9]\<rparr>" "\<lparr>rw_value = 1\<rparr>"]
    by (simp add: demo_wakers_ok(3))
qed

end
