(* ===== verification/Async_Guards.thy ===== *)
theory Async_Guards
  imports Async_Properties
begin

text \<open>
  \<^verbatim>\<open>kernel_lock/src/future\<close>, the value behind the locks: \<^verbatim>\<open>AsyncRwLock<T>\<close> and \<^verbatim>\<open>AsyncMutex<T>\<close>, their guards
  and the tasks that use them. A future and a guard hold a reference to the lock and nothing else, so
  they are the phase of the task that owns them. Two step relations run any number of tasks on one
  lock: in \<open>guard_step\<close> a task can be interrupted by the others between any two accesses to shared
  state (tasks on several harts), in \<open>task_step\<close> each poll and each release is one step (tasks of one
  executor). The statements under the guard of the waker list are atomic in both, since the list is
  behind a mutex.
\<close>

section \<open>The locks with their values\<close>

record ('w, 'v) AsyncRwLock =
  rwlock_lock :: "'w async_rwlock"
  rwlock_value :: 'v

definition raw_wakers_new :: "lock_world \<Rightarrow> 'w waker_list" where
  "raw_wakers_new w = \<lparr>aw_world = w, aw_guard = spinlock_INIT, wakers = [], woken = []\<rparr>"

definition raw_async_rwlock_new :: "lock_world \<Rightarrow> 'w async_rwlock" where
  "raw_async_rwlock_new w = (spin_rwlock_INIT, raw_wakers_new w)"

definition async_rwlock_new :: "lock_world \<Rightarrow> 'v \<Rightarrow> ('w, 'v) AsyncRwLock" where
  "async_rwlock_new w v = \<lparr>rwlock_lock = raw_async_rwlock_new w, rwlock_value = v\<rparr>"

definition async_rwlock_default :: "'v \<Rightarrow> lock_world \<Rightarrow> ('w, 'v) AsyncRwLock" where
  "async_rwlock_default T_default w = async_rwlock_new w T_default"

definition rwlock_into_inner :: "('w, 'v) AsyncRwLock \<Rightarrow> 'v" where
  "rwlock_into_inner self = rwlock_value self"

text \<open>A use of the exclusive reference that \<^verbatim>\<open>get_mut\<close> returns.\<close>

definition rwlock_get_mut :: "('v \<Rightarrow> 'v) \<Rightarrow> ('w, 'v) AsyncRwLock \<Rightarrow> ('w, 'v) AsyncRwLock" where
  "rwlock_get_mut f self = self\<lparr>rwlock_value := f (rwlock_value self)\<rparr>"

text \<open>The guards: both dereference to the value, the write guard also mutably; dropping releases.\<close>

definition read_guard_deref :: "('w, 'v) AsyncRwLock \<Rightarrow> 'v" where
  "read_guard_deref rwlock = rwlock_value rwlock"

definition write_guard_deref :: "('w, 'v) AsyncRwLock \<Rightarrow> 'v" where
  "write_guard_deref rwlock = rwlock_value rwlock"

definition write_guard_deref_mut :: "('v \<Rightarrow> 'v) \<Rightarrow> ('w, 'v) AsyncRwLock \<Rightarrow> ('w, 'v) AsyncRwLock" where
  "write_guard_deref_mut f rwlock = rwlock\<lparr>rwlock_value := f (rwlock_value rwlock)\<rparr>"

definition with_raw :: "('w async_rwlock \<Rightarrow> ('a \<times> 'w async_rwlock) option) \<Rightarrow> ('w, 'v) AsyncRwLock
    \<Rightarrow> ('a \<times> ('w, 'v) AsyncRwLock) option" where
  "with_raw f rwlock = do { (a, raw) \<leftarrow> f (rwlock_lock rwlock); Some (a, rwlock\<lparr>rwlock_lock := raw\<rparr>) }"

definition read_guard_drop :: "('w, 'v) AsyncRwLock \<Rightarrow> ('w, 'v) AsyncRwLock option" where
  "read_guard_drop rwlock = map_option snd (with_raw (\<lambda>raw. map_option (Pair ()) (force_unlock_shared raw)) rwlock)"

definition write_guard_drop :: "('w, 'v) AsyncRwLock \<Rightarrow> ('w, 'v) AsyncRwLock option" where
  "write_guard_drop rwlock = map_option snd (with_raw (\<lambda>raw. map_option (Pair ()) (force_unlock_exclusive raw)) rwlock)"

record ('w, 'v) AsyncMutex =
  mutex_lock :: "'w async_mutex"
  mutex_value :: 'v

definition raw_async_mutex_new :: "lock_world \<Rightarrow> 'w async_mutex" where
  "raw_async_mutex_new w = (spinlock_INIT, raw_wakers_new w)"

definition async_mutex_new :: "lock_world \<Rightarrow> 'v \<Rightarrow> ('w, 'v) AsyncMutex" where
  "async_mutex_new w v = \<lparr>mutex_lock = raw_async_mutex_new w, mutex_value = v\<rparr>"

definition mutex_guard_deref :: "('w, 'v) AsyncMutex \<Rightarrow> 'v" where
  "mutex_guard_deref mutex = mutex_value mutex"

definition mutex_guard_deref_mut :: "('v \<Rightarrow> 'v) \<Rightarrow> ('w, 'v) AsyncMutex \<Rightarrow> ('w, 'v) AsyncMutex" where
  "mutex_guard_deref_mut f mutex = mutex\<lparr>mutex_value := f (mutex_value mutex)\<rparr>"

definition mutex_guard_drop :: "('w, 'v) AsyncMutex \<Rightarrow> ('w, 'v) AsyncMutex option" where
  "mutex_guard_drop mutex = do { m \<leftarrow> force_unlock (mutex_lock mutex); Some (mutex\<lparr>mutex_lock := m\<rparr>) }"

section \<open>Tasks\<close>

datatype access = Shared | Exclusive

text \<open>
  A task is outside, about to poll its future, about to register its waker after a failed attempt,
  parked until it is woken, or owns a guard; a released guard still has to wake the registered tasks
  and then to clear their list. A guard carries the value that its owner has seen last.
\<close>

datatype 'v task = Outside | Polling access | Registering access | Parked access | Guard access 'v
  | WakingAll | ClearingAll

record 'v async_system =
  as_lock :: "(nat, 'v) AsyncRwLock"
  as_tasks :: "'v task list"

text \<open>\<^verbatim>\<open>read\<close> and \<^verbatim>\<open>write\<close> only create the future.\<close>

definition rwlock_read :: "'v task" where "rwlock_read = Polling Shared"

definition rwlock_write :: "'v task" where "rwlock_write = Polling Exclusive"

fun future_of :: "access \<Rightarrow> 'v task" where
  "future_of Shared = rwlock_read"
| "future_of Exclusive = rwlock_write"

fun raw_try_lock :: "access \<Rightarrow> RawSpinRwLock \<Rightarrow> (bool \<times> RawSpinRwLock) option" where
  "raw_try_lock Shared = spin_try_lock_shared"
| "raw_try_lock Exclusive = spin_try_lock_exclusive"

fun raw_unlock :: "access \<Rightarrow> RawSpinRwLock \<Rightarrow> RawSpinRwLock" where
  "raw_unlock Shared = spin_unlock_shared"
| "raw_unlock Exclusive = spin_unlock_exclusive"

fun future_poll :: "access \<Rightarrow> 'w \<Rightarrow> 'w async_rwlock \<Rightarrow> (unit Poll \<times> 'w async_rwlock) option" where
  "future_poll Shared = read_poll"
| "future_poll Exclusive = write_poll"

fun guard_drop :: "access \<Rightarrow> ('w, 'v) AsyncRwLock \<Rightarrow> ('w, 'v) AsyncRwLock option" where
  "guard_drop Shared = read_guard_drop"
| "guard_drop Exclusive = write_guard_drop"

fun guard_deref :: "access \<Rightarrow> ('w, 'v) AsyncRwLock \<Rightarrow> 'v" where
  "guard_deref Shared = read_guard_deref"
| "guard_deref Exclusive = write_guard_deref"

text \<open>The next access of task \<open>i\<close>; the waker of a task is its number. A task that owns a guard drops it.\<close>

fun task_access :: "nat \<Rightarrow> 'v task \<Rightarrow> (nat, 'v) AsyncRwLock \<Rightarrow> ('v task \<times> (nat, 'v) AsyncRwLock) option" where
  "task_access i Outside l = Some (Outside, l)"
| "task_access i (Polling a) l = with_raw (\<lambda>(cell, s). do {
     (got, cell) \<leftarrow> raw_try_lock a cell;
     Some (if got then Guard a (guard_deref a l) else Registering a, cell, s) }) l"
| "task_access i (Registering a) l = with_raw (\<lambda>(cell, s). do { s \<leftarrow> push_waker i s; Some (Parked a, cell, s) }) l"
| "task_access i (Parked a) l = with_raw (\<lambda>(cell, s).
     if i \<in> set (woken s) then Some (Polling a, cell, s\<lparr>woken := remove1 i (woken s)\<rparr>)
     else Some (Parked a, cell, s)) l"
| "task_access i (Guard a v) l = with_raw (\<lambda>(cell, s). Some (WakingAll, raw_unlock a cell, s)) l"
| "task_access i WakingAll l = with_raw (\<lambda>(cell, s). do { s \<leftarrow> wake_all s; Some (ClearingAll, cell, s) }) l"
| "task_access i ClearingAll l = with_raw (\<lambda>(cell, s). do { s \<leftarrow> clear_wakers s; Some (Outside, cell, s) }) l"

inductive guard_step :: "'v async_system \<Rightarrow> 'v async_system \<Rightarrow> bool" where
  g_call: "i < length (as_tasks s) \<Longrightarrow> as_tasks s ! i = Outside \<Longrightarrow>
     guard_step s (s\<lparr>as_tasks := (as_tasks s)[i := future_of a]\<rparr>)"
| g_access: "i < length (as_tasks s) \<Longrightarrow> task_access i (as_tasks s ! i) (as_lock s) = Some (p, l) \<Longrightarrow>
     guard_step s \<lparr>as_lock = l, as_tasks = (as_tasks s)[i := p]\<rparr>"
| g_update: "i < length (as_tasks s) \<Longrightarrow> as_tasks s ! i = Guard Exclusive v \<Longrightarrow>
     l = write_guard_deref_mut f (as_lock s) \<Longrightarrow>
     guard_step s \<lparr>as_lock = l, as_tasks = (as_tasks s)[i := Guard Exclusive (write_guard_deref l)]\<rparr>"

lemma future_of_eq [simp]: "future_of a = Polling a"
  by (cases a) (simp_all add: rwlock_read_def rwlock_write_def)

lemmas guard_step_intros = guard_step.intros [unfolded future_of_eq]

inductive_cases guard_stepE: "guard_step s s'"

text \<open>The same system, with every poll and every release as one step.\<close>

fun task_run :: "nat \<Rightarrow> 'v task \<Rightarrow> (nat, 'v) AsyncRwLock \<Rightarrow> ('v task \<times> (nat, 'v) AsyncRwLock) option" where
  "task_run i (Polling a) l = do {
     (r, l) \<leftarrow> with_raw (future_poll a i) l;
     Some (case r of Ready _ \<Rightarrow> Guard a (guard_deref a l) | Pending \<Rightarrow> Parked a, l) }"
| "task_run i (Guard a v) l = do { l \<leftarrow> guard_drop a l; Some (Outside, l) }"
| "task_run i p l = task_access i p l"

inductive task_step :: "'v async_system \<Rightarrow> 'v async_system \<Rightarrow> bool" where
  t_call: "i < length (as_tasks s) \<Longrightarrow> as_tasks s ! i = Outside \<Longrightarrow>
     task_step s (s\<lparr>as_tasks := (as_tasks s)[i := future_of a]\<rparr>)"
| t_run: "i < length (as_tasks s) \<Longrightarrow> task_run i (as_tasks s ! i) (as_lock s) = Some (p, l) \<Longrightarrow>
     task_step s \<lparr>as_lock = l, as_tasks = (as_tasks s)[i := p]\<rparr>"
| t_update: "i < length (as_tasks s) \<Longrightarrow> as_tasks s ! i = Guard Exclusive v \<Longrightarrow>
     l = write_guard_deref_mut f (as_lock s) \<Longrightarrow>
     task_step s \<lparr>as_lock = l, as_tasks = (as_tasks s)[i := Guard Exclusive (write_guard_deref l)]\<rparr>"

inductive_cases task_stepE: "task_step s s'"

definition async_start :: "lock_world \<Rightarrow> 'v \<Rightarrow> nat \<Rightarrow> 'v async_system" where
  "async_start w v n = \<lparr>as_lock = async_rwlock_new w v, as_tasks = replicate n Outside\<rparr>"

section \<open>The invariant of all interleavings\<close>

fun holds :: "access \<Rightarrow> 'v task \<Rightarrow> bool" where
  "holds a (Guard b v) \<longleftrightarrow> a = b"
| "holds a _ \<longleftrightarrow> False"

abbreviation guards :: "access \<Rightarrow> 'v async_system \<Rightarrow> nat" where
  "guards a s \<equiv> count_if (holds a) (as_tasks s)"

fun sees :: "'v \<Rightarrow> 'v task \<Rightarrow> bool" where
  "sees x (Guard b v) \<longleftrightarrow> v = x"
| "sees x _ \<longleftrightarrow> True"

text \<open>The lock stands for the guards: \<open>r\<close> readers and \<open>w\<close> writers, its waker list can be used.\<close>

definition lock_inv :: "nat \<Rightarrow> nat \<Rightarrow> (nat, 'v) AsyncRwLock \<Rightarrow> bool" where
  "lock_inv r w l \<longleftrightarrow> rw_ok (fst (rwlock_lock l)) \<and> wakers_ok (snd (rwlock_lock l))
     \<and> rw_view (fst (rwlock_lock l)) = (if w = 0 then Readers r else Writer)
     \<and> (w = 0 \<or> w = 1 \<and> r = 0)"

definition guard_inv :: "nat \<Rightarrow> 'v async_system \<Rightarrow> bool" where
  "guard_inv n s \<longleftrightarrow> length (as_tasks s) = n
     \<and> lock_inv (guards Shared s) (guards Exclusive s) (as_lock s)
     \<and> (\<forall>p\<in>set (as_tasks s). sees (rwlock_value (as_lock s)) p)"

lemma guard_inv_start [kernel_inv]:
  assumes "wakers_ok (raw_wakers_new w :: nat waker_list)"
  shows "guard_inv n (async_start w v n)"
  using assms
  by (simp add: guard_inv_def async_start_def lock_inv_def async_rwlock_new_def raw_async_rwlock_new_def
      rw_ok_def spin_rwlock_INIT_def rw_view_Readers)

text \<open>A task changes its phase and the lock: the counts of guards change with the phase.\<close>

lemma guard_inv_update:
  assumes inv: "guard_inv n s" and i: "i < length (as_tasks s)"
    and l: "lock_inv r w l" and v: "rwlock_value l = rwlock_value (as_lock s)"
    and r: "r + of_bool (holds Shared (as_tasks s ! i)) = guards Shared s + of_bool (holds Shared p)"
    and w: "w + of_bool (holds Exclusive (as_tasks s ! i)) = guards Exclusive s + of_bool (holds Exclusive p)"
    and p: "sees (rwlock_value (as_lock s)) p"
  shows "guard_inv n \<lparr>as_lock = l, as_tasks = (as_tasks s)[i := p]\<rparr>"
proof -
  let ?s = "\<lparr>as_lock = l, as_tasks = (as_tasks s)[i := p]\<rparr>"
  have "guards Shared ?s = r" "guards Exclusive ?s = w"
    using count_if_update [OF i, of "holds Shared" p] count_if_update [OF i, of "holds Exclusive" p] r w by simp_all
  then show ?thesis
    using inv l v update_ball [of "as_tasks s" "sees (rwlock_value (as_lock s))", OF _ p]
    by (simp add: guard_inv_def)
qed


lemma lock_inv_split:
  "lock_inv r w \<lparr>rwlock_lock = (c, s), rwlock_value = v\<rparr> \<longleftrightarrow> rw_ok c \<and> wakers_ok s
     \<and> rw_view c = (if w = 0 then Readers r else Writer) \<and> (w = 0 \<or> w = 1 \<and> r = 0)"
  by (simp add: lock_inv_def)

lemma raw_try_lock_inv:
  fixes w :: nat
  assumes "rw_ok c" "rw_view c = (if w = 0 then Readers r else Writer)" "w = 0 \<or> w = 1 \<and> r = 0" "r < reader_limit"
  shows "\<exists>c'. raw_try_lock a c = Some ((case a of Shared \<Rightarrow> w = 0 | Exclusive \<Rightarrow> r = 0 \<and> w = 0), c') \<and> rw_ok c'
    \<and> (case a of Shared \<Rightarrow> rw_view c' = (if w = 0 then Readers (Suc r) else Writer)
       | Exclusive \<Rightarrow> rw_view c' = (if r = 0 \<or> w = 1 then Writer else Readers r))"
proof (cases a)
  case Shared
  with assms spin_rw.try_lock_shared_ok [of c r] spin_rw.try_lock_shared_busy [of c] show ?thesis by auto
next
  case Exclusive
  with assms spin_rw.try_lock_exclusive_ok [of c] spin_rw.try_lock_exclusive_busy [of c] show ?thesis by auto
qed

text \<open>
  No access of a task panics or blocks, none changes the value, and the lock stands for the guards
  afterwards again.
\<close>

lemma task_access_inv:
  assumes l: "lock_inv r w l" and r: "r < reader_limit"
    and h: "holds Shared p \<Longrightarrow> 0 < r" "holds Exclusive p \<Longrightarrow> 0 < w"
    and sees: "sees (rwlock_value l) p"
  shows "case task_access i p l of None \<Rightarrow> False
    | Some (p', l') \<Rightarrow> rwlock_value l' = rwlock_value l \<and> sees (rwlock_value l) p'
      \<and> lock_inv (r - of_bool (holds Shared p) + of_bool (holds Shared p'))
          (w - of_bool (holds Exclusive p) + of_bool (holds Exclusive p')) l'"
proof -
  obtain c s v where lv: "l = \<lparr>rwlock_lock = (c, s), rwlock_value = v\<rparr>" by (cases l) auto
  from l lv have c: "rw_ok c" "rw_view c = (if w = 0 then Readers r else Writer)" "w = 0 \<or> w = 1 \<and> r = 0"
    and s: "wakers_ok s" by (simp_all add: lock_inv_split)
  note eqs = lv with_raw_def lock_inv_split read_guard_deref_def write_guard_deref_def
  show ?thesis
  proof (cases p)
    case Outside
    then show ?thesis using l by auto
  next
    case (Polling a)
    from raw_try_lock_inv [OF c r, of a] s c Polling show ?thesis
      by (cases a; cases "w = 0"; cases "r = 0") (auto simp: eqs)
  next
    case (Registering a)
    from push_waker_Some [OF s, of i] c Registering show ?thesis by (auto simp: eqs)
  next
    case (Parked a)
    with s c show ?thesis by (auto simp: eqs wakers_ok_def)
  next
    case (Guard a x)
    with s c h show ?thesis
      using spin_unlock_shared_view [of c "r - 1"] spin_unlock_exclusive_view [OF c(1)]
      by (cases a) (auto simp: eqs split: if_splits)
  next
    case WakingAll
    from wake_all_Some [OF s] c WakingAll show ?thesis by (auto simp: eqs)
  next
    case ClearingAll
    from clear_wakers_Some [OF s] c ClearingAll show ?thesis by (auto simp: eqs)
  qed
qed

lemma guard_inv_access:
  assumes inv: "guard_inv n s" and i: "i < length (as_tasks s)" and n: "n < reader_limit"
  shows "\<exists>p l. task_access i (as_tasks s ! i) (as_lock s) = Some (p, l)
    \<and> guard_inv n \<lparr>as_lock = l, as_tasks = (as_tasks s)[i := p]\<rparr>"
proof -
  have r: "guards Shared s < reader_limit"
    using inv n count_if_le_length [of "holds Shared" "as_tasks s"] by (simp add: guard_inv_def)
  from inv i have pre: "lock_inv (guards Shared s) (guards Exclusive s) (as_lock s)"
    "sees (rwlock_value (as_lock s)) (as_tasks s ! i)"
    by (simp_all add: guard_inv_def)
  note pos = count_if_pos [OF i, of "holds Shared"] count_if_pos [OF i, of "holds Exclusive"]
  from task_access_inv [OF pre(1) r pos pre(2), of i]
  obtain p l where acc: "task_access i (as_tasks s ! i) (as_lock s) = Some (p, l)"
    "rwlock_value l = rwlock_value (as_lock s)" "sees (rwlock_value (as_lock s)) p"
    "lock_inv (guards Shared s - of_bool (holds Shared (as_tasks s ! i)) + of_bool (holds Shared p))
      (guards Exclusive s - of_bool (holds Exclusive (as_tasks s ! i)) + of_bool (holds Exclusive p)) l"
    by (auto split: option.splits)
  have "guard_inv n \<lparr>as_lock = l, as_tasks = (as_tasks s)[i := p]\<rparr>"
    by (rule guard_inv_update [OF inv i acc(4,2) _ _ acc(3)]) (use pos in auto)
  with acc(1) show ?thesis by blast
qed

lemma sees_no_guard: "(\<And>a. \<not> holds a p) \<Longrightarrow> sees x p"
  by (cases p) auto

text \<open>A write through a guard: there is no other guard that could have seen the old value.\<close>

lemma guard_inv_write:
  assumes inv: "guard_inv n s" and i: "i < length (as_tasks s)" "as_tasks s ! i = Guard Exclusive v"
  shows "guard_inv n \<lparr>as_lock = write_guard_deref_mut f (as_lock s), as_tasks =
    (as_tasks s)[i := Guard Exclusive (write_guard_deref (write_guard_deref_mut f (as_lock s)))]\<rparr>"
proof -
  let ?l = "write_guard_deref_mut f (as_lock s)"
  let ?ts = "(as_tasks s)[i := Guard Exclusive (write_guard_deref ?l)]"
  have "0 < guards Exclusive s" using count_if_pos [OF i(1), of "holds Exclusive"] i(2) by simp
  with inv have cnt: "guards Exclusive s = 1" "guards Shared s = 0" by (auto simp: guard_inv_def lock_inv_def)
  have none: "\<not> holds a (as_tasks s ! j)" if "j < length (as_tasks s)" "j \<noteq> i" for a j
  proof (cases a)
    case Shared
    with cnt(2) count_if_pos [OF that(1), of "holds Shared"] show ?thesis by auto
  next
    case Exclusive
    with cnt(1) count_if_two [of i "as_tasks s" j "holds Exclusive"] i that show ?thesis by auto
  qed
  have "sees (rwlock_value ?l) p" if "p \<in> set ?ts" for p
  proof -
    from that obtain j where j: "j < length (as_tasks s)" "p = ?ts ! j" by (auto simp: in_set_conv_nth)
    show ?thesis
      using j none [of j] i(1) by (cases "j = i") (auto simp: write_guard_deref_def intro: sees_no_guard)
  qed
  moreover have "count_if (holds Shared) ?ts = 0" "count_if (holds Exclusive) ?ts = 1"
    using count_if_update [OF i(1), of "holds Shared"] count_if_update [OF i(1), of "holds Exclusive"] cnt i(2)
    by simp_all
  ultimately show ?thesis using inv cnt by (simp add: guard_inv_def lock_inv_def write_guard_deref_mut_def)
qed

lemma guard_inv_call:
  assumes inv: "guard_inv n s" and i: "i < length (as_tasks s)" "as_tasks s ! i = Outside"
  shows "guard_inv n (s\<lparr>as_tasks := (as_tasks s)[i := Polling a]\<rparr>)"
proof -
  have "guard_inv n \<lparr>as_lock = as_lock s, as_tasks = (as_tasks s)[i := Polling a]\<rparr>"
    by (rule guard_inv_update [OF inv i(1)]) (use inv i(2) in \<open>auto simp: guard_inv_def\<close>)
  then show ?thesis by (cases s) simp
qed

lemma guard_inv_step [kernel_inv]:
  assumes "guard_step s s'" "guard_inv n s" "n < reader_limit" shows "guard_inv n s'"
  using assms(1)
proof cases
  case (g_access i p l)
  with guard_inv_access [OF assms(2) _ assms(3), of i] show ?thesis by auto
qed (use guard_inv_call [OF assms(2)] guard_inv_write [OF assms(2)] in auto)

lemma guard_inv_reachable:
  assumes "guard_step\<^sup>*\<^sup>* (async_start w v n) s" "wakers_ok (raw_wakers_new w :: nat waker_list)" "n < reader_limit"
  shows "guard_inv n s"
  using assms by (induction rule: rtranclp_induct) (auto intro: kernel_inv)

section \<open>Polls and releases that are not interrupted\<close>

lemma guard_accessI:
  "i < length (as_tasks s) \<Longrightarrow> task_access i (as_tasks s ! i) (as_lock s) = Some (p, l) \<Longrightarrow>
   s' = \<lparr>as_lock = l, as_tasks = (as_tasks s)[i := p]\<rparr> \<Longrightarrow> guard_step s s'"
  by (simp add: g_access)

text \<open>Several accesses of one task in a row.\<close>

inductive task_accesses :: "nat \<Rightarrow> 'v task \<Rightarrow> (nat, 'v) AsyncRwLock \<Rightarrow> 'v task \<Rightarrow> (nat, 'v) AsyncRwLock \<Rightarrow> bool" for i where
  acc_done: "task_accesses i p l p l"
| acc_next: "task_access i p l = Some (p1, l1) \<Longrightarrow> task_accesses i p1 l1 p2 l2 \<Longrightarrow> task_accesses i p l p2 l2"

lemma task_accesses_steps:
  assumes "task_accesses i p l p' l'" "i < length (as_tasks s)" "as_tasks s ! i = p" "as_lock s = l"
  shows "guard_step\<^sup>*\<^sup>* s \<lparr>as_lock = l', as_tasks = (as_tasks s)[i := p']\<rparr>"
  using assms
proof (induction arbitrary: s rule: task_accesses.induct)
  case (acc_done p l)
  then have "s = \<lparr>as_lock = l, as_tasks = (as_tasks s)[i := p]\<rparr>" by (cases s) auto
  then show ?case by (metis rtranclp.rtrancl_refl)
next
  case (acc_next p l p1 l1 p2 l2)
  let ?s1 = "\<lparr>as_lock = l1, as_tasks = (as_tasks s)[i := p1]\<rparr>"
  have "guard_step s ?s1" using acc_next by (intro guard_accessI) auto
  moreover have "guard_step\<^sup>*\<^sup>* ?s1 \<lparr>as_lock = l2, as_tasks = (as_tasks s)[i := p2]\<rparr>"
    using acc_next.IH [of ?s1] acc_next.prems by simp
  ultimately show ?case by (rule converse_rtranclp_into_rtranclp)
qed

text \<open>A poll is the attempt and, when it fails, the registration; a release is three accesses.\<close>

lemma future_poll_eq:
  "future_poll a i (c, s) = do {
     (got, c) \<leftarrow> raw_try_lock a c;
     if got then Some (Ready (), c, s) else do { s \<leftarrow> push_waker i s; Some (Pending, c, s) } }"
  by (cases a) (simp_all add: read_poll_def write_poll_def)

lemma guard_drop_eq:
  "guard_drop a l = (case rwlock_lock l of (c, s) \<Rightarrow> do {
     s \<leftarrow> wake_all s; s \<leftarrow> clear_wakers s; Some (l\<lparr>rwlock_lock := (raw_unlock a c, s)\<rparr>) })"
  by (cases a; cases "rwlock_lock l")
    (simp_all add: read_guard_drop_def write_guard_drop_def with_raw_def force_unlock_shared_def
      force_unlock_exclusive_def map_option_bind bind_map_option comp_def Let_def)

lemma guard_deref_eq [simp]: "guard_deref a l = rwlock_value l"
  by (cases a) (simp_all add: read_guard_deref_def write_guard_deref_def)

lemma poll_cases:
  assumes "task_run i (Polling a) l = Some (p, l')" "rwlock_lock l = (c, s)"
  obtains (got) c' where "raw_try_lock a c = Some (True, c')" "p = Guard a (rwlock_value l)"
      "l' = l\<lparr>rwlock_lock := (c', s)\<rparr>"
    | (failed) c' s' where "raw_try_lock a c = Some (False, c')" "push_waker i s = Some s'" "p = Parked a"
      "l' = l\<lparr>rwlock_lock := (c', s')\<rparr>"
  using assms by (auto simp: with_raw_def future_poll_eq split: Option.bind_splits if_splits)

lemma drop_cases:
  assumes "task_run i (Guard a v) l = Some (p, l')" "rwlock_lock l = (c, s)"
  obtains s1 s2 where "wake_all s = Some s1" "clear_wakers s1 = Some s2" "p = Outside"
      "l' = l\<lparr>rwlock_lock := (raw_unlock a c, s2)\<rparr>"
  using assms by (auto simp: guard_drop_eq split: Option.bind_splits)

lemma task_run_accesses:
  assumes "task_run i p l = Some (p', l')" shows "task_accesses i p l p' l'"
proof -
  obtain c s where cs: "rwlock_lock l = (c, s)" by fastforce
  show ?thesis
  proof (cases p)
    case (Polling a)
    from assms [unfolded Polling] cs show ?thesis
    proof (cases rule: poll_cases)
      case (got c')
      then show ?thesis
        by (intro acc_next [OF _ acc_done]) (simp add: with_raw_def cs Polling)
    next
      case (failed c' s')
      then show ?thesis
        by (intro acc_next [where ?p1.0 = "Registering a" and ?l1.0 = "l\<lparr>rwlock_lock := (c', s)\<rparr>", OF _ acc_next [OF _ acc_done]])
          (simp_all add: with_raw_def cs Polling)
    qed
  next
    case (Guard a v)
    from assms [unfolded Guard] cs show ?thesis
    proof (cases rule: drop_cases)
      case (1 s1 s2)
      then show ?thesis
        by (intro acc_next [where ?p1.0 = WakingAll and ?l1.0 = "l\<lparr>rwlock_lock := (raw_unlock a c, s)\<rparr>",
              OF _ acc_next [where ?p1.0 = ClearingAll and ?l1.0 = "l\<lparr>rwlock_lock := (raw_unlock a c, s1)\<rparr>",
                OF _ acc_next [OF _ acc_done]]])
          (simp_all add: with_raw_def cs Guard)
    qed
  qed (use assms in \<open>auto intro: task_accesses.intros\<close>)
qed

lemma task_step_guard_steps: "task_step s s' \<Longrightarrow> guard_step\<^sup>*\<^sup>* s s'"
proof (erule task_stepE)
  fix i p l
  assume "s' = \<lparr>as_lock = l, as_tasks = (as_tasks s)[i := p]\<rparr>" "i < length (as_tasks s)"
    "task_run i (as_tasks s ! i) (as_lock s) = Some (p, l)"
  then show ?thesis using task_accesses_steps [OF task_run_accesses] by blast
qed (auto intro: guard_step_intros)

lemma task_steps_guard_steps: "task_step\<^sup>*\<^sup>* s s' \<Longrightarrow> guard_step\<^sup>*\<^sup>* s s'"
  by (induction rule: rtranclp_induct) (auto dest: task_step_guard_steps intro: rtranclp_trans)

section \<open>The value behind the mutex\<close>

text \<open>The holder drops its guard; the task that is served next polls and updates the value.\<close>

definition mutex_turn :: "('w \<Rightarrow> 'v \<Rightarrow> 'v) \<Rightarrow> 'w \<Rightarrow> ('w, 'v) AsyncMutex \<Rightarrow> ('w, 'v) AsyncMutex option" where
  "mutex_turn f waker m = do {
     m \<leftarrow> mutex_guard_drop m;
     (r, raw) \<leftarrow> mutex_poll waker (mutex_lock m);
     assert_that (r = Ready ());
     Some (mutex_guard_deref_mut (f waker) (m\<lparr>mutex_lock := raw\<rparr>))
   }"

lemma mutex_turn_contended:
  assumes "contended (w # ws) wk (mutex_lock m)"
  shows "\<exists>raw. mutex_turn f w m = Some \<lparr>mutex_lock = raw, mutex_value = f w (mutex_value m)\<rparr>
    \<and> contended ws (wk @ [w]) raw"
  using hand_over_contended [OF assms]
  by (cases m) (auto simp: mutex_turn_def hand_over_def mutex_guard_drop_def mutex_guard_deref_mut_def assert_that_def
      split: Option.bind_splits if_splits)

text \<open>Every task sees what the tasks served before it have written.\<close>

lemma mutex_turns:
  "contended ws wk (mutex_lock m) \<Longrightarrow>
   \<exists>m'. foldM (mutex_turn f) ws m = Some m' \<and> mutex_guard_deref m' = fold f ws (mutex_guard_deref m)"
proof (induction ws arbitrary: wk m)
  case (Cons w ws)
  from mutex_turn_contended [OF Cons.prems, of f] obtain raw where
    "mutex_turn f w m = Some \<lparr>mutex_lock = raw, mutex_value = f w (mutex_value m)\<rparr>" "contended ws (wk @ [w]) raw"
    by blast
  with Cons.IH [of "wk @ [w]" "\<lparr>mutex_lock = raw, mutex_value = f w (mutex_value m)\<rparr>"] show ?case
    by (simp add: mutex_guard_deref_def)
qed simp

end
