(* ===== verification/Async_Guard_Properties.thy ===== *)
theory Async_Guard_Properties
  imports Async_Guards
begin

text \<open>The properties of the tasks that share a value behind an asynchronous reader-writer lock.\<close>

abbreviation as_cell :: "'v async_system \<Rightarrow> RawSpinRwLock" where
  "as_cell s \<equiv> fst (rwlock_lock (as_lock s))"

abbreviation as_wakers :: "'v async_system \<Rightarrow> nat waker_list" where
  "as_wakers s \<equiv> snd (rwlock_lock (as_lock s))"

section \<open>Exclusion and stability of the value\<close>

lemma guard_inv_excludes:
  assumes inv: "guard_inv n s" and i: "i < n" "as_tasks s ! i = Guard Exclusive x" and j: "j < n" "i \<noteq> j"
  shows "\<not> holds a (as_tasks s ! j)"
proof -
  have len: "i < length (as_tasks s)" "j < length (as_tasks s)" using inv i j by (simp_all add: guard_inv_def)
  have "0 < guards Exclusive s" using count_if_pos [OF len(1), of "holds Exclusive"] i(2) by simp
  with inv have "guards Exclusive s = 1" "guards Shared s = 0" by (auto simp: guard_inv_def lock_inv_def)
  with count_if_two [OF len j(2), of "holds Exclusive"] count_if_pos [OF len(2), of "holds Shared"] i(2)
  show ?thesis by (cases a) auto
qed

lemma guard_inv_deref:
  assumes "guard_inv n s" "i < n" "as_tasks s ! i = Guard a x" shows "guard_deref a (as_lock s) = x"
proof -
  have "sees (rwlock_value (as_lock s)) (as_tasks s ! i)" using assms(1,2) by (simp add: guard_inv_def)
  with assms(3) show ?thesis by simp
qed

text \<open>
  C13. Any number of tasks, below the limit of readers, share a value behind an asynchronous
  reader-writer lock, and may be interrupted between any two accesses to the lock. A task that owns a
  write guard is the only one with a guard. Whoever owns a guard reads through it the value it saw
  when it got the guard or wrote last itself: nobody else changes the value meanwhile. And no task
  panics or waits for ever in an access.
\<close>

theorem async_rwlock_race_free:
  assumes "wakers_ok (raw_wakers_new w :: nat waker_list)" and "n < reader_limit"
    and "guard_step\<^sup>*\<^sup>* (async_start w v n) s" and "i < n" and "j < n" and "i \<noteq> j"
  shows "(as_tasks s ! i = Guard Exclusive x \<longrightarrow> \<not> holds a (as_tasks s ! j))
    \<and> (as_tasks s ! i = Guard b y \<longrightarrow> guard_deref b (as_lock s) = y)
    \<and> task_access i (as_tasks s ! i) (as_lock s) \<noteq> None"
proof -
  have inv: "guard_inv n s" by (rule guard_inv_reachable [OF assms(3,1,2)])
  then have "i < length (as_tasks s)" using assms(4) by (simp add: guard_inv_def)
  from guard_inv_access [OF inv this assms(2)]
  have "task_access i (as_tasks s ! i) (as_lock s) \<noteq> None" by auto
  with guard_inv_excludes [OF inv assms(4) _ assms(5,6)] guard_inv_deref [OF inv assms(4)]
  show ?thesis by blast
qed

section \<open>Waiting tasks are woken\<close>

definition plain_phase :: "'v task \<Rightarrow> bool" where
  "plain_phase p \<longleftrightarrow> p \<noteq> WakingAll \<and> p \<noteq> ClearingAll \<and> (\<forall>a. p \<noteq> Registering a)"

definition covered :: "'v async_system \<Rightarrow> nat \<Rightarrow> bool" where
  "covered s i \<longleftrightarrow> i \<in> set (woken (as_wakers s)) \<or> i \<in> set (wakers (as_wakers s)) \<and> rw_view (as_cell s) \<noteq> Readers 0"

definition wake_inv :: "'v async_system \<Rightarrow> bool" where
  "wake_inv s \<longleftrightarrow> (\<forall>i<length (as_tasks s). plain_phase (as_tasks s ! i)
     \<and> (\<forall>a. as_tasks s ! i = Parked a \<longrightarrow> covered s i))"

lemma wake_inv_update:
  assumes "wake_inv s" "i < length (as_tasks s)" "plain_phase p" "\<And>a. p = Parked a \<Longrightarrow> covered s' i"
    and "\<And>j. j \<noteq> i \<Longrightarrow> covered s j \<Longrightarrow> covered s' j" "as_tasks s' = (as_tasks s)[i := p]"
  shows "wake_inv s'"
  using assms by (simp add: wake_inv_def nth_list_update) metis

lemma raw_try_lock_busy:
  assumes "lock_inv r w l" "r < reader_limit" "rwlock_lock l = (c, s)" "raw_try_lock a c = Some (got, c')"
  shows "rw_view c' \<noteq> Readers 0"
  using assms raw_try_lock_inv [of c w r a] by (cases a; cases "w = 0") (auto simp: lock_inv_def)

lemma wake_inv_run:
  assumes inv: "guard_inv n s" and n: "n < reader_limit" and wk: "wake_inv s" and i: "i < length (as_tasks s)"
    and run: "task_run i (as_tasks s ! i) (as_lock s) = Some (p, l)"
  shows "wake_inv \<lparr>as_lock = l, as_tasks = (as_tasks s)[i := p]\<rparr>"
proof -
  obtain c ws where cs: "rwlock_lock (as_lock s) = (c, ws)" by fastforce
  from inv cs have ok: "wakers_ok ws" and l: "lock_inv (guards Shared s) (guards Exclusive s) (as_lock s)"
    by (simp_all add: guard_inv_def lock_inv_def)
  have r: "guards Shared s < reader_limit"
    using inv n count_if_le_length [of "holds Shared" "as_tasks s"] by (simp add: guard_inv_def)
  note busy = raw_try_lock_busy [OF l r cs]
  show ?thesis
  proof (cases "as_tasks s ! i")
    case (Polling a)
    from run [unfolded Polling] cs show ?thesis
    proof (cases rule: poll_cases)
      case (got c')
      with busy [OF got(1)] show ?thesis
        by (intro wake_inv_update [OF wk i, of p]) (auto simp: plain_phase_def covered_def cs)
    next
      case (failed c' s')
      with busy [OF failed(1)] push_waker_Some [OF ok, of i] show ?thesis
        by (intro wake_inv_update [OF wk i, of p]) (auto simp: plain_phase_def covered_def cs)
    qed
  next
    case (Guard a v)
    from run [unfolded Guard] cs show ?thesis
    proof (cases rule: drop_cases)
      case (1 s1 s2)
      with wake_all_Some [OF ok] clear_wakers_Some [of s1] show ?thesis
        by (intro wake_inv_update [OF wk i, of p]) (auto simp: plain_phase_def covered_def cs)
    qed
  next
    case (Parked a)
    with run cs wk i show ?thesis
      by (intro wake_inv_update [OF wk i, of p])
        (auto simp: plain_phase_def covered_def wake_inv_def with_raw_def split: if_splits)
  qed (use run wk i in \<open>auto simp: wake_inv_def plain_phase_def nth_list_update covered_def\<close>)
qed

lemma wake_inv_step:
  assumes "task_step s s'" "guard_inv n s" "n < reader_limit" "wake_inv s" shows "wake_inv s'"
  using assms(1)
proof cases
  case (t_run i p l)
  then show ?thesis using wake_inv_run [OF assms(2,3,4)] by blast
qed (intro wake_inv_update [OF assms(4)]; auto simp: plain_phase_def covered_def write_guard_deref_mut_def)+

lemma wake_inv_reachable:
  assumes "task_step\<^sup>*\<^sup>* (async_start w v n) s" "wakers_ok (raw_wakers_new w :: nat waker_list)" "n < reader_limit"
  shows "guard_inv n s \<and> wake_inv s"
  using assms(1)
proof (induction rule: rtranclp_induct)
  case base
  then show ?case using guard_inv_start [OF assms(2)] by (simp add: wake_inv_def async_start_def plain_phase_def)
next
  case (step s s')
  have "guard_step\<^sup>*\<^sup>* (async_start w v n) s'"
    using task_steps_guard_steps [OF rtranclp.rtrancl_into_rtrancl [OF step.hyps(1,2)]] .
  from guard_inv_reachable [OF this assms(2,3)] show ?case
    using wake_inv_step [OF step.hyps(2) _ assms(3)] step.IH by simp
qed

lemma no_guard_free:
  assumes inv: "guard_inv n s" and none: "\<forall>j<n. \<forall>a. \<not> holds a (as_tasks s ! j)"
  shows "rw_view (as_cell s) = Readers 0"
proof -
  have "guards a s = 0" for a using inv none by (auto simp: count_if_zero guard_inv_def in_set_conv_nth)
  with inv show ?thesis by (simp add: guard_inv_def lock_inv_def)
qed

text \<open>
  C19. When polls and releases are not interrupted by other tasks (the tasks of one executor), no
  wake-up is lost: in every state that tasks can reach, once nobody owns a guard, every parked task
  has been woken, and its next step takes it to poll again.
\<close>

theorem async_rwlock_no_lost_wakeup:
  assumes "wakers_ok (raw_wakers_new w :: nat waker_list)" and "n < reader_limit"
    and "task_step\<^sup>*\<^sup>* (async_start w v n) s" and "\<forall>j<n. \<forall>a. \<not> holds a (as_tasks s ! j)"
    and "i < n" and "as_tasks s ! i = Parked b"
  shows "i \<in> set (woken (as_wakers s)) \<and> (\<exists>l. task_run i (as_tasks s ! i) (as_lock s) = Some (Polling b, l))"
proof -
  from wake_inv_reachable [OF assms(3,1,2)] have inv: "guard_inv n s" "wake_inv s" by auto
  then have "covered s i" using assms(5,6) by (auto simp: wake_inv_def guard_inv_def)
  then have "i \<in> set (woken (as_wakers s))" using no_guard_free [OF inv(1) assms(4)] by (auto simp: covered_def)
  then show ?thesis using assms(6) by (cases "rwlock_lock (as_lock s)") (auto simp: with_raw_def)
qed

section \<open>Interrupted releases lose tasks\<close>

definition lost :: "'v async_system \<Rightarrow> nat \<Rightarrow> access \<Rightarrow> bool" where
  "lost s i a \<longleftrightarrow> i < length (as_tasks s) \<and> as_tasks s ! i = Parked a
     \<and> i \<notin> set (wakers (as_wakers s)) \<and> i \<notin> set (woken (as_wakers s))"

text \<open>An access registers only the waker of its own task, and wakes only registered tasks.\<close>

lemma task_access_wakers:
  assumes "task_access i p l = Some (p', l')" "wakers_ok (snd (rwlock_lock l))"
  shows "set (wakers (snd (rwlock_lock l'))) \<subseteq> insert i (set (wakers (snd (rwlock_lock l))))
    \<and> set (woken (snd (rwlock_lock l'))) \<subseteq> set (woken (snd (rwlock_lock l))) \<union> set (wakers (snd (rwlock_lock l)))"
proof -
  obtain c s where cs: "rwlock_lock l = (c, s)" by fastforce
  with assms(2) push_waker_Some [of s i] wake_all_Some [of s] clear_wakers_Some [of s] assms(1) show ?thesis
    by (cases p) (auto simp: with_raw_def split: Option.bind_splits if_splits dest: set_remove1_subset [THEN subsetD])
qed

lemma lost_step:
  assumes "guard_step s s'" "guard_inv n s" "lost s i a" shows "lost s' i a"
  using assms(1)
proof cases
  case (g_access j p l)
  have ok: "wakers_ok (as_wakers s)" using assms(2) by (simp add: guard_inv_def lock_inv_def)
  show ?thesis
  proof (cases "j = i")
    case True
    with g_access assms(3) show ?thesis
      by (cases "rwlock_lock (as_lock s)") (auto simp: lost_def with_raw_def)
  next
    case False
    with g_access assms(3) task_access_wakers [OF g_access(3) ok] show ?thesis by (auto simp: lost_def)
  qed
qed (use assms(3) in \<open>auto simp: lost_def nth_list_update write_guard_deref_mut_def\<close>)

lemma lost_forever:
  assumes "guard_step\<^sup>*\<^sup>* s s'" "guard_inv n s" "n < reader_limit" "lost s i a" shows "lost s' i a"
proof -
  from assms(1) have "guard_inv n s' \<and> lost s' i a"
    using assms(2-4) by (induction rule: rtranclp_induct) (auto intro: lost_step guard_inv_step)
  then show ?thesis by simp
qed

text \<open>The accesses of several tasks in a given order.\<close>

primrec run_schedule :: "nat list \<Rightarrow> 'v async_system \<Rightarrow> 'v async_system option" where
  "run_schedule [] s = Some s"
| "run_schedule (i # is) s = do {
     (p, l) \<leftarrow> task_access i (as_tasks s ! i) (as_lock s);
     run_schedule is \<lparr>as_lock = l, as_tasks = (as_tasks s)[i := p]\<rparr>
   }"

lemma run_schedule_steps:
  "run_schedule is s = Some s' \<Longrightarrow> \<forall>i\<in>set is. i < length (as_tasks s) \<Longrightarrow> guard_step\<^sup>*\<^sup>* s s'"
proof (induction "is" arbitrary: s)
  case (Cons i "is")
  then obtain p l where pl: "task_access i (as_tasks s ! i) (as_lock s) = Some (p, l)"
    "run_schedule is \<lparr>as_lock = l, as_tasks = (as_tasks s)[i := p]\<rparr> = Some s'"
    by (auto split: Option.bind_splits)
  with Cons show ?case
    by (intro converse_rtranclp_into_rtranclp [of guard_step, OF guard_accessI [OF _ pl(1) refl]]) auto
qed simp

lemma both_call:
  "guard_step\<^sup>*\<^sup>* (async_start w v 2)
    \<lparr>as_lock = \<lparr>rwlock_lock = (\<lparr>rw_value = 0\<rparr>, raw_wakers_new w), rwlock_value = v\<rparr>, as_tasks = [Polling a, Polling b]\<rparr>"
proof -
  let ?S = "\<lambda>p q. \<lparr>as_lock = async_rwlock_new w v, as_tasks = [p, q]\<rparr>"
  have "guard_step (?S Outside Outside) (?S (Polling a) Outside)"
    using g_call [of 0 "?S Outside Outside" a] by simp
  moreover have "guard_step (?S (Polling a) Outside) (?S (Polling a) (Polling b))"
    using g_call [of 1 "?S (Polling a) Outside" b] by simp
  ultimately have "guard_step\<^sup>*\<^sup>* (?S Outside Outside) (?S (Polling a) (Polling b))"
    by (meson converse_rtranclp_into_rtranclp r_into_rtranclp)
  then show ?thesis
    by (simp add: async_start_def async_rwlock_new_def raw_async_rwlock_new_def spin_rwlock_INIT_def numeral_2_eq_2)
qed

text \<open>
  Task 0 writes and releases the lock. Task 1 tries while the lock is taken, and registers its waker
  after task 0 has woken everybody and before it clears the list.
\<close>

lemma lost_reachable:
  assumes ok: "wakers_ok (raw_wakers_new w :: nat waker_list)"
  shows "\<exists>s. guard_step\<^sup>*\<^sup>* (async_start w v 2) s \<and> as_tasks s = [Outside, Parked Exclusive] \<and> lost s 1 Exclusive"
proof -
  let ?L = "\<lambda>s. \<lparr>rwlock_lock = (\<lparr>rw_value = 0\<rparr>, s), rwlock_value = v\<rparr>"
  from wake_all_Some [OF ok] obtain s1 where s1: "wake_all (raw_wakers_new w :: nat waker_list) = Some s1"
    "wakers_ok s1" "woken s1 = []"
    by (auto simp: raw_wakers_new_def)
  from push_waker_Some [OF s1(2), of 1] s1(3) obtain s2 where s2: "push_waker 1 s1 = Some s2" "wakers_ok s2" "woken s2 = []"
    by auto
  from clear_wakers_Some [OF s2(2)] s2(3) obtain s3 where s3: "clear_wakers s2 = Some s3" "wakers s3 = []" "woken s3 = []"
    by auto
  have lock: "spin_try_lock_exclusive \<lparr>rw_value = 0\<rparr> = Some (True, \<lparr>rw_value = 1\<rparr>)"
    "spin_try_lock_exclusive \<lparr>rw_value = 1\<rparr> = Some (False, \<lparr>rw_value = 1\<rparr>)"
    "spin_unlock_exclusive \<lparr>rw_value = 1\<rparr> = \<lparr>rw_value = 0\<rparr>"
    by (simp_all add: spin_try_lock_exclusive_eq rw_view_free spin_unlock_exclusive_def)
  let ?s = "\<lparr>as_lock = ?L s3, as_tasks = [Outside, Parked Exclusive]\<rparr>"
  have "run_schedule [0, 1, 0, 0, 1, 0]
      \<lparr>as_lock = ?L (raw_wakers_new w), as_tasks = [Polling Exclusive, Polling Exclusive]\<rparr> = Some ?s"
    using s1(1) s2(1) s3(1) lock by (simp add: with_raw_def)
  from run_schedule_steps [OF this] have "guard_step\<^sup>*\<^sup>* (async_start w v 2) ?s"
    by (intro rtranclp_trans [OF both_call]) simp
  moreover have "lost ?s 1 Exclusive" using s3 by (simp add: lost_def)
  ultimately show ?thesis by (intro exI [of _ ?s]) simp
qed

text \<open>
  C20. When tasks can be interrupted, a wake-up can be lost: two tasks reach a state in which nobody
  owns a guard and one task is parked, and from there on it stays parked whatever happens, even when
  the lock is taken and released again. The release wakes and clears under two guards, and a waker
  that is registered in between is forgotten.
\<close>

theorem async_rwlock_lost_task:
  assumes "wakers_ok (raw_wakers_new w :: nat waker_list)"
  shows "\<exists>s. guard_step\<^sup>*\<^sup>* (async_start w v 2) s \<and> as_tasks s = [Outside, Parked Exclusive]
    \<and> rw_view (as_cell s) = Readers 0
    \<and> (\<forall>s'. guard_step\<^sup>*\<^sup>* s s' \<longrightarrow> as_tasks s' ! 1 = Parked Exclusive)"
proof -
  from lost_reachable [OF assms, of v] obtain s where s: "guard_step\<^sup>*\<^sup>* (async_start w v 2) s"
    "as_tasks s = [Outside, Parked Exclusive]" "lost s 1 Exclusive" by auto
  have lim: "2 < reader_limit" by (simp add: reader_limit_def)
  have inv: "guard_inv 2 s" by (rule guard_inv_reachable [OF s(1) assms lim])
  have "rw_view (as_cell s) = Readers 0"
    by (rule no_guard_free [OF inv]) (use s(2) in \<open>auto simp: less_2_cases_iff\<close>)
  moreover have "as_tasks s' ! 1 = Parked Exclusive" if "guard_step\<^sup>*\<^sup>* s s'" for s'
    using lost_forever [OF that inv lim s(3)] by (simp add: lost_def)
  ultimately show ?thesis using s(1,2) by blast
qed

definition demo_async :: "nat async_system" where
  "demo_async = async_start demo_world 7 2"

lemma demo_raw_wakers: "wakers_ok (raw_wakers_new demo_world :: nat waker_list)"
  using demo_wakers_ok(1) by (simp add: demo_wakers_def raw_wakers_new_def)

lemma demo_limit: "2 < reader_limit"
  by (simp add: reader_limit_def)

theorem async_rwlock_lost_task_witness:
  "\<exists>s. guard_step\<^sup>*\<^sup>* demo_async s \<and> (\<forall>s'. guard_step\<^sup>*\<^sup>* s s' \<longrightarrow> as_tasks s' ! 1 = Parked Exclusive)"
  using async_rwlock_lost_task [OF demo_raw_wakers, of "7 :: nat"] by (auto simp: demo_async_def)

text \<open>Task 0 has the lock for writing, task 1 has failed and is about to register.\<close>

definition demo_contended :: "nat async_system" where
  "demo_contended = \<lparr>as_lock = \<lparr>rwlock_lock = (\<lparr>rw_value = 1\<rparr>, raw_wakers_new demo_world), rwlock_value = 7\<rparr>,
     as_tasks = [Guard Exclusive 7, Registering Shared]\<rparr>"

lemma demo_contended_reachable: "guard_step\<^sup>*\<^sup>* demo_async demo_contended"
proof -
  have "rw_view \<lparr>rw_value = 1\<rparr> = Writer" by (simp add: rw_view_Writer)
  then have "run_schedule [0, 1] \<lparr>as_lock = \<lparr>rwlock_lock = (\<lparr>rw_value = 0\<rparr>, raw_wakers_new demo_world), rwlock_value = 7\<rparr>,
      as_tasks = [Polling Exclusive, Polling Shared]\<rparr> = Some demo_contended"
    by (simp add: with_raw_def spin_try_lock_exclusive_eq spin_try_lock_shared_busy rw_view_free demo_contended_def write_guard_deref_def)
  from run_schedule_steps [OF this] show ?thesis
    unfolding demo_async_def by (intro rtranclp_trans [OF both_call]) simp
qed

theorem async_rwlock_race_free_witness:
  "guard_deref Exclusive (as_lock demo_contended) = 7 \<and> \<not> holds Shared (as_tasks demo_contended ! 1)
    \<and> task_access 0 (as_tasks demo_contended ! 0) (as_lock demo_contended) \<noteq> None"
  using async_rwlock_race_free [OF demo_raw_wakers demo_limit demo_contended_reachable [unfolded demo_async_def],
      of 0 1 7 Shared Exclusive 7]
  by (simp add: demo_contended_def)

lemma task_runI:
  "i < length ts \<Longrightarrow> ts' = ts[i := ts' ! i] \<Longrightarrow> task_run i (ts ! i) l = Some (ts' ! i, l') \<Longrightarrow>
   task_step \<lparr>as_lock = l, as_tasks = ts\<rparr> \<lparr>as_lock = l', as_tasks = ts'\<rparr>"
  using t_run [of i "\<lparr>as_lock = l, as_tasks = ts\<rparr>" "ts' ! i" l'] by simp

text \<open>Task 0 has taken and released the lock, task 1 has tried meanwhile.\<close>

lemma demo_woken_reachable:
  "\<exists>s. task_step\<^sup>*\<^sup>* demo_async s \<and> as_tasks s = [Outside, Parked Exclusive]"
proof -
  let ?ws = "raw_wakers_new demo_world :: nat waker_list"
  let ?S = "\<lambda>c s p q. \<lparr>as_lock = \<lparr>rwlock_lock = (\<lparr>rw_value = c\<rparr>, s), rwlock_value = 7 :: nat\<rparr>, as_tasks = [p, q]\<rparr>"
  from push_waker_Some [OF demo_raw_wakers, of 1] obtain s1 where s1: "push_waker 1 ?ws = Some s1" "wakers_ok s1" by auto
  from release_wakers [OF s1(2)] obtain s2 where s2: "wake_all s1 \<bind> clear_wakers = Some s2" by auto
  have try_lock: "spin_try_lock_exclusive \<lparr>rw_value = 0\<rparr> = Some (True, \<lparr>rw_value = 1\<rparr>)"
    "spin_try_lock_exclusive \<lparr>rw_value = 1\<rparr> = Some (False, \<lparr>rw_value = 1\<rparr>)"
    by (simp_all add: spin_try_lock_exclusive_eq rw_view_free)
  have start: "demo_async = ?S 0 ?ws Outside Outside"
    by (simp add: demo_async_def async_start_def async_rwlock_new_def raw_async_rwlock_new_def spin_rwlock_INIT_def
        numeral_2_eq_2)
  have "task_step (?S 0 ?ws Outside Outside) (?S 0 ?ws (Polling Exclusive) Outside)"
    using t_call [of 0 "?S 0 ?ws Outside Outside" Exclusive] by simp
  moreover have "task_step (?S 0 ?ws (Polling Exclusive) Outside) (?S 0 ?ws (Polling Exclusive) (Polling Exclusive))"
    using t_call [of 1 "?S 0 ?ws (Polling Exclusive) Outside" Exclusive] by simp
  moreover have "task_step (?S 0 ?ws (Polling Exclusive) (Polling Exclusive)) (?S 1 ?ws (Guard Exclusive 7) (Polling Exclusive))"
    by (rule task_runI [of 0]) (simp_all add: with_raw_def write_poll_def try_lock write_guard_deref_def)
  moreover have "task_step (?S 1 ?ws (Guard Exclusive 7) (Polling Exclusive)) (?S 1 s1 (Guard Exclusive 7) (Parked Exclusive))"
    by (rule task_runI [of 1]) (simp_all add: with_raw_def write_poll_def try_lock s1(1) [unfolded One_nat_def])
  moreover have "task_step (?S 1 s1 (Guard Exclusive 7) (Parked Exclusive)) (?S 0 s2 Outside (Parked Exclusive))"
    by (rule task_runI [of 0])
      (use s2 in \<open>auto simp: guard_drop_eq spin_unlock_exclusive_def write_guard_drop_def with_raw_def
        force_unlock_exclusive_def split: Option.bind_splits\<close>)
  ultimately have "task_step\<^sup>*\<^sup>* (?S 0 ?ws Outside Outside) (?S 0 s2 Outside (Parked Exclusive))"
    by (meson converse_rtranclp_into_rtranclp r_into_rtranclp)
  then show ?thesis unfolding start by (intro exI [of _ "?S 0 s2 Outside (Parked Exclusive)"]) simp
qed

theorem async_rwlock_no_lost_wakeup_witness:
  "\<exists>s. task_step\<^sup>*\<^sup>* demo_async s \<and> as_tasks s = [Outside, Parked Exclusive] \<and> 1 \<in> set (woken (as_wakers s))"
proof -
  from demo_woken_reachable obtain s where s: "task_step\<^sup>*\<^sup>* demo_async s" "as_tasks s = [Outside, Parked Exclusive]"
    by blast
  have "1 \<in> set (woken (as_wakers s))"
    using async_rwlock_no_lost_wakeup [OF demo_raw_wakers demo_limit s(1) [unfolded demo_async_def], of 1 Exclusive] s(2)
    by (auto simp: less_2_cases_iff)
  with s show ?thesis by blast
qed

end
