(* ===== verification/Executor.thy ===== *)
theory Executor
  imports Kernel_Prelude
begin

text \<open>
  \<^verbatim>\<open>kernel_executor\<close>: the local executor (\<^verbatim>\<open>non_send_executor.rs\<close>), the waker flag and the endless
  driver loop (\<^verbatim>\<open>never_waker.rs\<close>, \<^verbatim>\<open>lib.rs\<close>).

  What a task does when it is polled is a parameter: from the index its waker carries, its own state
  and the state \<open>'g\<close> that tasks share outside the executor, it gives the poll result, its new state,
  the new shared state and the calls it made into the executor, in order: waking the waker with some
  index (its own, or one it got from another task) and spawning a task through a handle. The clones
  of the waker of the surrounding context are values of type \<open>'w\<close>; the model records the ones that
  were woken.

  The cells are \<^verbatim>\<open>RefCell\<close>s. The only one that is still borrowed while tasks run is the queue of
  spawned tasks, which the \<^verbatim>\<open>for\<close> loop of \<^verbatim>\<open>LocalExecutorHandle::poll\<close> drains under one
  \<^verbatim>\<open>borrow_mut\<close>; a second \<^verbatim>\<open>borrow_mut\<close> panics and is \<^const>\<open>None\<close>.
\<close>

datatype 't effect = Wake nat | Spawn 't

type_synonym ('t, 'g) behaviour = "nat \<Rightarrow> 't \<Rightarrow> 'g \<Rightarrow> unit Poll \<times> 't \<times> 't effect list \<times> 'g"

record ('t, 'w, 'g) LocalExecutor =
  tasks :: "'t option list"
  outer_wakers :: "'w list"
  wake_queue :: "nat list"
  task_queue :: "'t list"
  queue_borrowed :: bool
  outer_woken :: "'w list"
  shared_env :: 'g

section \<open>Waking and spawning\<close>

definition rc_wake_by_ref :: "nat \<Rightarrow> ('t, 'w, 'g) LocalExecutor \<Rightarrow> ('t, 'w, 'g) LocalExecutor" where
  "rc_wake_by_ref index self = self
     \<lparr>wake_queue := wake_queue self @ [index],
      outer_woken := outer_woken self @ outer_wakers self,
      outer_wakers := []\<rparr>"

definition spawn :: "'t \<Rightarrow> ('t, 'w, 'g) LocalExecutor \<Rightarrow> ('t, 'w, 'g) LocalExecutor option" where
  "spawn future self = do {
     assert_that (\<not> queue_borrowed self);
     Some (self\<lparr>task_queue := task_queue self @ [future]\<rparr>)
   }"

fun apply_effect :: "'t effect \<Rightarrow> ('t, 'w, 'g) LocalExecutor \<Rightarrow> ('t, 'w, 'g) LocalExecutor option" where
  "apply_effect (Wake index) self = Some (rc_wake_by_ref index self)"
| "apply_effect (Spawn future) self = spawn future self"

section \<open>The operations of the executor\<close>

definition poll_future ::
  "('t, 'g) behaviour \<Rightarrow> nat \<Rightarrow> ('t, 'w, 'g) LocalExecutor \<Rightarrow> ('t, 'w, 'g) LocalExecutor option" where
  "poll_future beh index self =
     (if index < length (tasks self) then
        case tasks self ! index of
          None \<Rightarrow> Some self
        | Some task \<Rightarrow>
            let (r, task', effects, g) = beh index task (shared_env self)
            in do {
              self \<leftarrow> foldM apply_effect effects (self\<lparr>shared_env := g\<rparr>);
              Some (self\<lparr>tasks := (tasks self)[index := if r = Ready () then None else Some task']\<rparr>)
            }
      else Some self)"

definition check_if_done :: "('t, 'w, 'g) LocalExecutor \<Rightarrow> bool" where
  "check_if_done self \<longleftrightarrow> \<not> list_ex (\<lambda>s. s \<noteq> None) (tasks self)"

definition wake_pending ::
  "('t, 'g) behaviour \<Rightarrow> ('t, 'w, 'g) LocalExecutor \<Rightarrow> (bool \<times> ('t, 'w, 'g) LocalExecutor) option" where
  "wake_pending beh self = do {
     let q = wake_queue self;
     self \<leftarrow> foldM (poll_future beh) q (self\<lparr>wake_queue := []\<rparr>);
     Some (q = [], self)
   }"

definition poll_all ::
  "('t, 'g) behaviour \<Rightarrow> ('t, 'w, 'g) LocalExecutor \<Rightarrow> ('t, 'w, 'g) LocalExecutor option" where
  "poll_all beh self = foldM (poll_future beh) [0..<length (tasks self)] self"

fun first_free :: "'t option list \<Rightarrow> nat option" where
  "first_free [] = None"
| "first_free (None # ts) = Some 0"
| "first_free (Some t # ts) = map_option Suc (first_free ts)"

definition push_task ::
  "('t, 'g) behaviour \<Rightarrow> 't \<Rightarrow> ('t, 'w, 'g) LocalExecutor \<Rightarrow> (nat \<times> ('t, 'w, 'g) LocalExecutor) option" where
  "push_task beh task self = do {
     let (index, self) =
       (case first_free (tasks self) of
          Some slot \<Rightarrow> (slot, self\<lparr>tasks := (tasks self)[slot := Some task]\<rparr>)
        | None \<Rightarrow> (length (tasks self), self\<lparr>tasks := tasks self @ [Some task]\<rparr>));
     self \<leftarrow> poll_future beh index self;
     Some (index, self)
   }"

text \<open>\<^verbatim>\<open>impl Future for LocalExecutor\<close>.\<close>

definition executor_poll :: "'w \<Rightarrow> ('t, 'w, 'g) LocalExecutor \<Rightarrow> unit Poll \<times> ('t, 'w, 'g) LocalExecutor" where
  "executor_poll context_waker self =
     (let self = self\<lparr>outer_wakers := outer_wakers self @ [context_waker]\<rparr>
      in (if check_if_done self then Pending else Ready (), self))"

text \<open>
  \<^verbatim>\<open>for i in self.queue.borrow_mut().drain(..)\<close>: the queue stays borrowed until the loop is over.
\<close>

definition drain_task_queue ::
  "('t, 'g) behaviour \<Rightarrow> ('t, 'w, 'g) LocalExecutor \<Rightarrow> ('t, 'w, 'g) LocalExecutor option" where
  "drain_task_queue beh self = do {
     assert_that (\<not> queue_borrowed self);
     self \<leftarrow> foldM (\<lambda>t self. map_option snd (push_task beh t self)) (task_queue self)
               (self\<lparr>task_queue := [], queue_borrowed := True\<rparr>);
     Some (self\<lparr>queue_borrowed := False\<rparr>)
   }"

text \<open>\<^verbatim>\<open>impl Future for LocalExecutorHandle\<close>.\<close>

definition handle_poll ::
  "('t, 'g) behaviour \<Rightarrow> 'w \<Rightarrow> ('t, 'w, 'g) LocalExecutor \<Rightarrow> (unit Poll \<times> ('t, 'w, 'g) LocalExecutor) option" where
  "handle_poll beh context_waker self = do {
     self \<leftarrow> poll_all beh self;
     self \<leftarrow> drain_task_queue beh self;
     let (r, self) = executor_poll context_waker self;
     (is_empty, self) \<leftarrow> wake_pending beh self;
     if \<not> is_empty then do {
       self \<leftarrow> drain_task_queue beh self;
       Some (Pending, self)
     }
     else Some (r, self)
   }"

definition executor_new :: "'g \<Rightarrow> ('t, 'w, 'g) LocalExecutor" where
  "executor_new g = \<lparr>tasks = [], outer_wakers = [], wake_queue = [], task_queue = [],
     queue_borrowed = False, outer_woken = [], shared_env = g\<rparr>"

section \<open>The endless driver\<close>

text \<open>
  \<^verbatim>\<open>run_neverending_future\<close>: the flag is the waker; one iteration of the loop either polls or idles.
  The poll of the future is a parameter that says whether the waker was woken meanwhile.
\<close>

record 's driver =
  ready_flag :: bool
  future :: 's
  idled :: nat

definition driver_iteration :: "('s \<Rightarrow> (bool \<times> 's) option) \<Rightarrow> 's driver \<Rightarrow> 's driver option" where
  "driver_iteration poll_fut d =
     (if ready_flag d then do {
        (woke, s) \<leftarrow> poll_fut (future d);
        Some (d\<lparr>ready_flag := woke, future := s\<rparr>)
      }
      else Some (d\<lparr>idled := Suc (idled d)\<rparr>))"

definition driver_start :: "'s \<Rightarrow> 's driver" where
  "driver_start s = \<lparr>ready_flag = True, future = s, idled = 0\<rparr>"

text \<open>The executor's handle driven by the loop: the flag is set when a clone of the waker was woken.\<close>

definition poll_executor ::
  "('t, 'g) behaviour \<Rightarrow> ('t, unit, 'g) LocalExecutor \<Rightarrow> (bool \<times> ('t, unit, 'g) LocalExecutor) option" where
  "poll_executor beh self = do {
     (_, self) \<leftarrow> handle_poll beh () (self\<lparr>outer_woken := []\<rparr>);
     Some (outer_woken self \<noteq> [], self)
   }"

end
