(* ===== verification/Executor_Properties.thy ===== *)
theory Executor_Properties
  imports Executor
begin

text \<open>
  The properties of the local executor and of the loop that drives it: no wake-up is lost, the
  spawn queue is emptied, when a poll panics, and what the poll result says.
\<close>

section \<open>Invariants of the executor\<close>

text \<open>
  A predicate that the four elementary changes of the executor keep is kept by every operation.
\<close>

locale executor_invariant =
  fixes P :: "('t, 'w, 'g) LocalExecutor \<Rightarrow> bool"
  assumes keep_wake: "P s \<Longrightarrow> P (rc_wake_by_ref i s)"
    and keep_spawn: "P s \<Longrightarrow> spawn t s = Some s' \<Longrightarrow> P s'"
    and keep_env: "P s \<Longrightarrow> P (s\<lparr>shared_env := g\<rparr>)"
    and keep_tasks: "P s \<Longrightarrow> P (s\<lparr>tasks := ts\<rparr>)"
begin

lemma keep_effects: "foldM apply_effect es s = Some s' \<Longrightarrow> P s \<Longrightarrow> P s'"
proof (erule foldM_invariant)
  fix e s t
  assume "P s" "apply_effect e s = Some t"
  then show "P t" by (cases e) (auto intro: keep_wake keep_spawn)
qed

lemma keep_poll_future: "P s \<Longrightarrow> poll_future beh i s = Some s' \<Longrightarrow> P s'"
  by (auto simp: poll_future_def bind_eq_Some_conv keep_tasks keep_env split: if_splits option.splits prod.splits
      dest!: keep_effects)

lemma keep_poll_all: "poll_all beh s = Some s' \<Longrightarrow> P s \<Longrightarrow> P s'"
  unfolding poll_all_def by (erule foldM_invariant) (auto intro: keep_poll_future)

lemma keep_poll_list: "foldM (poll_future beh) q s = Some s' \<Longrightarrow> P s \<Longrightarrow> P s'"
  by (erule foldM_invariant) (auto intro: keep_poll_future)

lemma keep_push_task: "P s \<Longrightarrow> push_task beh t s = Some (i, s') \<Longrightarrow> P s'"
  by (auto simp: push_task_def bind_eq_Some_conv Let_def split: option.splits prod.splits
      intro: keep_poll_future keep_tasks)

lemma keep_push_tasks:
  "foldM (\<lambda>t self. map_option snd (push_task beh t self)) ts s = Some s' \<Longrightarrow> P s \<Longrightarrow> P s'"
  by (erule foldM_invariant) (auto dest: keep_push_task)

end

text \<open>
  The waker of the current context is armed or has been woken, and the clones that are still armed
  are gone as soon as some task is in the wake queue.
\<close>

definition wake_sound :: "'w \<Rightarrow> ('t, 'w, 'g) LocalExecutor \<Rightarrow> bool" where
  "wake_sound w s \<longleftrightarrow> w \<in> set (outer_wakers s) \<union> set (outer_woken s)
     \<and> (wake_queue s \<noteq> [] \<longrightarrow> outer_wakers s = [])"

interpretation wakes: executor_invariant "wake_sound w"
  by unfold_locales (auto simp: wake_sound_def rc_wake_by_ref_def spawn_def bind_eq_Some_conv)

definition queue_sound :: "bool \<Rightarrow> ('t, 'w, 'g) LocalExecutor \<Rightarrow> bool" where
  "queue_sound b s \<longleftrightarrow> queue_borrowed s = b \<and> (b \<longrightarrow> task_queue s = [])"

interpretation queue: executor_invariant "queue_sound b"
  by unfold_locales
    (auto simp: queue_sound_def rc_wake_by_ref_def spawn_def assert_that_def bind_eq_Some_conv split: if_splits)

lemma drain_result:
  assumes "drain_task_queue beh s = Some s'" shows "queue_sound False s' \<and> task_queue s' = []"
  using assms queue.keep_push_tasks [where b = True]
  by (force simp: drain_task_queue_def bind_eq_Some_conv queue_sound_def)

lemma wake_sound_queue_update [simp]:
  "wake_sound w (t\<lparr>queue_borrowed := b\<rparr>) = wake_sound w t"
  "wake_sound w (t\<lparr>task_queue := ts\<rparr>) = wake_sound w t"
  by (simp_all add: wake_sound_def)

lemma drain_wake_sound:
  assumes "drain_task_queue beh s = Some s'" "wake_sound w s" shows "wake_sound w s'"
proof -
  from assms(1) obtain t where
    t: "foldM (\<lambda>t self. map_option snd (push_task beh t self)) (task_queue s)
      (s\<lparr>task_queue := [], queue_borrowed := True\<rparr>) = Some t" "s' = t\<lparr>queue_borrowed := False\<rparr>"
    by (auto simp: drain_task_queue_def bind_eq_Some_conv)
  from wakes.keep_push_tasks [OF t(1)] assms(2) t(2) show ?thesis by simp
qed

section \<open>The phases of a poll\<close>

text \<open>The four intermediate states of a poll of the handle that returns.\<close>

lemma handle_pollE:
  assumes "handle_poll beh w s = Some (r, s')"
  obtains s1 s2 s3 where "poll_all beh s = Some s1" "drain_task_queue beh s1 = Some s2"
    "foldM (poll_future beh) (wake_queue s2) (s2\<lparr>outer_wakers := outer_wakers s2 @ [w], wake_queue := []\<rparr>) = Some s3"
    "wake_queue s2 = [] \<and> s' = s3 \<and> r = (if check_if_done s2 then Pending else Ready ())
      \<or> wake_queue s2 \<noteq> [] \<and> drain_task_queue beh s3 = Some s' \<and> r = Pending"
  using assms
  by (auto simp: handle_poll_def wake_pending_def executor_poll_def bind_eq_Some_conv Let_def
      check_if_done_def split: if_splits)

lemma handle_poll_wake_sound:
  assumes "handle_poll beh w s = Some (r, s')" shows "wake_sound w s'"
proof -
  from assms obtain s1 s2 s3 where "poll_all beh s = Some s1" "drain_task_queue beh s1 = Some s2"
    and s3: "foldM (poll_future beh) (wake_queue s2) (s2\<lparr>outer_wakers := outer_wakers s2 @ [w], wake_queue := []\<rparr>) = Some s3"
    and s': "wake_queue s2 = [] \<and> s' = s3 \<and> r = (if check_if_done s2 then Pending else Ready ())
      \<or> wake_queue s2 \<noteq> [] \<and> drain_task_queue beh s3 = Some s' \<and> r = Pending"
    by (rule handle_pollE)
  have "wake_sound w s3"
    by (rule wakes.keep_poll_list [OF s3]) (simp add: wake_sound_def)
  from s' this drain_wake_sound [OF _ this, of beh s'] show ?thesis by presburger
qed

lemma handle_poll_queue:
  assumes "handle_poll beh w s = Some (r, s')" shows "task_queue s' = [] \<and> \<not> queue_borrowed s'"
proof -
  from assms obtain s1 s2 s3 where "poll_all beh s = Some s1" and s2: "drain_task_queue beh s1 = Some s2"
    and s3: "foldM (poll_future beh) (wake_queue s2) (s2\<lparr>outer_wakers := outer_wakers s2 @ [w], wake_queue := []\<rparr>) = Some s3"
    and s': "wake_queue s2 = [] \<and> s' = s3 \<and> r = (if check_if_done s2 then Pending else Ready ())
      \<or> wake_queue s2 \<noteq> [] \<and> drain_task_queue beh s3 = Some s' \<and> r = Pending"
    by (rule handle_pollE)
  note d = drain_result [OF s2] drain_result [of beh s3 s']
  from s' show ?thesis
  proof
    assume "wake_queue s2 = [] \<and> s' = s3 \<and> r = (if check_if_done s2 then Pending else Ready ())"
    then show ?thesis using s3 d(1) by (auto simp: queue_sound_def)
  next
    assume "wake_queue s2 \<noteq> [] \<and> drain_task_queue beh s3 = Some s' \<and> r = Pending"
    then show ?thesis using d(2) by (simp add: queue_sound_def)
  qed
qed

section \<open>No wake-up is lost\<close>

text \<open>
  C10. When a poll of the executor handle returns and some task is still in the wake queue, the waker
  of the surrounding context has been woken during that poll, so the executor will be polled again.
  No spawned task is left in the spawn queue.
\<close>

theorem executor_no_lost_wakeup:
  assumes "handle_poll beh w s = Some (r, s')" and "outer_woken s = []"
  shows "(wake_queue s' \<noteq> [] \<longrightarrow> w \<in> set (outer_woken s')) \<and> task_queue s' = [] \<and> \<not> queue_borrowed s'"
  using handle_poll_wake_sound [OF assms(1)] handle_poll_queue [OF assms(1)]
  by (auto simp: wake_sound_def)

text \<open>A task that counts down, waking itself each time, and finishes at zero.\<close>

definition countdown :: "(nat, nat) behaviour" where
  "countdown index n g = (if n = 0 then (Ready (), 0, [], Suc g) else (Pending, n - 1, [Wake index], Suc g))"

lemmas executor_run_defs =
  handle_poll_def poll_all_def drain_task_queue_def executor_poll_def wake_pending_def push_task_def
  poll_future_def check_if_done_def executor_new_def countdown_def rc_wake_by_ref_def assert_that_def

theorem executor_no_lost_wakeup_witness:
  "(let s = (executor_new 0)\<lparr>task_queue := [3]\<rparr>
    in \<exists>s'. handle_poll countdown () s = Some (Pending, s') \<and> tasks s' = [Some 1]
         \<and> wake_queue s' \<noteq> [] \<and> () \<in> set (outer_woken s'))"
proof -
  have run: "\<exists>s'. handle_poll countdown () ((executor_new 0)\<lparr>task_queue := [3]\<rparr>) = Some (Pending, s')
      \<and> tasks s' = [Some 1] \<and> wake_queue s' \<noteq> []"
    by (simp add: executor_run_defs)
  have "outer_woken ((executor_new 0)\<lparr>task_queue := [3]\<rparr>) = []"
    by (simp add: executor_new_def)
  with run executor_no_lost_wakeup [of countdown "()" "(executor_new 0)\<lparr>task_queue := [3]\<rparr>"]
  show ?thesis by (auto simp: Let_def)
qed

text \<open>
  C11. The endless loop that drives the executor never idles while a task is in the wake queue: after
  any number of iterations, if a task is in the wake queue the ready flag is set, and the next
  iteration polls the executor.
\<close>

theorem driver_never_sleeps_on_work:
  assumes "((\<lambda>d. Option.bind d (driver_iteration (poll_executor beh))) ^^ n)
      (Some (driver_start ((executor_new g)\<lparr>task_queue := ts\<rparr>))) = Some d"
    and "wake_queue (future d) \<noteq> []"
  shows "ready_flag d \<and> driver_iteration (poll_executor beh) d
    = map_option (\<lambda>(woke, s). d\<lparr>ready_flag := woke, future := s\<rparr>) (poll_executor beh (future d))"
proof -
  have "wake_queue (future d) \<noteq> [] \<longrightarrow> ready_flag d"
    using assms(1)
  proof (induction n arbitrary: d)
    case 0
    then show ?case by (auto simp: driver_start_def executor_new_def)
  next
    case (Suc n)
    then obtain d0 where d0: "driver_iteration (poll_executor beh) d0 = Some d"
      "wake_queue (future d0) \<noteq> [] \<longrightarrow> ready_flag d0"
      by (auto simp: bind_eq_Some_conv)
    show ?case
    proof (cases "ready_flag d0")
      case True
      with d0(1) obtain woke s where s: "poll_executor beh (future d0) = Some (woke, s)"
        "d = d0\<lparr>ready_flag := woke, future := s\<rparr>"
        by (auto simp: driver_iteration_def bind_eq_Some_conv)
      then obtain r where "handle_poll beh () ((future d0)\<lparr>outer_woken := []\<rparr>) = Some (r, s)"
        "woke \<longleftrightarrow> outer_woken s \<noteq> []"
        by (auto simp: poll_executor_def bind_eq_Some_conv)
      with handle_poll_wake_sound [of beh "()" "(future d0)\<lparr>outer_woken := []\<rparr>" r s] s(2)
      show ?thesis by (auto simp: wake_sound_def)
    next
      case False
      with d0 show ?thesis by (auto simp: driver_iteration_def)
    qed
  qed
  with assms(2) show ?thesis
    by (cases "poll_executor beh (future d)") (auto simp: driver_iteration_def)
qed

theorem driver_never_sleeps_on_work_witness:
  "\<exists>d. driver_iteration (poll_executor countdown)
        (driver_start ((executor_new 0)\<lparr>task_queue := [3]\<rparr>)) = Some d
      \<and> wake_queue (future d) = [0] \<and> ready_flag d"
proof -
  let ?start = "driver_start ((executor_new 0)\<lparr>task_queue := [3]\<rparr>)"
  have "\<exists>d. driver_iteration (poll_executor countdown) ?start = Some d \<and> wake_queue (future d) = [0]"
    by (simp add: driver_iteration_def driver_start_def poll_executor_def executor_run_defs)
  with driver_never_sleeps_on_work [where n = 1 and beh = countdown and g = 0 and ts = "[3]"]
  show ?thesis by auto
qed

section \<open>When a poll panics\<close>

primrec spawned :: "'t effect list \<Rightarrow> 't list" where
  "spawned [] = []"
| "spawned (e # es) = (case e of Wake _ \<Rightarrow> spawned es | Spawn t \<Rightarrow> t # spawned es)"

text \<open>A task state is quiet when a poll in it spawns nothing.\<close>

definition effects_of :: "('t, 'g) behaviour \<Rightarrow> nat \<Rightarrow> 't \<Rightarrow> 'g \<Rightarrow> 't effect list" where
  "effects_of beh i t g = fst (snd (snd (beh i t g)))"

definition quiet :: "('t, 'g) behaviour \<Rightarrow> 't \<Rightarrow> bool" where
  "quiet beh t \<longleftrightarrow> (\<forall>i g. spawned (effects_of beh i t g) = [])"

definition spawns_quiet :: "('t, 'g) behaviour \<Rightarrow> bool" where
  "spawns_quiet beh \<longleftrightarrow> (\<forall>i t g. \<forall>t'\<in>set (spawned (effects_of beh i t g)). quiet beh t')"

lemma apply_effects_Some:
  "queue_borrowed s \<longrightarrow> spawned es = [] \<Longrightarrow>
   \<exists>s'. foldM apply_effect es s = Some s' \<and> queue_borrowed s' = queue_borrowed s
     \<and> task_queue s' = task_queue s @ spawned es \<and> tasks s' = tasks s"
proof (induction es arbitrary: s)
  case (Cons e es)
  show ?case
  proof (cases e)
    case (Wake i)
    with Cons.IH [of "rc_wake_by_ref i s"] Cons.prems show ?thesis by (simp add: rc_wake_by_ref_def)
  next
    case (Spawn t)
    with Cons.IH [of "s\<lparr>task_queue := task_queue s @ [t]\<rparr>"] Cons.prems show ?thesis
      by (simp add: spawn_def assert_that_def)
  qed
qed simp

lemma apply_effects_None:
  "queue_borrowed s \<Longrightarrow> spawned es \<noteq> [] \<Longrightarrow> foldM apply_effect es s = None"
proof (induction es arbitrary: s)
  case (Cons e es)
  then show ?case
    by (cases e) (auto simp: rc_wake_by_ref_def spawn_def assert_that_def)
qed simp

lemma poll_future_task:
  assumes "i < length (tasks s)" "tasks s ! i = Some t"
    and "queue_borrowed s \<longrightarrow> spawned (effects_of beh i t (shared_env s)) = []"
  shows "\<exists>s'. poll_future beh i s = Some s' \<and> queue_borrowed s' = queue_borrowed s
    \<and> task_queue s' = task_queue s @ spawned (effects_of beh i t (shared_env s))"
proof -
  obtain r t' es g where b: "beh i t (shared_env s) = (r, t', es, g)" by (cases "beh i t (shared_env s)")
  with apply_effects_Some [of "s\<lparr>shared_env := g\<rparr>" es] assms show ?thesis
    by (auto simp: poll_future_def effects_of_def)
qed

definition queue_quiet :: "('t, 'g) behaviour \<Rightarrow> ('t, 'w, 'g) LocalExecutor \<Rightarrow> bool" where
  "queue_quiet beh s \<longleftrightarrow> \<not> queue_borrowed s \<and> (\<forall>t\<in>set (task_queue s). quiet beh t)"

lemma poll_future_quiet:
  assumes "spawns_quiet beh" "queue_quiet beh s"
  shows "\<exists>s'. poll_future beh i s = Some s' \<and> queue_quiet beh s'"
proof (cases "i < length (tasks s) \<and> tasks s ! i \<noteq> None")
  case True
  then obtain t where "tasks s ! i = Some t" "i < length (tasks s)" by auto
  with poll_future_task [of i s t beh] assms show ?thesis
    by (auto simp: queue_quiet_def spawns_quiet_def)
next
  case False
  then have "poll_future beh i s = Some s" by (auto simp: poll_future_def)
  with assms(2) show ?thesis by simp
qed

lemma poll_list_quiet:
  assumes "spawns_quiet beh" "queue_quiet beh s"
  shows "\<exists>s'. foldM (poll_future beh) is s = Some s' \<and> queue_quiet beh s'"
  using assms(2)
proof (induction "is" arbitrary: s)
  case (Cons i "is")
  with poll_future_quiet [OF assms(1), of s i] show ?case by auto
qed simp

lemma first_free_Some: "first_free ts = Some i \<Longrightarrow> i < length ts \<and> ts ! i = None"
  by (induction ts arbitrary: i rule: first_free.induct) auto

lemma push_task_borrowed:
  assumes "queue_borrowed s" "quiet beh t"
  shows "\<exists>i s'. push_task beh t s = Some (i, s') \<and> queue_borrowed s'"
proof (cases "first_free (tasks s)")
  case None
  with poll_future_task [of "length (tasks s)" "s\<lparr>tasks := tasks s @ [Some t]\<rparr>" t beh] assms
  show ?thesis by (auto simp: push_task_def quiet_def)
next
  case (Some i)
  with poll_future_task [of i "s\<lparr>tasks := (tasks s)[i := Some t]\<rparr>" t beh] first_free_Some [OF Some] assms
  show ?thesis by (auto simp: push_task_def quiet_def)
qed

lemma push_tasks_borrowed:
  "queue_borrowed s \<Longrightarrow> \<forall>t\<in>set ts. quiet beh t \<Longrightarrow>
   \<exists>s'. foldM (\<lambda>t self. map_option snd (push_task beh t self)) ts s = Some s'"
proof (induction ts arbitrary: s)
  case (Cons t ts)
  with push_task_borrowed [of s beh t] obtain i s1 where
    "push_task beh t s = Some (i, s1)" "queue_borrowed s1" by auto
  with Cons.IH [of s1] Cons.prems show ?case by auto
qed simp

lemma drain_quiet:
  assumes "queue_quiet beh s"
  shows "\<exists>s'. drain_task_queue beh s = Some s' \<and> queue_quiet beh s'"
proof -
  from assms push_tasks_borrowed [of "s\<lparr>task_queue := [], queue_borrowed := True\<rparr>" "task_queue s" beh]
  obtain s' where "drain_task_queue beh s = Some s'"
    by (auto simp: drain_task_queue_def queue_quiet_def assert_that_def)
  with drain_result [OF this] show ?thesis by (auto simp: queue_quiet_def queue_sound_def)
qed

text \<open>
  C25. A poll of the executor handle returns (it does not panic) whenever the tasks in the spawn queue,
  and every task that tasks ever spawn, spawn nothing in their first poll.
\<close>

theorem executor_poll_returns:
  assumes "spawns_quiet beh" and "\<not> queue_borrowed s" and "\<forall>t\<in>set (task_queue s). quiet beh t"
  shows "\<exists>r s'. handle_poll beh w s = Some (r, s')"
proof -
  have "queue_quiet beh s" using assms by (simp add: queue_quiet_def)
  with poll_list_quiet [OF assms(1)] obtain s1 where s1: "poll_all beh s = Some s1" "queue_quiet beh s1"
    by (fastforce simp: poll_all_def)
  from drain_quiet [OF s1(2)] obtain s2 where s2: "drain_task_queue beh s1 = Some s2" "queue_quiet beh s2" by blast
  let ?s = "s2\<lparr>outer_wakers := outer_wakers s2 @ [w], wake_queue := []\<rparr>"
  have "queue_quiet beh ?s" using s2(2) by (simp add: queue_quiet_def)
  from poll_list_quiet [OF assms(1) this, of "wake_queue s2"] obtain s3 where
    s3: "foldM (poll_future beh) (wake_queue s2) ?s = Some s3" "queue_quiet beh s3" by blast
  from drain_quiet [OF s3(2)] obtain s4 where "drain_task_queue beh s3 = Some s4" by blast
  with s1 s2 s3 show ?thesis
    by (simp add: handle_poll_def executor_poll_def wake_pending_def Let_def)
qed

theorem executor_poll_returns_witness:
  "\<exists>r s'. handle_poll countdown () ((executor_new 0)\<lparr>task_queue := [3]\<rparr>) = Some (r, s')"
proof -
  have "spawned (effects_of countdown i n g) = []" for i n g
    by (simp add: effects_of_def countdown_def)
  then have "spawns_quiet countdown" "\<forall>t\<in>set [3]. quiet countdown t"
    by (simp_all add: spawns_quiet_def quiet_def)
  moreover have "\<not> queue_borrowed ((executor_new 0)\<lparr>task_queue := [3]\<rparr>)"
    "task_queue ((executor_new 0)\<lparr>task_queue := [3]\<rparr>) = [3]"
    by (simp_all add: executor_new_def)
  ultimately show ?thesis
    using executor_poll_returns [of countdown "(executor_new 0)\<lparr>task_queue := [3]\<rparr>" "()"] by metis
qed

text \<open>
  A task in the spawn queue that spawns another task in its first poll makes the poll of the
  handle panic: the queue is still borrowed by the loop that drains it.
\<close>

theorem executor_first_poll_spawn_panics:
  assumes "tasks s = []" and "task_queue s = t # ts"
    and "spawned (effects_of beh 0 t (shared_env s)) \<noteq> []"
  shows "handle_poll beh w s = None"
proof -
  obtain r t' es g where b: "beh 0 t (shared_env s) = (r, t', es, g)"
    by (cases "beh 0 t (shared_env s)")
  have "poll_future beh 0 (s\<lparr>task_queue := [], queue_borrowed := True, tasks := [Some t]\<rparr>) = None"
    using assms(3) b
      apply_effects_None [of "s\<lparr>task_queue := [], queue_borrowed := True, tasks := [Some t], shared_env := g\<rparr>" es]
    by (simp add: poll_future_def effects_of_def)
  then show ?thesis
    using assms(1,2) by (simp add: handle_poll_def poll_all_def drain_task_queue_def push_task_def assert_that_def)
qed

theorem executor_first_poll_spawn_panics_witness:
  "handle_poll (\<lambda>i n g. (Pending, n, [Spawn (n + 1)], g)) () ((executor_new ())\<lparr>task_queue := [0 :: nat]\<rparr>) = None"
  by (rule executor_first_poll_spawn_panics [where t = 0 and ts = "[]"])
    (simp_all add: executor_new_def effects_of_def)

text \<open>
  The poll result of the executor handle is the opposite of what a future means by it: it says
  \<^verbatim>\<open>Ready\<close> only when some task has not finished and none is woken, and when every task has finished
  and nothing was woken or spawned it says \<^verbatim>\<open>Pending\<close>.
\<close>

theorem executor_ready_means_unfinished:
  assumes "handle_poll beh w s = Some (r, s')"
  shows "(r = Ready () \<longrightarrow> \<not> check_if_done s' \<and> wake_queue s' = [])
    \<and> (check_if_done s \<longrightarrow> wake_queue s = [] \<longrightarrow> task_queue s = [] \<longrightarrow> r = Pending)"
proof -
  from assms obtain s1 s2 s3 where s1: "poll_all beh s = Some s1" and s2: "drain_task_queue beh s1 = Some s2"
    and s3: "foldM (poll_future beh) (wake_queue s2) (s2\<lparr>outer_wakers := outer_wakers s2 @ [w], wake_queue := []\<rparr>) = Some s3"
    and s': "wake_queue s2 = [] \<and> s' = s3 \<and> r = (if check_if_done s2 then Pending else Ready ())
      \<or> wake_queue s2 \<noteq> [] \<and> drain_task_queue beh s3 = Some s' \<and> r = Pending"
    by (rule handle_pollE)
  have "\<not> check_if_done s' \<and> wake_queue s' = []" if "r = Ready ()"
    using that s' s3 by (auto simp: check_if_done_def split: if_splits)
  moreover have "r = Pending" if fin: "check_if_done s" and q: "task_queue s = []"
  proof -
    have none: "poll_future beh i s = Some s" for i
      using fin by (auto simp: poll_future_def check_if_done_def list_ex_iff split: option.splits)
        (metis nth_mem option.distinct(1))
    have "foldM (poll_future beh) is s = Some s" for "is" by (induction "is") (simp_all add: none)
    with s1 have "s1 = s" by (simp add: poll_all_def)
    with s2 q have "s2 = s" by (cases s) (auto simp: drain_task_queue_def assert_that_def bind_eq_Some_conv split: if_splits)
    with s' fin show ?thesis by auto
  qed
  ultimately show ?thesis by blast
qed

theorem executor_ready_means_unfinished_witness:
  "\<exists>s'. handle_poll (\<lambda>i n g. (Pending, n, [], g)) () ((executor_new ())\<lparr>task_queue := [0 :: nat]\<rparr>)
      = Some (Ready (), s') \<and> \<not> check_if_done s'"
proof -
  have "\<exists>s'. handle_poll (\<lambda>i n g. (Pending, n, [], g)) () ((executor_new ())\<lparr>task_queue := [0 :: nat]\<rparr>)
      = Some (Ready (), s')"
    by (simp add: executor_run_defs)
  with executor_ready_means_unfinished
    [of "\<lambda>i n g. (Pending, n, [], g)" "()" "(executor_new ())\<lparr>task_queue := [0 :: nat]\<rparr>"]
  show ?thesis by blast
qed

end
