(* ===== verification/Traps.thy ===== *)
theory Traps
  imports Cpu
begin

text \<open>
  \<^verbatim>\<open>kernel_sbi\<close>, \<^verbatim>\<open>kernel_main/src/timer.rs\<close>, \<^verbatim>\<open>kernel_main/src/trap_handler.rs\<close>, \<^verbatim>\<open>kernel_process\<close>,
  \<^verbatim>\<open>kernel_syscall\<close> and \<^verbatim>\<open>kernel_allocator\<close>: what the kernel does at a trap, the calls into the
  firmware it makes, the frames it builds for processes, system calls, and the heap it hands to the
  allocator.

  The firmware is outside the repository: an \<^verbatim>\<open>ecall\<close> is a parameter that takes the registers the
  kernel sets and the state \<open>'m\<close> of the machine below, and gives \<^verbatim>\<open>a0\<close>, \<^verbatim>\<open>a1\<close> and the new state. The
  assembly that switches between trap frames is a parameter here; Trap_Asm models it.
\<close>

section \<open>Firmware calls\<close>

datatype SBIError =
    Success | Failed | NotSupported | InvalidParam | Denied | InvalidAddress
  | AlreadyAvailable | AlreadyStarted | AlreadyStopped | UnknownError

definition from_isize :: "int \<Rightarrow> SBIError" where
  "from_isize v =
     (if v = 0 then Success else if v = - 1 then Failed else if v = - 2 then NotSupported
      else if v = - 3 then InvalidParam else if v = - 4 then Denied else if v = - 5 then InvalidAddress
      else if v = - 6 then AlreadyAvailable else if v = - 7 then AlreadyStarted
      else if v = - 8 then AlreadyStopped else UnknownError)"

record ecall_regs =
  reg_a7 :: usize
  reg_a6 :: usize
  reg_args :: "usize list"

type_synonym 'm firmware = "ecall_regs \<Rightarrow> 'm \<Rightarrow> (usize \<times> usize) \<times> 'm"

definition sbi_result :: "usize \<times> usize \<Rightarrow> SBIError + usize" where
  "sbi_result = (\<lambda>(error_code, return_value).
     if error_code = 0 then Inr return_value else Inl (from_isize (sint return_value)))"

definition call_sbi_0 :: "'m firmware \<Rightarrow> usize \<Rightarrow> usize \<Rightarrow> 'm \<Rightarrow> (SBIError + usize) \<times> 'm" where
  "call_sbi_0 ecall extension_id function_id m =
     (let (r, m) = ecall \<lparr>reg_a7 = extension_id, reg_a6 = function_id, reg_args = []\<rparr> m in (sbi_result r, m))"

definition call_sbi_1 :: "'m firmware \<Rightarrow> usize \<Rightarrow> usize \<Rightarrow> usize \<Rightarrow> 'm \<Rightarrow> (SBIError + usize) \<times> 'm" where
  "call_sbi_1 ecall extension_id function_id a0 m =
     (let (r, m) = ecall \<lparr>reg_a7 = extension_id, reg_a6 = function_id, reg_args = [a0]\<rparr> m in (sbi_result r, m))"

definition call_sbi_2 :: "'m firmware \<Rightarrow> usize \<Rightarrow> usize \<Rightarrow> usize \<Rightarrow> usize \<Rightarrow> 'm \<Rightarrow> (SBIError + usize) \<times> 'm" where
  "call_sbi_2 ecall extension_id function_id a0 a1 m =
     (let (r, m) = ecall \<lparr>reg_a7 = extension_id, reg_a6 = function_id, reg_args = [a0, a1]\<rparr> m
      in (sbi_result r, m))"

definition call_sbi_3 ::
  "'m firmware \<Rightarrow> usize \<Rightarrow> usize \<Rightarrow> usize \<Rightarrow> usize \<Rightarrow> usize \<Rightarrow> 'm \<Rightarrow> (SBIError + usize) \<times> 'm" where
  "call_sbi_3 ecall extension_id function_id a0 a1 a2 m =
     (let (r, m) = ecall \<lparr>reg_a7 = extension_id, reg_a6 = function_id, reg_args = [a0, a1, a2]\<rparr> m
      in (sbi_result r, m))"

definition erase :: "SBIError + usize \<Rightarrow> SBIError + unit" where
  "erase r = (case r of Inl e \<Rightarrow> Inl e | Inr _ \<Rightarrow> Inr ())"

definition set_absolute_timer :: "'m firmware \<Rightarrow> u64 \<Rightarrow> 'm \<Rightarrow> (SBIError + unit) \<times> 'm" where
  "set_absolute_timer ecall t m = (let (r, m) = call_sbi_1 ecall 0x54494D45 0 t m in (erase r, m))"

definition shutdown :: "'m firmware \<Rightarrow> usize \<Rightarrow> 'm \<Rightarrow> 'm" where
  "shutdown ecall reason m = snd (call_sbi_2 ecall 0x53525354 0 0 reason m)"

definition start_hart :: "'m firmware \<Rightarrow> usize \<Rightarrow> usize \<Rightarrow> usize \<Rightarrow> 'm \<Rightarrow> (SBIError + unit) \<times> 'm" where
  "start_hart ecall hart_id start_addr opaque m =
     (let (r, m) = call_sbi_3 ecall 0x48534D 0 hart_id start_addr opaque m in (erase r, m))"

definition hart_get_status :: "'m firmware \<Rightarrow> usize \<Rightarrow> 'm \<Rightarrow> (SBIError + usize) \<times> 'm" where
  "hart_get_status ecall hart_id m = call_sbi_1 ecall 0x48534D 2 hart_id m"

section \<open>The timer\<close>

definition set_relative_timer :: "'m firmware \<Rightarrow> u64 \<Rightarrow> Hart \<times> 'm \<Rightarrow> Hart \<times> 'm" where
  "set_relative_timer ecall t = (\<lambda>(h, m). (h, snd (set_absolute_timer ecall (saturating_add (read_time h) t) m)))"

section \<open>The trap handler\<close>

definition make_interrupt_nonpending :: "'m firmware \<Rightarrow> usize \<Rightarrow> Hart \<times> 'm \<Rightarrow> Hart \<times> 'm" where
  "make_interrupt_nonpending ecall cause = (\<lambda>(h, m).
     if cause = SUPERVISOR_TIMER then (h, snd (set_absolute_timer ecall (- 1) m))
     else if cause = SUPERVISOR_SOFTWARE then (write_sip (read_sip h AND NOT SSIP) h, m)
     else (h, m))"

text \<open>The handler ends by switching to a saved frame, which does not return, or by returning.\<close>

datatype trap_exit = SwitchTo usize | Returns

definition trap_handler :: "'m firmware \<Rightarrow> Hart \<times> 'm \<Rightarrow> (trap_exit \<times> Hart \<times> 'm) option" where
  "trap_handler ecall = (\<lambda>(h, m). do {
     let cause = read_scause h;
     let is_interrupt = (drop_bit (64 - 1) cause \<noteq> 0);
     let cause = drop_bit 1 (push_bit 1 cause);
     (h, m) \<leftarrow> (if is_interrupt then Some (make_interrupt_nonpending ecall cause (h, m))
                 else do { get_xcause_explanation cause; Some (h, m) });
     frame \<leftarrow> current_frame h;
     let ctx = restore_context frame;
     Some (if ctx \<noteq> 0 then SwitchTo ctx else Returns, h, m)
   })"

section \<open>Processes\<close>

datatype ProcessState = Running | Paused | Exited

record Process =
  is_supervisor :: bool
  trap_frame :: TrapFrame
  process_name :: "string option"
  process_state :: ProcessState
  kernel_allocated_stack :: "usize option"

definition process_default :: Process where
  "process_default = \<lparr>is_supervisor = False, trap_frame = trap_frame_zeroed, process_name = None,
     process_state = Paused, kernel_allocated_stack = None\<rparr>"

text \<open>
  \<^verbatim>\<open>new_supervisor\<close>: the address of the freshly allocated stack of two pages is an argument; the field
  \<^verbatim>\<open>kernel_allocated_stack\<close> holds that address.
\<close>

definition new_supervisor :: "usize \<Rightarrow> (Process \<Rightarrow> Process) \<Rightarrow> usize \<Rightarrow> Hart \<Rightarrow> Process option" where
  "new_supervisor stack constructor function h = do {
     let this = process_default\<lparr>is_supervisor := True, kernel_allocated_stack := Some stack\<rparr>;
     frame \<leftarrow> set_register (trap_frame this) Sp stack;
     let frame = frame\<lparr>tf_pc := function\<rparr>;
     this_frame \<leftarrow> current_frame h;
     let frame = frame\<lparr>tf_satp := tf_satp this_frame, kernel_satp := tf_satp this_frame,
                        interrupt_stack := interrupt_stack this_frame\<rparr>;
     Some (constructor (this\<lparr>trap_frame := frame\<rparr>))
   }"

text \<open>
  \<^verbatim>\<open>switch_to_and_come_back\<close>: \<open>my_addr\<close> is the address of the new box of the frame in which the assembly saves
  the caller, and \<open>run\<close> is what happens from the switch to the process until the saved frame is
  restored. The box is dropped when the function returns.
\<close>

definition switch_to_and_come_back ::
  "usize \<Rightarrow> (Process \<Rightarrow> Hart \<Rightarrow> (Process \<times> Hart) option) \<Rightarrow> Process \<times> Hart \<Rightarrow> (Process \<times> Hart) option" where
  "switch_to_and_come_back my_addr run = (\<lambda>(self, h). do {
     let h = h\<lparr>frames := (frames h)(my_addr \<mapsto> zeroed_interrupt_context)\<rparr>;
     other \<leftarrow> current_frame h;
     let my_trap_frame = inherit_from zeroed_interrupt_context other;
     let my_trap_frame = my_trap_frame\<lparr>tf_satp := read_satp h, kernel_satp := read_satp h\<rparr>;
     let h = h\<lparr>frames := (frames h)(my_addr \<mapsto> my_trap_frame)\<rparr>;
     let self = self\<lparr>process_state := Running\<rparr>;
     let self = self\<lparr>trap_frame := (trap_frame self)\<lparr>restore_context := my_addr\<rparr>\<rparr>;
     (self, h) \<leftarrow> run self h;
     let self = self\<lparr>process_state := Paused\<rparr>;
     Some (self, h\<lparr>frames := (frames h)(my_addr := None)\<rparr>)
   })"

section \<open>System calls\<close>

datatype SyscallNumbers = Exit | UnknownSyscall

definition syscall_from :: "usize \<Rightarrow> SyscallNumbers" where
  "syscall_from n = (if n = 1 then Exit else UnknownSyscall)"

text \<open>
  The arms of the \<^verbatim>\<open>match\<close> name no imported variant: \<^verbatim>\<open>Exit\<close> is a pattern variable, so the first arm
  is always taken.
\<close>

definition do_syscall :: "Process \<Rightarrow> Process option" where
  "do_syscall process = do {
     syscall_number_value \<leftarrow> register_of (trap_frame process) A7;
     let syscall_number = syscall_from syscall_number_value;
     case syscall_number of _ \<Rightarrow> Some (process\<lparr>process_state := Exited\<rparr>)
   }"

definition do_syscall_and_drop_if_exit :: "Process \<Rightarrow> Process option option" where
  "do_syscall_and_drop_if_exit process = do {
     p \<leftarrow> do_syscall process;
     Some (if process_state p = Exited then None else Some p)
   }"

section \<open>The heap\<close>

text \<open>\<open>MIN_HEAP_SIZE\<close> is the constant of the slab allocator, which is outside the repository.\<close>

definition init_from_pointers :: "usize \<Rightarrow> usize \<Rightarrow> usize \<Rightarrow> (usize \<times> usize) option" where
  "init_from_pointers MIN_HEAP_SIZE start fin = do {
     heap_size \<leftarrow> checked_sub fin start;
     assert_that (MIN_HEAP_SIZE \<noteq> 0);
     let heap_size = heap_size div MIN_HEAP_SIZE;
     heap_size \<leftarrow> checked_mul heap_size MIN_HEAP_SIZE;
     Some (start, heap_size)
   }"

end
