(* ===== verification/Boot.thy ===== *)
theory Boot
  imports Paging Traps
begin

text \<open>
  \<^verbatim>\<open>kernel_bootloader/src/main.rs\<close> and the start-up code of \<^verbatim>\<open>kernel_main/src/main.rs\<close>: the page tables
  that the bootloader builds before it jumps to the kernel, the address translation of the kernel,
  the page table of a hart and the trap frame it runs with. The addresses of linker symbols and of the
  payload are arguments; the allocator is that of the page tables.
\<close>

section \<open>Address translation\<close>

text \<open>The gap of the kernel's half: \<^verbatim>\<open>0usize.wrapping_sub(1 << (sv_bits - 1))\<close>.\<close>

definition gap_of :: "usize \<Rightarrow> usize option" where
  "gap_of sv_bits = do {
     n \<leftarrow> checked_sub sv_bits 1;
     assert_that (unat n < 64);
     Some (0 - push_bit (unat n) 1)
   }"

definition phys_to_virt :: "usize \<Rightarrow> usize \<Rightarrow> usize option" where
  "phys_to_virt GAP phys_addr = checked_add phys_addr GAP"

definition virt_to_phys :: "usize \<Rightarrow> usize \<Rightarrow> usize option" where
  "virt_to_phys GAP virt_addr = checked_sub virt_addr GAP"

definition boot_phys_to_virt :: "usize \<Rightarrow> usize option" where
  "boot_phys_to_virt phys_addr = Some phys_addr"

definition boot_virt_to_phys :: "usize \<Rightarrow> usize option" where
  "boot_virt_to_phys virt_addr = Some virt_addr"

definition KERNEL_START_VIRTUAL :: usize where
  "KERNEL_START_VIRTUAL = usize_MAX - 0x80000000 + 1"

section \<open>The bootloader\<close>

definition boot_paging :: "usize \<Rightarrow> GenericPaging" where
  "boot_paging table_addr = \<lparr>root_table = table_addr, phys_to_virt_fn = boot_phys_to_virt,
     virt_to_phys_fn = boot_virt_to_phys\<rparr>"

text \<open>The two mappings that \<^verbatim>\<open>pre_main\<close> makes before it turns paging on.\<close>

definition pre_main_maps :: "allocator \<Rightarrow> usize \<Rightarrow> memory \<Rightarrow> memory option" where
  "pre_main_maps alloc table_addr mem = do {
     mem \<leftarrow> map_range 3 8 alloc (boot_paging table_addr) 0 0 (push_bit 38 1) 0xf mem;
     map_range 3 8 alloc (boot_paging table_addr) 0 (push_bit 38 1) (push_bit 38 1) 0xf mem
   }"

text \<open>The arguments the kernel's entry point is called with.\<close>

record main_args =
  arg_hartid :: usize
  arg_opaque :: usize
  arg_sv_bits :: usize
  arg_kernel_len :: usize
  arg_stack_start :: usize
  arg_hart_entry :: usize

record boot_image =
  table_addr :: usize
  heap_start :: usize
  payload_addr :: usize
  payload_len :: usize
  stack_start :: usize
  hart_entry_point :: usize
  min_heap_size :: usize

definition satp_of :: "usize \<Rightarrow> usize" where
  "satp_of addr = drop_bit 12 addr OR push_bit 60 8"

definition padded_len :: "usize \<Rightarrow> usize option" where
  "padded_len len = do { n \<leftarrow> checked_add (len div 4096) 1; checked_mul n 4096 }"

text \<open>
  \<^verbatim>\<open>pre_main\<close> up to the call of the kernel: a second call of it (\<open>already_booted\<close>) loops forever. The
  result is the arguments of the call, the heap, the hart and the memory.
\<close>

definition pre_main ::
  "allocator \<Rightarrow> boot_image \<Rightarrow> bool \<Rightarrow> usize \<Rightarrow> usize \<Rightarrow> Hart \<Rightarrow> memory
     \<Rightarrow> (main_args \<times> (usize \<times> usize) \<times> Hart \<times> memory) option" where
  "pre_main alloc img already_booted hart_id opaque h mem = do {
     assert_that (\<not> already_booted);
     let gap = 0 - push_bit 38 1;
     mem \<leftarrow> pre_main_maps alloc (table_addr img) mem;
     assert_that (table_addr img AND 4095 = 0);
     let h = write_satp (satp_of (table_addr img)) h;
     fin \<leftarrow> checked_add (heap_start img) 0x10000;
     heap \<leftarrow> init_from_pointers (min_heap_size img) (heap_start img) fin;
     len \<leftarrow> padded_len (payload_len img);
     mem \<leftarrow> map_range 3 8 alloc (boot_paging (table_addr img)) (payload_addr img) 0x7f80000000 len 0xf mem;
     sp \<leftarrow> checked_add (stack_start img) gap;
     Some (\<lparr>arg_hartid = hart_id, arg_opaque = opaque, arg_sv_bits = 39, arg_kernel_len = len,
             arg_stack_start = sp, arg_hart_entry = hart_entry_point img\<rparr>, heap, h, mem)
   }"

definition hart_entry :: "boot_image \<Rightarrow> usize \<Rightarrow> usize \<Rightarrow> main_args option" where
  "hart_entry img hart_id sp = do {
     top \<leftarrow> checked_add sp 0xffffffc000000000;
     Some \<lparr>arg_hartid = hart_id, arg_opaque = 0, arg_sv_bits = 39, arg_kernel_len = 0,
           arg_stack_start = top, arg_hart_entry = hart_entry_point img\<rparr>
   }"

section \<open>The kernel's own set-up of a hart\<close>

definition enable_interrupts :: "Hart \<Rightarrow> Hart" where
  "enable_interrupts h = write_sie (STIE OR SEIE OR SSIE) h"

definition disable_interrupts :: "Hart \<Rightarrow> Hart" where
  "disable_interrupts h = write_sie 0 h"

definition setup_hart_trap_frame :: "usize \<Rightarrow> usize \<Rightarrow> TrapFrame" where
  "setup_hart_trap_frame hart_id locals_addr =
     (let frame = trap_frame_zeroed\<lparr>hartid := hart_id\<rparr>;
          frame = tf_set_interrupt_context frame
      in frame\<lparr>hart_locals := locals_addr\<rparr>)"

text \<open>The addresses of the new boxes (hart locals, interrupt stack, trap frame) are arguments.\<close>

definition setup_hart_state_and_metadata :: "usize \<Rightarrow> usize \<Rightarrow> usize \<Rightarrow> usize \<Rightarrow> usize \<Rightarrow> Hart \<Rightarrow> Hart" where
  "setup_hart_state_and_metadata trap_vector locals_addr stack_end frame_addr hart_id h =
     (let h = write_stvec trap_vector h;
          h = write_sstatus (read_sstatus h OR status_SIE) h;
          frame = (setup_hart_trap_frame hart_id locals_addr)\<lparr>tf_pid := 1\<rparr>;
          frame = frame\<lparr>interrupt_stack := stack_end, tf_satp := read_satp h, kernel_satp := read_satp h\<rparr>;
          h = h\<lparr>frames := (frames h)(frame_addr \<mapsto> frame)\<rparr>
      in write_sscratch frame_addr h)"

text \<open>The page table a hart switches to at the start of \<^verbatim>\<open>common_hart_code\<close>.\<close>

definition common_hart_tables :: "allocator \<Rightarrow> usize \<Rightarrow> usize \<Rightarrow> Hart \<Rightarrow> memory \<Rightarrow> (Hart \<times> memory) option" where
  "common_hart_tables alloc GAP kernel_physical h mem = do {
     (addr, table) \<leftarrow> boxed_zeroed alloc mem;
     let mem = mem(addr \<mapsto> table);
     let sv39 = \<lparr>root_table = addr, phys_to_virt_fn = phys_to_virt GAP, virt_to_phys_fn = virt_to_phys GAP\<rparr>;
     mem \<leftarrow> map_range 3 8 alloc sv39 0 (push_bit 38 1) (push_bit 38 1) 0xf mem;
     mem \<leftarrow> map_range 3 8 alloc sv39 kernel_physical KERNEL_START_VIRTUAL 0x100000 0xf mem;
     r \<leftarrow> query 3 8 sv39 mem (KERNEL_START_VIRTUAL + 0x1000);
     assert_that (\<exists>p. r = Inr p \<and> p \<noteq> 0);
     assert_that (addr AND 4095 = 0);
     p \<leftarrow> virt_to_phys GAP addr;
     Some (write_satp (satp_of p) h, mem)
   }"

section \<open>The kernel's address space\<close>

definition half_entry :: "nat \<Rightarrow> Entry" where
  "half_entry k = superpage_entry 30 0xf (k mod 256)"

lemma pre_main_maps_Some:
  assumes "mem addr = Some (table_zeroed 8)"
  shows "pre_main_maps alloc addr mem = Some (mem(addr \<mapsto> \<lparr>entries = map half_entry [0..<512]\<rparr>))"
proof -
  let ?low = "\<lparr>entries = map (\<lambda>k. if 0 \<le> k \<and> k < 0 + 256 then superpage_entry 30 0xf (0 + (k - 0))
    else entries (table_zeroed 8) ! k) [0..<512]\<rparr>"
  have three: "(3 :: nat) = Suc (Suc 1)" and s: "(30 :: nat) = 12 + 9 * Suc 1" and fl: "(0xf :: usize) < 2 ^ 10"
    by simp_all
  have d: "decanonicalize_address (Suc (Suc 1)) 8 0 = (of_nat (0 * 2 ^ 30) :: usize)"
    "decanonicalize_address (Suc (Suc 1)) 8 (push_bit 38 1) = (of_nat (256 * 2 ^ 30) :: usize)"
    unfolding three [symmetric] by (simp_all add: decanonicalize_address_def get_vpn_offset_def Let_def)
  have w: "(0 :: usize) = of_nat (0 * 2 ^ 30)" "(push_bit 38 1 :: usize) = of_nat (256 * 2 ^ 30)"
    by simp_all
  have r: "root_table (boot_paging addr) = addr" by (simp add: boot_paging_def)
  have low: "map_range (Suc (Suc 1)) 8 alloc (boot_paging addr) (of_nat (0 * 2 ^ 30)) 0 (of_nat (256 * 2 ^ 30)) 0xf mem
    = Some (mem(addr \<mapsto> ?low))"
  proof -
    have t: "mem (root_table (boot_paging addr)) = Some (table_zeroed 8)" "length (entries (table_zeroed 8)) = 512"
      using assms by (simp_all add: r table_zeroed_def)
    have lf: "is_leaf (entries (table_zeroed 8) ! k)" if "0 \<le> k" "k < 0 + 256" for k
      using that by (simp add: table_zeroed_def entry_zeroed_def zero_entry_leaf)
    show ?thesis
      using map_range_superpages [where mem = mem and n = 256 and ?v0.0 = 0 and l = 1 and ?p0.0 = 0 and self = "boot_paging addr" and alloc = alloc, OF t _ _ _ _ fl lf d(1) s]
      unfolding r by simp
  qed
  have high: "map_range (Suc (Suc 1)) 8 alloc (boot_paging addr) (of_nat (0 * 2 ^ 30)) (push_bit 38 1)
      (of_nat (256 * 2 ^ 30)) 0xf (mem(addr \<mapsto> ?low))
    = Some (mem(addr \<mapsto> \<lparr>entries = map half_entry [0..<512]\<rparr>))"
  proof -
    have t: "(mem(addr \<mapsto> ?low)) (root_table (boot_paging addr)) = Some ?low" "length (entries ?low) = 512"
      by (simp_all add: r)
    have lf: "is_leaf (entries ?low ! k)" if "256 \<le> k" "k < 256 + 256" for k
      using that by (simp add: table_zeroed_def entry_zeroed_def zero_entry_leaf)
    have es: "map (\<lambda>k. if 256 \<le> k \<and> k < 256 + 256 then superpage_entry 30 0xf (0 + (k - 256))
        else entries ?low ! k) [0..<512] = map half_entry [0..<512]"
      by (rule map_cong [OF refl]) (auto simp: half_entry_def not_le le_mod_geq)
    show ?thesis
      using map_range_superpages [where mem = "mem(addr \<mapsto> ?low)" and n = 256 and ?v0.0 = 256 and l = 1 and ?p0.0 = 0 and self = "boot_paging addr" and alloc = alloc, OF t _ _ _ _ fl lf d(2) s]
      unfolding es r by (simp only: fun_upd_upd)
  qed
  show ?thesis
    unfolding pre_main_maps_def three using low high w by (simp only: bind.bind_lunit)
qed

lemma half_offset:
  assumes "unat (get_vpn_number va (Suc 1) 8) = k"
  shows "of_nat (k mod 256 * 2 ^ 30) OR take_bit 30 va = take_bit 38 va"
proof -
  define v0 where "v0 = k - k mod 256"
  have k: "k = unat va div 2 ^ 30 mod 512"
    using assms unat_get_vpn_number [of "Suc 1" va] by simp
  have "of_nat (k mod 256 * 2 ^ (12 + 9 * Suc 1)) OR take_bit (12 + 9 * Suc 1) va =
    take_bit (12 + 9 * Suc 1 + 9) va - of_nat (v0 * 2 ^ (12 + 9 * Suc 1)) + of_nat (0 * 2 ^ (12 + 9 * Suc 1))"
    by (rule superpage_offset [OF assms]) (auto simp: v0_def)
  then have e: "of_nat (k mod 256 * 2 ^ 30) OR take_bit 30 va = take_bit 39 va - of_nat (v0 * 2 ^ 30)"
    by (simp del: of_nat_mult of_nat_power)
  have "unat va mod 2 ^ 39 = v0 * 2 ^ 30 + unat va mod 2 ^ 38"
  proof -
    have "unat va mod 2 ^ 39 = 2 ^ 30 * k + unat va mod 2 ^ 30"
      using mod_mult2_eq [of "unat va" "2 ^ 30" 512] k by simp
    moreover have "unat va mod 2 ^ 38 = 2 ^ 30 * (k mod 256) + unat va mod 2 ^ 30"
      using mod_mult2_eq [of "unat va" "2 ^ 30" 256] k by (simp add: mod_mod_cancel)
    moreover have "2 ^ 30 * k = v0 * 2 ^ 30 + 2 ^ 30 * (k mod 256)"
      unfolding mult.commute [of v0] add_mult_distrib2 [symmetric] by (simp add: v0_def)
    ultimately show ?thesis by (simp only: add.assoc)
  qed
  moreover have tb: "take_bit n va = of_nat (unat va mod 2 ^ n)" for n
    by (simp flip: take_bit_eq_mod unsigned_take_bit_eq)
  ultimately have "take_bit 39 va = of_nat (v0 * 2 ^ 30) + take_bit 38 va"
    unfolding tb by (simp only: of_nat_add)
  then show ?thesis using e by simp
qed

lemma pre_main_query:
  assumes "mem addr = Some (table_zeroed 8)" and "pre_main_maps alloc addr mem = Some mem'"
  shows "query 3 8 (boot_paging addr) mem' va = Some (Inr (take_bit 38 va))"
proof -
  define k where "k = unat (get_vpn_number va (Suc 1) 8)"
  have three: "(3 :: nat) = Suc (Suc 1)" and s: "(30 :: nat) = 12 + 9 * Suc 1" "Suc (Suc 1) - 1 = Suc 1"
    by simp_all
  have k: "k < 512" using unat_get_vpn_number_less [of 8 "Suc 1" va] by (simp add: k_def)
  have m: "mem' = mem(addr \<mapsto> \<lparr>entries = map half_entry [0..<512]\<rparr>)"
    using assms pre_main_maps_Some by simp
  have "mem_entry mem' addr k = Some (half_entry k)"
    using k by (simp add: m mem_entry_def table_index_def)
  moreover have "root_table (boot_paging addr) = addr" by (simp add: boot_paging_def)
  ultimately have "query 3 8 (boot_paging addr) mem' va
      = walk_entry (Suc (Suc 1)) 8 (phys_to_virt_fn (boot_paging addr)) mem' va (Suc 1) (half_entry k)"
    unfolding query_def query_loop_walk three s(2) k_def by (simp only: bind.bind_lunit)
  also have "\<dots> = Some (Inr (of_nat (k mod 256 * 2 ^ 30) OR take_bit 30 va))"
    unfolding half_entry_def s(1) by (rule superpage_translation [OF k_def [symmetric]]) simp_all
  finally show ?thesis
    unfolding half_offset [OF k_def [symmetric]] .
qed

lemma gap_39: "gap_of 39 = Some 0xffffffc000000000"
  by (simp add: gap_of_def checked_sub_def)

lemma kernel_half_take_bit:
  assumes "p < 2 ^ 38"
  shows "take_bit 38 p = p" and "take_bit 38 (p + 0xffffffc000000000) = (p :: usize)"
proof -
  show p: "take_bit 38 p = p"
    using assms by (simp add: word_unat_eq_iff unsigned_take_bit_eq take_bit_nat_eq_self word_less_nat_alt)
  have n: "unat p < 2 ^ 38" using assms by (simp add: word_less_nat_alt)
  then have u: "unat (p + 0xffffffc000000000) = unat p + 0x3ffffff * 2 ^ 38"
    by (simp add: unat_word_ariths)
  have "take_bit 38 (unat p + 0x3ffffff * 2 ^ 38) = unat p"
    using n by (simp only: take_bit_eq_mod mod_mult_self1 mod_less)
  then show "take_bit 38 (p + 0xffffffc000000000) = p"
    by (simp only: word_unat_eq_iff unsigned_take_bit_eq u)
qed

text \<open>
  The two mappings that the bootloader makes in a zeroed page table succeed whatever the
  allocator, and give the address space that the kernel's address functions assume: every virtual address is
  translated to its low 38 bits; so each physical address below \<open>2\<^sup>3\<^sup>8\<close> is mapped at itself and
  at the address \<^verbatim>\<open>phys_to_virt\<close> gives for \<^verbatim>\<open>sv_bits = 39\<close>, which \<^verbatim>\<open>virt_to_phys\<close> takes back.
\<close>

theorem boot_address_space:
  assumes "mem addr = Some (table_zeroed 8)"
  shows "\<exists>mem' GAP. pre_main_maps alloc addr mem = Some mem' \<and> gap_of 39 = Some GAP
    \<and> (\<forall>va. query 3 8 (boot_paging addr) mem' va = Some (Inr (take_bit 38 va)))
    \<and> (\<forall>p<2 ^ 38. query 3 8 (boot_paging addr) mem' p = Some (Inr p)
        \<and> (\<exists>v. phys_to_virt GAP p = Some v \<and> virt_to_phys GAP v = Some p
             \<and> query 3 8 (boot_paging addr) mem' v = Some (Inr p)))"
proof (intro exI conjI allI impI)
  let ?GAP = "0xffffffc000000000 :: usize"
  let ?mem = "mem(addr \<mapsto> \<lparr>entries = map half_entry [0..<512]\<rparr>)"
  show m: "pre_main_maps alloc addr mem = Some ?mem" by (rule pre_main_maps_Some [of mem, OF assms])
  note q = pre_main_query [of mem, OF assms m]
  show "gap_of 39 = Some ?GAP" by (rule gap_39)
  show "query 3 8 (boot_paging addr) ?mem va = Some (Inr (take_bit 38 va))" for va by (rule q)
  fix p :: usize
  assume p: "p < 2 ^ 38"
  note t = kernel_half_take_bit [OF p]
  show "query 3 8 (boot_paging addr) ?mem p = Some (Inr p)" by (simp only: q t)
  have n: "unat p < 2 ^ 38" using p by (simp add: word_less_nat_alt)
  show "phys_to_virt ?GAP p = Some (p + ?GAP)"
    using n by (simp add: phys_to_virt_def checked_add_def)
  show "virt_to_phys ?GAP (p + ?GAP) = Some p"
    using n by (simp add: virt_to_phys_def checked_sub_def word_le_nat_alt unat_word_ariths)
  show "query 3 8 (boot_paging addr) ?mem (p + ?GAP) = Some (Inr p)" by (simp only: q t)
qed

theorem boot_address_space_witness:
  "\<exists>mem'. pre_main_maps demo_alloc 0x1000 demo_memory = Some mem'
    \<and> phys_to_virt 0xffffffc000000000 0x80200123 = Some 0xffffffc080200123
    \<and> query 3 8 (boot_paging 0x1000) mem' 0xffffffc080200123 = Some (Inr 0x80200123)"
proof -
  have "demo_memory 0x1000 = Some (table_zeroed 8)" by (simp add: demo_memory_def)
  from boot_address_space [of demo_memory, OF this, of demo_alloc]
  obtain mem' where m: "pre_main_maps demo_alloc 0x1000 demo_memory = Some mem'"
    and q: "\<And>va. query 3 8 (boot_paging 0x1000) mem' va = Some (Inr (take_bit 38 va))"
    by blast
  moreover have "take_bit 38 0xffffffc080200123 = (0x80200123 :: usize)" by simp
  ultimately show ?thesis
    by (auto simp: phys_to_virt_def checked_add_def)
qed

end
