(* ===== verification/Page_Image.thy ===== *)
theory Page_Image
  imports Paging
begin

text \<open>
  \<^verbatim>\<open>GenericPaging::map\<close> for a range of pages in the middle of a large page, as the bootloader and the
  kernel map the kernel image: the walk descends from the root through one entry of each level,
  splits it, and writes the pages in the last table.
\<close>

section \<open>Page ranges inside one last-level table\<close>

text \<open>
  The range starts at page \<open>v0\<close> of the last-level table number \<open>b\<close> of the address space (\<open>512\<close>
  tables under each of the \<open>512\<close> tables of the level above), and ends in the same table.
\<close>

definition page_address :: "nat \<Rightarrow> usize" where
  "page_address p = of_nat (p * 2 ^ 12)"

lemma unat_page_address: "p < 2 ^ 52 \<Longrightarrow> unat (page_address p) = p * 2 ^ 12"
  unfolding page_address_def by (intro unat_of_nat_usize) simp

lemma page_address_add: "page_address p + page_address q = page_address (p + q)"
  by (simp add: page_address_def algebra_simps)

lemma take_bit_page_address: "take_bit 12 (page_address p) = 0"
  unfolding page_address_def by (rule take_bit_multiple)

lemma page_vpn:
  assumes "p < 2 ^ 52" "i \<le> 5"
  shows "unat (get_vpn_number (page_address p) i 8) = p div 512 ^ i mod 512"
proof -
  have "p * 2 ^ 12 div 2 ^ (12 + 9 * i) = p div 512 ^ i"
    by (simp add: power_add power_mult mult.commute [of p] div_mult_mult1)
  then show ?thesis using assms by (simp only: unat_get_vpn_number unat_page_address)
qed

lemma page_vpn_last:
  assumes "0 < p" "p < 2 ^ 52" "i \<le> 5"
  shows "unat (get_vpn_number (page_address p - 1) i 8) = (p - 1) div 512 ^ i mod 512"
proof -
  have u: "unat (page_address p) = p * 2 ^ 12" using assms(2) by (rule unat_page_address)
  moreover have "0 < p * 2 ^ 12" using assms(1) by simp
  ultimately have "unat (page_address p - 1) = p * 2 ^ 12 - 1"
    by (subst unat_minus_one) (auto simp: unat_eq_zero)
  also obtain q where q: "p = Suc q" using assms(1) by (cases p) auto
  have "p * 2 ^ 12 - 1 = 2 ^ 12 * q + 4095" by (simp add: q)
  finally have "unat (page_address p - 1) div 2 ^ 12 = q" by simp
  then have "unat (page_address p - 1) div 2 ^ (12 + 9 * i) = q div 512 ^ i"
    by (simp only: power_add div_mult2_eq) (simp add: power_mult)
  then show ?thesis using assms(3) by (simp only: unat_get_vpn_number q diff_Suc_1)
qed

lemma page_range_add:
  assumes "p + n < 2 ^ 52"
  shows "checked_add (page_address p) (page_address n) = Some (page_address (p + n))"
proof -
  have "p * 2 ^ 12 + n * 2 ^ 12 < 2 ^ 64" using assms by simp
  then show ?thesis using assms by (simp add: checked_add_def unat_page_address page_address_add)
qed

lemma page_range_upper:
  assumes "b * 512 + v0 + n < 2 ^ 52" "0 < n" "v0 + n < 512" "i \<le> 3"
  shows "vpn_range (Suc i) 8 (page_address (b * 512 + v0)) (page_address n)
    = Some (b div 512 ^ i mod 512, b div 512 ^ i mod 512)"
proof -
  let ?e = "b * 512 + v0 + n"
  have "(1 :: usize) \<le> page_address ?e"
    unfolding word_le_nat_alt unat_page_address [OF assms(1)] using assms(2) by simp
  then have sub: "checked_sub (page_address ?e) 1 = Some (page_address ?e - 1)" by (simp add: checked_sub_def)
  have "(b * 512 + v0) div 512 = b" "(?e - 1) div 512 = b" using assms(2,3) by linarith+
  then have d: "(b * 512 + v0) div 512 ^ Suc i = b div 512 ^ i" "(?e - 1) div 512 ^ Suc i = b div 512 ^ i"
    by (simp_all only: power_Suc div_mult2_eq)
  have "unat (get_vpn_number (page_address (b * 512 + v0)) (Suc i) 8) = b div 512 ^ i mod 512"
    "unat (get_vpn_number (page_address ?e - 1) (Suc i) 8) = b div 512 ^ i mod 512"
    using assms page_vpn [of "b * 512 + v0" "Suc i"] page_vpn_last [of ?e "Suc i"] d by simp_all
  then show ?thesis
    unfolding vpn_range_def using page_range_add [of "b * 512 + v0" n] assms(1) sub by (simp add: Let_def)
qed

lemma page_range_last:
  assumes "b * 512 + v0 + n < 2 ^ 52" "v0 + n < 512"
  shows "vpn_range 0 8 (page_address (b * 512 + v0)) (page_address n) = Some (v0, v0 + n)"
proof -
  have "unat (get_vpn_number (page_address (b * 512 + v0)) 0 8) = v0"
    "unat (get_vpn_number (page_address (b * 512 + v0 + n)) 0 8) = v0 + n"
    using assms page_vpn [of "b * 512 + v0" 0] page_vpn [of "b * 512 + v0 + n" 0] by (simp_all add: add.assoc)
  then show ?thesis
    unfolding vpn_range_def using page_range_add [of "b * 512 + v0" n] assms by (simp add: Let_def checked_sub_def)
qed

text \<open>The end of the range lies inside a large page of every level above, so that page is split.\<close>

lemma page_must_split:
  assumes "b * 512 + v0 + n < 2 ^ 52" "0 < n" "v0 + n < 512" "i \<le> 3"
  shows "must_split (Suc i) 8 (page_address (b * 512 + v0)) (page_address n) offset v v v"
proof -
  let ?e = "b * 512 + v0 + n"
  have "?e mod 512 = v0 + n" using assms(3) by (simp add: add.assoc)
  moreover have "?e mod 512 ^ Suc i mod 512 = ?e mod 512" by (rule mod_mod_cancel) simp
  ultimately have m: "?e mod 512 ^ Suc i \<noteq> 0" using assms(2) by (cases "?e mod 512 ^ Suc i = 0") auto
  have "take_bit (12 + 9 * Suc i) (page_address ?e) \<noteq> 0"
  proof
    assume "take_bit (12 + 9 * Suc i) (page_address ?e) = 0"
    then have "unat (take_bit (12 + 9 * Suc i) (page_address ?e)) = 0" by (simp only: unsigned_0)
    then have "take_bit (12 + 9 * Suc i) (?e * 2 ^ 12) = 0"
      by (simp only: unsigned_take_bit_eq unat_page_address [OF assms(1)])
    then have "?e * 2 ^ 12 mod 2 ^ (12 + 9 * Suc i) = 0" by (simp only: take_bit_eq_mod)
    then have "2 ^ 12 * (?e mod 2 ^ (9 * Suc i)) = 0"
      by (simp only: power_add mult.commute [of ?e] mult_mod_right)
    then show False using m by (simp add: power_mult power_add)
  qed
  then show ?thesis
    using assms(4) by (simp add: must_split_def Let_def size_mask_and page_address_add del: mult_Suc_right)
qed

lemma page_current_address:
  assumes "b * 512 ^ i + k * 512 ^ i < 2 ^ 52" "i \<le> 3" "k < 512"
  shows "current_address_of i 8 (page_address (b * 512 ^ i)) k = Some (page_address ((b + k) * 512 ^ i))"
proof -
  have s: "(2 :: nat) ^ (12 + 9 * i) = 512 ^ i * 2 ^ 12" by (simp add: power_add power_mult)
  have size: "get_vpn_size i 8 = page_address (512 ^ i)"
  proof -
    have "get_vpn_size i 8 = 2 ^ (12 + 9 * i)" using assms(2) by (intro get_vpn_size_eq) simp
    also have "\<dots> = of_nat (2 ^ (12 + 9 * i))" by simp
    finally show ?thesis by (simp only: page_address_def s)
  qed
  have "(512 :: nat) ^ i \<le> 512 ^ 3" using assms(2) by (intro power_increasing) auto
  then have lt: "(512 :: nat) ^ i < 2 ^ 52" by simp
  have "k * 512 ^ i * 2 ^ 12 < 2 ^ 64" using assms(1) by simp
  then have mul: "checked_mul (of_nat k) (get_vpn_size i 8) = Some (page_address (k * 512 ^ i))"
    unfolding size checked_mul_def unat_page_address [OF lt]
    using assms(3) by (simp add: unat_of_nat_usize page_address_def mult.assoc)
  show ?thesis
    unfolding current_address_of_def mul using page_range_add [of "b * 512 ^ i" "k * 512 ^ i"] assms(1)
    by (simp add: algebra_simps)
qed

section \<open>Descending one level\<close>

definition pointer_entry :: "usize \<Rightarrow> Entry" where
  "pointer_entry phys = \<lparr>pte = 1 OR drop_bit 2 phys\<rparr>"

definition split_table :: "usize \<Rightarrow> nat \<Rightarrow> Table" where
  "split_table v l = \<lparr>entries = map (\<lambda>k. \<lparr>pte = split_value v l k\<rparr>) [0..<512]\<rparr>"

definition table_set :: "nat \<Rightarrow> Entry \<Rightarrow> Table \<Rightarrow> Table" where
  "table_set k e t = t\<lparr>entries := (entries t)[k := e]\<rparr>"

text \<open>A leaf that \<^verbatim>\<open>split\<close> can take apart at level \<open>Suc l\<close>.\<close>

definition splittable :: "usize \<Rightarrow> nat \<Rightarrow> bool" where
  "splittable v l \<longleftrightarrow> superpage_aligned 8 v (Suc l) \<and> v < 2 ^ 54 \<and> (\<not> bit v 0 \<or> bit v 1 \<or> bit v 3)"

lemma splittable_leaf: "splittable (pte e) l \<Longrightarrow> is_leaf e"
  by (auto simp: splittable_def is_leaf_bits)

lemma pointer_entry_follow:
  assumes "fresh_block alloc v2p p2v mem ptr phys"
  shows "try_as_table p2v (pointer_entry phys) = Some (Some ptr)" "as_table p2v (pointer_entry phys) = Some ptr"
    "bit (pte (pointer_entry phys)) 0" "\<not> bit (pte (pointer_entry phys)) 60" "\<not> is_leaf (pointer_entry phys)"
proof -
  have phys: "phys \<noteq> 0" "phys AND 0xfff = 0" "phys < 2 ^ 56" "p2v phys = Some ptr" "ptr \<noteq> 0"
    using assms by (auto simp: fresh_block_def)
  note ptr = table_pointer_entry [OF phys(1,2)]
  show as: "as_table p2v (pointer_entry phys) = Some ptr"
    unfolding as_table_def address_def pointer_entry_def using ptr(1,6) phys(4,5)
    by (simp only: Entry.select_convs and_1_iff) simp
  show leaf: "\<not> is_leaf (pointer_entry phys)" using ptr(7) by (simp add: pointer_entry_def)
  show "try_as_table p2v (pointer_entry phys) = Some (Some ptr)" by (simp add: try_as_table_def as leaf)
  show "bit (pte (pointer_entry phys)) 0" "\<not> bit (pte (pointer_entry phys)) 60"
    using ptr(1) less_pow2_bits [OF phys(3), of 62] by (simp_all add: pointer_entry_def bit_or_iff bit_drop_bit_eq bit_1_iff)
qed

lemma foldM_single: "foldM f [x] s = f x s"
  by (cases "f x s") simp_all

lemma map_internal_descend:
  assumes vr: "vpn_range (Suc l) 8 virt len = Some (v, v)"
    and table: "mem table = Some t" "v < length (entries t)" "v < 512" "e = entries t ! v"
    and e: "splittable (pte e) l" and l: "l \<le> 3"
    and must: "must_split (Suc l) 8 virt len (drop_bit 2 (phys - virt)) v v v"
    and cur: "current_address_of (Suc l) 8 base v = Some cur"
    and blk: "fresh_block alloc v2p p2v mem ptr pp"
  shows "map_internal (Suc l) 8 alloc v2p p2v phys virt len flags table base mem =
    map_internal l 8 alloc v2p p2v phys virt len flags ptr cur
      (mem(ptr \<mapsto> split_table (pte e) l, table \<mapsto> table_set v (pointer_entry pp) t))"
proof -
  have ne: "ptr \<noteq> table" using blk table(1) by (auto simp: fresh_block_def)
  have "mem_entry mem table v = Some e" using table by (simp add: mem_entry_def table_index_def)
  moreover have "split alloc v2p (get_vpn_size l 8) mem e = Some (mem(ptr \<mapsto> split_table (pte e) l), pointer_entry pp)"
    unfolding split_table_def pointer_entry_def
    by (rule split_result [OF blk _ _ l]) (use e in \<open>simp_all add: splittable_def\<close>)
  moreover have "mem_store (mem(ptr \<mapsto> split_table (pte e) l)) table v (pointer_entry pp)
      = Some (mem(ptr \<mapsto> split_table (pte e) l, table \<mapsto> table_set v (pointer_entry pp) t))"
    using table ne by (simp add: mem_store_def table_store_def table_set_def)
  ultimately show ?thesis
    using vr must cur table(3) splittable_leaf [OF e] pointer_entry_follow(1) [OF blk]
    by (simp add: Let_def foldM_single del: foldM.simps)
qed

section \<open>The pages of the last level\<close>

lemma map_internal_pages_at:
  assumes tab: "mem ptr = Some t" "length (entries t) = 512"
    and range: "v0 + n < 512" "b * 512 + v0 + n < 2 ^ 52" "p0 + n < 2 ^ 44" and flags: "flags < 2 ^ 10"
  shows "map_internal 0 8 alloc v2p p2v (page_address p0) (page_address (b * 512 + v0)) (page_address n) flags ptr
      (page_address (b * 512)) mem
    = Some (mem(ptr \<mapsto> \<lparr>entries = map (\<lambda>k. if v0 \<le> k \<and> k < v0 + Suc n
        then superpage_entry 12 flags (p0 + (k - v0)) else entries t ! k) [0..<512]\<rparr>))"
proof -
  have upt: "[v0..<Suc (v0 + n)] = [v0..<v0 + Suc n]" by simp
  have m: "mem ptr = Some \<lparr>entries = entries t\<rparr>" using tab(1) by (cases t) simp
  have cur: "current_address_of 0 8 (page_address (b * 512)) k = Some (page_address (b * 512 + k))"
    if "v0 \<le> k" "k < v0 + Suc n" for k
    using page_current_address [of "b * 512" 0 k] that range by simp
  show ?thesis
    unfolding map_internal.simps page_range_last [OF range(2,1)] Option.bind.simps prod.case Let_def upt
    unfolding tab(2) [symmetric]
  proof (rule foldM_store_range [where ptr = ptr and mem = mem and es = "entries t"], goal_cases)
    case 1
    then show ?case by (rule m)
  next
    case 2
    then show ?case using range tab(2) by simp
  next
    case (3 k mem es')
    have "leaf_value (page_address (b * 512 + k)) flags (drop_bit 2 (page_address p0 - page_address (b * 512 + v0)))
        = pte (superpage_entry 12 flags (p0 + (k - v0)))"
      unfolding superpage_entry_def Entry.select_convs page_address_def
      by (rule aligned_leaf_value) (use 3 range flags in auto)
    then show ?case
      using 3 range tab(2) cur [of k]
      by (simp add: mem_entry_def table_index_def mem_store_def table_store_def
          Entry_update_eq superpage_entry_def del: of_nat_mult of_nat_power)
  qed
qed

section \<open>Mapping an image\<close>

definition image_table :: "nat \<Rightarrow> nat \<Rightarrow> nat \<Rightarrow> usize \<Rightarrow> Table \<Rightarrow> Table" where
  "image_table v0 n p0 flags t = \<lparr>entries = map (\<lambda>k. if v0 \<le> k \<and> k < v0 + Suc n
     then superpage_entry 12 flags (p0 + (k - v0)) else entries t ! k) [0..<512]\<rparr>"

lemma bit_split_value_low: "k < 512 \<Longrightarrow> l \<le> 3 \<Longrightarrow> n < 10 + 9 * l \<Longrightarrow> bit (split_value v l k) n \<longleftrightarrow> bit v n"
  by (simp add: bit_split_value)

lemma bits_less_pow2:
  assumes "\<And>n. bit w n \<Longrightarrow> n < 54" shows "(w :: usize) < 2 ^ 54"
proof -
  have "take_bit 54 w = w" using assms by (intro bit_word_eqI) (auto simp: bit_take_bit_iff)
  then have "unat w = unat w mod 2 ^ 54" by (metis take_bit_eq_mod unsigned_take_bit_eq)
  then have "unat w < 2 ^ 54" by (metis mod_less_divisor zero_less_numeral zero_less_power)
  then show ?thesis by (simp add: word_less_nat_alt)
qed

lemma split_value_splittable:
  assumes "splittable v (Suc l)" "k < 512" "l \<le> 2"
  shows "splittable (split_value v (Suc l) k) l"
proof -
  let ?w = "split_value v (Suc l) k"
  have l: "Suc l \<le> 3" using assms(3) by simp
  have "superpage_aligned 8 ?w (Suc l)"
    unfolding superpage_aligned_def
  proof (intro allI impI)
    fix n assume n: "12 \<le> n \<and> n < vpn_shift (Suc l) 8"
    then have "\<not> bit v (n - 2)" using assms(1) by (auto simp: splittable_def superpage_aligned_def)
    moreover have "n - 2 < 10 + 9 * Suc l" using n by auto
    ultimately show "\<not> bit ?w (n - 2)" using bit_split_value_low [OF assms(2) l] by blast
  qed
  moreover have "?w < 2 ^ 54"
  proof -
    have "bit v m \<Longrightarrow> m < 54" for m
      using assms(1) less_pow2_bits [of v 54 m] by (auto simp: splittable_def not_less [symmetric])
    then show ?thesis using assms(3) by (intro bits_less_pow2) (auto simp: bit_split_value [OF assms(2) l])
  qed
  moreover have "\<not> bit ?w 0 \<or> bit ?w 1 \<or> bit ?w 3"
    using assms(1) bit_split_value_low [OF assms(2) l, of _ v] by (simp add: splittable_def)
  ultimately show ?thesis by (simp add: splittable_def)
qed

text \<open>
  The memory after the first split, and after the whole mapping of \<open>n\<close> pages at page \<open>v0\<close> of the
  table \<open>v1\<close> below the root entry \<open>v2\<close>.
\<close>

definition split_once :: "usize \<Rightarrow> Table \<Rightarrow> nat \<Rightarrow> usize \<Rightarrow> usize \<Rightarrow> memory \<Rightarrow> memory" where
  "split_once root t v2 ptr1 pp1 mem =
     mem(ptr1 \<mapsto> split_table (pte (entries t ! v2)) 1, root \<mapsto> table_set v2 (pointer_entry pp1) t)"

definition image_mapped ::
  "usize \<Rightarrow> Table \<Rightarrow> nat \<Rightarrow> nat \<Rightarrow> usize \<Rightarrow> usize \<Rightarrow> usize \<Rightarrow> usize \<Rightarrow> nat \<Rightarrow> nat \<Rightarrow> nat \<Rightarrow> usize \<Rightarrow> memory \<Rightarrow> memory" where
  "image_mapped root t v2 v1 ptr1 pp1 ptr2 pp2 v0 n p0 flags mem =
     (let v = pte (entries t ! v2) in
      (split_once root t v2 ptr1 pp1 mem)
        (ptr1 \<mapsto> table_set v1 (pointer_entry pp2) (split_table v 1),
         ptr2 \<mapsto> image_table v0 n p0 flags (split_table (split_value v 1 v1) 0)))"

lemma split_table_nth: "k < 512 \<Longrightarrow> entries (split_table v l) ! k = \<lparr>pte = split_value v l k\<rparr>"
  "length (entries (split_table v l)) = 512"
  by (simp_all add: split_table_def)

lemma map_range_image:
  assumes root: "mem (root_table self) = Some t" "length (entries t) = 512"
    and e: "splittable (pte (entries t ! v2)) 1"
    and idx: "v2 < 512" "v1 < 512" "0 < n" "v0 + n < 512" and p0: "p0 + n < 2 ^ 44" and flags: "flags < 2 ^ 10"
    and virt: "decanonicalize_address 3 8 virt = page_address ((v2 * 512 + v1) * 512 + v0)"
    and blk1: "fresh_block alloc (virt_to_phys_fn self) (phys_to_virt_fn self) mem ptr1 pp1"
    and blk2: "fresh_block alloc (virt_to_phys_fn self) (phys_to_virt_fn self)
      (split_once (root_table self) t v2 ptr1 pp1 mem) ptr2 pp2"
  shows "map_range 3 8 alloc self (page_address p0) virt (page_address n) flags mem
    = Some (image_mapped (root_table self) t v2 v1 ptr1 pp1 ptr2 pp2 v0 n p0 flags mem)"
proof -
  let ?b = "v2 * 512 + v1" and ?root = "root_table self"
  let ?v = "pte (entries t ! v2)" and ?w = "split_value (pte (entries t ! v2)) 1 v1"
  let ?mem1 = "split_once ?root t v2 ptr1 pp1 mem"
  let ?map = "\<lambda>l. map_internal l 8 alloc (virt_to_phys_fn self) (phys_to_virt_fn self) (page_address p0)
    (page_address (?b * 512 + v0)) (page_address n) flags"
  have lt: "?b * 512 + v0 + n < 2 ^ 52" using idx by simp
  have b: "?b div 512 ^ 1 mod 512 = v2" "?b div 512 ^ 0 mod 512 = v1" using idx by simp_all
  have ne: "ptr1 \<noteq> ?root" "ptr2 \<noteq> ptr1" "ptr2 \<noteq> ?root"
    using blk1 blk2 root(1) by (auto simp: fresh_block_def split_once_def split: if_splits)
  have t1: "?mem1 ptr1 = Some (split_table ?v 1)" using ne(1) by (simp add: split_once_def)
  have d2: "?map (Suc 1) ?root 0 mem = ?map 1 ptr1 (page_address (v2 * 512 ^ 2)) ?mem1"
    unfolding split_once_def
  proof (rule map_internal_descend [where mem = mem, OF _ root(1) _ idx(1) refl e _ _ _ blk1])
    show "vpn_range (Suc 1) 8 (page_address (?b * 512 + v0)) (page_address n) = Some (v2, v2)"
      using page_range_upper [OF lt idx(3,4), of 1] unfolding b by simp
    show "must_split (Suc 1) 8 (page_address (?b * 512 + v0)) (page_address n)
        (drop_bit 2 (page_address p0 - page_address (?b * 512 + v0))) v2 v2 v2"
      using page_must_split [OF lt idx(3,4), of 1] by simp
    show "current_address_of (Suc 1) 8 0 v2 = Some (page_address (v2 * 512 ^ 2))"
      using page_current_address [of 0 2 v2] idx by (simp add: page_address_def numeral_2_eq_2 [symmetric])
  qed (use idx root in simp_all)
  have d1: "?map (Suc 0) ptr1 (page_address (v2 * 512 ^ 2)) ?mem1 = ?map 0 ptr2 (page_address (?b * 512))
      (?mem1(ptr2 \<mapsto> split_table ?w 0, ptr1 \<mapsto> table_set v1 (pointer_entry pp2) (split_table ?v 1)))"
  proof (rule map_internal_descend [where mem = ?mem1 and e = "\<lparr>pte = ?w\<rparr>" and l = 0, unfolded Entry.select_convs, OF _ t1 _ idx(2) _ _ _ _ _ blk2])
    show "vpn_range (Suc 0) 8 (page_address (?b * 512 + v0)) (page_address n) = Some (v1, v1)"
      using page_range_upper [OF lt idx(3,4), of 0] unfolding b by simp
    show "must_split (Suc 0) 8 (page_address (?b * 512 + v0)) (page_address n)
        (drop_bit 2 (page_address p0 - page_address (?b * 512 + v0))) v1 v1 v1"
      using page_must_split [OF lt idx(3,4), of 0] by simp
    show "splittable ?w 0" using split_value_splittable [of ?v 0 v1] e idx by simp
    show "current_address_of (Suc 0) 8 (page_address (v2 * 512 ^ 2)) v1 = Some (page_address (?b * 512))"
      using page_current_address [of "v2 * 512" 1 v1] idx by (simp add: power2_eq_square algebra_simps)
  qed (use idx in \<open>simp_all add: split_table_nth\<close>)
  let ?mem2 = "?mem1(ptr2 \<mapsto> split_table ?w 0, ptr1 \<mapsto> table_set v1 (pointer_entry pp2) (split_table ?v 1))"
  have "?mem2 ptr2 = Some (split_table ?w 0)" using ne by simp
  from map_internal_pages_at [where mem = ?mem2, OF this split_table_nth(2) idx(4) lt p0 flags]
  have d0: "?map 0 ptr2 (page_address (?b * 512)) ?mem2 = Some (?mem2(ptr2 \<mapsto> image_table v0 n p0 flags (split_table ?w 0)))"
    unfolding image_table_def by simp
  have "?mem2(ptr2 \<mapsto> image_table v0 n p0 flags (split_table ?w 0))
      = image_mapped ?root t v2 v1 ptr1 pp1 ptr2 pp2 v0 n p0 flags mem"
    using ne by (simp add: image_mapped_def Let_def fun_upd_twist)
  moreover have "page_address q AND 0xfff = 0" for q
    using take_bit_page_address [of q] unfolding take_bit_0_iff_bits page_aligned_bits .
  ultimately show ?thesis
    unfolding map_range_def virt Let_def using d2 d1 d0 by (simp add: numeral_3_eq_3)
qed

section \<open>Looking up after the mapping\<close>

lemma pointer_walk:
  assumes "fresh_block alloc v2p p2v mem ptr pp"
  shows "walk_entry LEVELS 8 p2v mem' va (Suc l) (pointer_entry pp) = query_loop LEVELS 8 p2v mem' ptr va l"
  using pointer_entry_follow [OF assms] by (simp add: walk_entry_def)

text \<open>An entry of a split table translates as the leaf that was split.\<close>

lemma split_entry_walk:
  assumes "splittable v l" and l: "l \<le> 3" and lev: "Suc l < LEVELS" and fmt: "format_ok LEVELS 8"
    and k: "k = unat (get_vpn_number va l 8)"
  shows "walk_entry LEVELS 8 p2v mem' va l \<lparr>pte = split_value v l k\<rparr> = walk_entry LEVELS 8 p2v mem va (Suc l) \<lparr>pte = v\<rparr>"
proof -
  have k512: "k < 512" using unat_get_vpn_number_less [of 8 l va] l by (simp add: k)
  have "\<not> bit v 60" using assms(1) less_pow2_bits [of v 54 60] by (simp add: splittable_def)
  then have no60: "\<not> bit (split_value v l k) 60" using l by (simp add: bit_split_value [OF k512 l])
  have low: "bit (split_value v l k) n = bit v n" if "n < 10" for n
    using that bit_split_value_low [OF k512 l, of n v] by simp
  have leaf: "bit v 0 \<Longrightarrow> is_leaf \<lparr>pte = split_value v l k\<rparr>" "bit v 0 \<Longrightarrow> is_leaf \<lparr>pte = v\<rparr>"
    using assms(1) low [of 1] low [of 3] by (auto simp: splittable_def is_leaf_bits)
  have "leaf_translation LEVELS 8 \<lparr>pte = split_value v l k\<rparr> va l = leaf_translation LEVELS 8 \<lparr>pte = v\<rparr> va (Suc l)"
    using assms(1) by (intro split_leaf_translation [OF _ l lev fmt k]) (simp add: splittable_def)
  then show ?thesis using no60 \<open>\<not> bit v 60\<close> low [of 0] leaf by (simp add: walk_entry_def)
qed

text \<open>A page entry translates an address of its page to the physical page plus the offset.\<close>

lemma page_walk:
  assumes p: "p < 2 ^ 27" and flags: "flags < 2 ^ 10" "bit flags 0" "bit flags 1 \<or> bit flags 3"
  shows "walk_entry 3 8 p2v mem va 0 (superpage_entry 12 flags p) = Some (Inr (page_address p OR take_bit 12 va))"
proof -
  define v where "v = (drop_bit 2 (page_address p) OR flags)"
  have A: "page_address p = push_bit 12 (of_nat p)" by (simp add: page_address_def push_bit_eq_mult)
  have Ab: "bit (page_address p) n \<longleftrightarrow> 12 \<le> n \<and> n < 39 \<and> bit p (n - 12)" for n
    using nat_bit_less [OF p, of "n - 12"] unfolding A by (auto simp: bit_push_bit_iff bit_of_nat_iff)
  have fb: "\<not> bit flags n" if "10 \<le> n" for n using less_pow2_bits [OF flags(1), of n] that by simp
  have vb: "bit v n \<longleftrightarrow> bit (page_address p) (n + 2) \<or> bit flags n" for n
    by (simp only: v_def bit_or_iff bit_drop_bit_eq comp_def add.commute)
  have kind: "bit v 0" "\<not> bit v 60" "is_leaf \<lparr>pte = v\<rparr>"
    using flags fb [of 60] by (auto simp: is_leaf_bits vb Ab)
  have fmt: "format_ok 3 8" "(0 :: nat) < 3" by simp_all
  have "leaf_translation 3 8 \<lparr>pte = v\<rparr> va 0 = Some (page_address p OR take_bit 12 va)"
    unfolding leaf_translation_Some [OF fmt] Entry.select_convs
  proof (intro conjI allI)
    show "superpage_aligned 8 v 0" by (auto simp: superpage_aligned_def)
    fix n :: nat
    have "n - 2 + 2 = n" "10 \<le> n - 2" if "12 \<le> n" using that by auto
    then show "bit (page_address p OR take_bit 12 va) n \<longleftrightarrow>
        (if n < vpn_shift 0 8 then bit va n else n < vpn_shift 3 8 \<and> bit v (n - 2))"
      using fb [of "n - 2"] by (cases "n < 12") (auto simp: bit_or_iff bit_take_bit_iff vb Ab)
  qed
  then show ?thesis
    unfolding superpage_entry_def walk_entry_def page_address_def [symmetric] v_def [symmetric] using kind by simp
qed

definition in_image :: "nat \<Rightarrow> nat \<Rightarrow> nat \<Rightarrow> nat \<Rightarrow> usize \<Rightarrow> bool" where
  "in_image v2 v1 v0 n va \<longleftrightarrow> unat (get_vpn_number va 2 8) = v2 \<and> unat (get_vpn_number va 1 8) = v1
     \<and> v0 \<le> unat (get_vpn_number va 0 8) \<and> unat (get_vpn_number va 0 8) \<le> v0 + n"

lemma Entry_eta: "\<lparr>pte = pte e\<rparr> = e"
  by (cases e) simp

lemma mem_entry_at: "mem ptr = Some t \<Longrightarrow> k < length (entries t) \<Longrightarrow> mem_entry mem ptr k = Some (entries t ! k)"
  by (simp add: mem_entry_def table_index_def)

text \<open>The tables after the mapping, and the three steps of a walk through them.\<close>

lemma image_tables:
  assumes "fresh_block alloc v2p p2v mem ptr1 pp1"
    and "fresh_block alloc v2p p2v (split_once root t v2 ptr1 pp1 mem) ptr2 pp2"
    and "mem root = Some t"
    and mem': "mem' = image_mapped root t v2 v1 ptr1 pp1 ptr2 pp2 v0 n p0 flags mem"
  shows "mem' root = Some (table_set v2 (pointer_entry pp1) t)"
    "mem' ptr1 = Some (table_set v1 (pointer_entry pp2) (split_table (pte (entries t ! v2)) 1))"
    "mem' ptr2 = Some (image_table v0 n p0 flags (split_table (split_value (pte (entries t ! v2)) 1 v1) 0))"
    "\<And>ptr t'. mem ptr = Some t' \<Longrightarrow> ptr \<noteq> root \<Longrightarrow> mem' ptr = Some t'"
proof -
  have ne: "ptr1 \<noteq> root" "ptr2 \<noteq> ptr1" "ptr2 \<noteq> root" "mem ptr1 = None" "mem ptr2 = None"
    using assms(1-3) by (auto simp: fresh_block_def split_once_def split: if_splits)
  then show "mem' root = Some (table_set v2 (pointer_entry pp1) t)"
    "mem' ptr1 = Some (table_set v1 (pointer_entry pp2) (split_table (pte (entries t ! v2)) 1))"
    "mem' ptr2 = Some (image_table v0 n p0 flags (split_table (split_value (pte (entries t ! v2)) 1 v1) 0))"
    by (simp_all add: mem' image_mapped_def split_once_def Let_def)
  show "mem' ptr = Some t'" if "mem ptr = Some t'" "ptr \<noteq> root" for ptr t'
    using that ne by (auto simp: mem' image_mapped_def split_once_def Let_def)
qed

lemma walk_step:
  assumes "mem table = Some t" "k < length (entries t)" "k = unat (get_vpn_number va i 8)"
  shows "query_loop L 8 p2v mem table va i = walk_entry L 8 p2v mem va i (entries t ! k)"
  using mem_entry_at [where mem = mem, OF assms(1,2)] assms(3) by (simp add: query_loop_walk)

lemma walk_last_table:
  assumes tab: "mem' ptr = Some (image_table v0 n p0 flags (split_table w 0))" and w: "splittable w 0"
    and p: "p0 + n < 2 ^ 27" and flags: "flags < 2 ^ 10" "bit flags 0" "bit flags 1 \<or> bit flags 3"
    and k: "k = unat (get_vpn_number va 0 8)"
  shows "query_loop 3 8 p2v mem' ptr va 0 = (if v0 \<le> k \<and> k \<le> v0 + n
    then Some (Inr (page_address (p0 + (k - v0)) OR take_bit 12 va)) else walk_entry 3 8 p2v mem va 1 \<lparr>pte = w\<rparr>)"
proof -
  have k512: "k < 512" using unat_get_vpn_number_less [of 8 0 va] by (simp add: k)
  then have step: "query_loop 3 8 p2v mem' ptr va 0 = walk_entry 3 8 p2v mem' va 0
      (if v0 \<le> k \<and> k \<le> v0 + n then superpage_entry 12 flags (p0 + (k - v0)) else \<lparr>pte = split_value w 0 k\<rparr>)"
    using walk_step [where mem = mem', OF tab _ k] by (simp add: image_table_def split_table_nth less_Suc_eq_le)
  show ?thesis
  proof (cases "v0 \<le> k \<and> k \<le> v0 + n")
    case True
    then have "p0 + (k - v0) < 2 ^ 27" using p by linarith
    from page_walk [OF this flags] show ?thesis unfolding step using True by simp
  next
    case False
    then show ?thesis
      unfolding step using split_entry_walk [OF w _ _ format_ok_sv(2) k, of p2v mem' mem] by (simp only: if_not_P) simp
  qed
qed

text \<open>The walk for an address under the split root entry.\<close>

lemma image_walk:
  assumes root: "mem (root_table self) = Some t" "length (entries t) = 512"
    and e: "splittable (pte (entries t ! v2)) 1"
    and idx: "v2 < 512" "v1 < 512" and p: "p0 + n < 2 ^ 27"
    and flags: "flags < 2 ^ 10" "bit flags 0" "bit flags 1 \<or> bit flags 3"
    and blk1: "fresh_block alloc (virt_to_phys_fn self) (phys_to_virt_fn self) mem ptr1 pp1"
    and blk2: "fresh_block alloc (virt_to_phys_fn self) (phys_to_virt_fn self)
      (split_once (root_table self) t v2 ptr1 pp1 mem) ptr2 pp2"
    and mem': "mem' = image_mapped (root_table self) t v2 v1 ptr1 pp1 ptr2 pp2 v0 n p0 flags mem"
    and va: "unat (get_vpn_number va 2 8) = v2"
  shows "query 3 8 self mem' va = (if in_image v2 v1 v0 n va
      then Some (Inr (page_address (p0 + (unat (get_vpn_number va 0 8) - v0)) OR take_bit 12 va))
      else query 3 8 self mem va)"
proof -
  let ?v = "pte (entries t ! v2)" and ?p2v = "phys_to_virt_fn self"
  define k1 where "k1 = unat (get_vpn_number va 1 8)"
  have k: "k1 < 512" using unat_get_vpn_number_less [of 8 1 va] by (simp add: k1_def)
  note tabs = image_tables [OF blk1 blk2 root(1) mem']
  have "query 3 8 self mem' va = walk_entry 3 8 ?p2v mem' va 2 (pointer_entry pp1)"
    using walk_step [where mem = mem', OF tabs(1) _ va [symmetric]] idx root(2) by (simp add: query_def table_set_def)
  then have q: "query 3 8 self mem' va = query_loop 3 8 ?p2v mem' ptr1 va 1"
    using pointer_walk [OF blk1, of 3 mem' va 1] by (simp add: numeral_2_eq_2)
  have old: "query 3 8 self mem va = walk_entry 3 8 ?p2v mem va 2 \<lparr>pte = ?v\<rparr>"
    using walk_step [where mem = mem, OF root(1) _ va [symmetric]] idx root(2) by (simp add: query_def Entry_eta)
  have mid: "walk_entry 3 8 ?p2v mem va 1 \<lparr>pte = split_value ?v 1 k1\<rparr> = query 3 8 self mem va"
    using split_entry_walk [OF e _ _ format_ok_sv(2) k1_def, of ?p2v mem mem] old by (simp add: numeral_2_eq_2)
  note t1 = walk_step [where mem = mem', OF tabs(2) _ k1_def]
  show ?thesis
  proof (cases "k1 = v1")
    case True
    then have "query 3 8 self mem' va = query_loop 3 8 ?p2v mem' ptr2 va 0"
      unfolding q using t1 k pointer_walk [OF blk2, of 3 mem' va 0] by (simp add: table_set_def split_table_nth)
    moreover have "splittable (split_value ?v 1 v1) 0" using split_value_splittable [of ?v 0 v1] e idx by simp
    ultimately show ?thesis
      using walk_last_table [where mem' = mem' and mem = mem and va = va and p2v = ?p2v, OF tabs(3) _ p flags refl] mid True va
      by (simp add: in_image_def k1_def)
  next
    case False
    then have "query 3 8 self mem' va = walk_entry 3 8 ?p2v mem' va 1 \<lparr>pte = split_value ?v 1 k1\<rparr>"
      unfolding q using t1 k by (simp add: table_set_def split_table_nth)
    also have "\<dots> = query 3 8 self mem va"
      using split_entry_walk [OF e _ _ format_ok_sv(2) k1_def, of ?p2v mem' mem] old by (simp add: numeral_2_eq_2)
    finally show ?thesis using False by (simp add: in_image_def k1_def)
  qed
qed

text \<open>Looking up any address after an image has been mapped.\<close>

lemma image_query:
  assumes root: "mem (root_table self) = Some t" "length (entries t) = 512"
    and e: "splittable (pte (entries t ! v2)) 1"
    and idx: "v2 < 512" "v1 < 512" and p: "p0 + n < 2 ^ 27"
    and flags: "flags < 2 ^ 10" "bit flags 0" "bit flags 1 \<or> bit flags 3"
    and blk1: "fresh_block alloc (virt_to_phys_fn self) (phys_to_virt_fn self) mem ptr1 pp1"
    and blk2: "fresh_block alloc (virt_to_phys_fn self) (phys_to_virt_fn self)
      (split_once (root_table self) t v2 ptr1 pp1 mem) ptr2 pp2"
    and mem': "mem' = image_mapped (root_table self) t v2 v1 ptr1 pp1 ptr2 pp2 v0 n p0 flags mem"
    and unref: "root_unreferenced (phys_to_virt_fn self) mem (root_table self)"
  shows "in_image v2 v1 v0 n va \<Longrightarrow> query 3 8 self mem' va
      = Some (Inr (page_address (p0 + (unat (get_vpn_number va 0 8) - v0)) OR take_bit 12 va))"
    and "\<not> in_image v2 v1 v0 n va \<Longrightarrow> query 3 8 self mem va = Some r \<Longrightarrow> query 3 8 self mem' va = Some r"
proof -
  note under = image_walk [OF root e idx p flags blk1 blk2 mem']
  note tabs = image_tables [OF blk1 blk2 root(1) mem']
  show "query 3 8 self mem' va
      = Some (Inr (page_address (p0 + (unat (get_vpn_number va 0 8) - v0)) OR take_bit 12 va))"
    if "in_image v2 v1 v0 n va"
    using under [of va] that by (simp add: in_image_def)
  assume out: "\<not> in_image v2 v1 v0 n va" and q: "query 3 8 self mem va = Some r"
  show "query 3 8 self mem' va = Some r"
  proof (cases "unat (get_vpn_number va 2 8) = v2")
    case True
    then show ?thesis using under [of va] out q by simp
  next
    case False
    let ?k = "unat (get_vpn_number va (3 - 1) 8)"
    have k: "?k < 512" "?k \<noteq> v2" using unat_get_vpn_number_less [of 8 2 va] False by simp_all
    show ?thesis
      by (rule query_unchanged_entry [OF unref tabs(4) refl _ _ q, where e = "entries t ! ?k"])
        (use k root(2) mem_entry_at [where mem = mem, OF root(1), of ?k] mem_entry_at [where mem = mem', OF tabs(1), of ?k]
          in \<open>simp_all add: table_set_def\<close>)
  qed
qed

section \<open>Image pages as page numbers\<close>

definition page_number :: "usize \<Rightarrow> nat" where
  "page_number va = unat va div 2 ^ 12 mod 2 ^ 27"

lemma page_number_fields:
  "unat (get_vpn_number va 0 8) = page_number va mod 512"
  "unat (get_vpn_number va 1 8) = page_number va div 512 mod 512"
  "unat (get_vpn_number va 2 8) = page_number va div 512 div 512"
proof -
  let ?p = "unat va div 2 ^ 12"
  have d: "unat va div 2 ^ (12 + 9 * 1) = ?p div 512" "unat va div 2 ^ (12 + 9 * 2) = ?p div 512 div 512"
    by (simp_all add: div_mult2_eq [symmetric])
  have a: "?p mod 2 ^ 27 = 512 * (?p div 512 mod 2 ^ 18) + ?p mod 512"
    using mod_mult2_eq [of ?p 512 "2 ^ 18"] by simp
  have b: "?p div 512 mod 2 ^ 18 = 512 * (?p div 512 div 512 mod 512) + ?p div 512 mod 512"
    using mod_mult2_eq [of "?p div 512" 512 512] by simp
  have c: "page_number va div 512 = ?p div 512 mod 2 ^ 18" unfolding page_number_def a by simp
  show "unat (get_vpn_number va 0 8) = page_number va mod 512"
    by (subst unat_get_vpn_number) (simp_all add: page_number_def mod_mod_cancel)
  have "unat (get_vpn_number va 1 8) = ?p div 512 mod 512" "unat (get_vpn_number va 2 8) = ?p div 512 div 512 mod 512"
    using unat_get_vpn_number [of 1 va, unfolded d] unat_get_vpn_number [of 2 va, unfolded d] by simp_all
  then show "unat (get_vpn_number va 1 8) = page_number va div 512 mod 512"
    "unat (get_vpn_number va 2 8) = page_number va div 512 div 512"
    unfolding c b by (simp_all add: mod_mod_cancel)
qed

lemma in_image_iff:
  assumes "v1 < 512" "v0 + n < 512" and B: "B = (v2 * 512 + v1) * 512 + v0"
  shows "in_image v2 v1 v0 n va \<longleftrightarrow> B \<le> page_number va \<and> page_number va \<le> B + n"
proof -
  define Q s where "Q = page_number va div 512" and "s = page_number va mod 512"
  have P: "page_number va = Q * 512 + s" "s < 512" by (simp_all add: Q_def s_def)
  have Q: "Q div 512 = v2 \<and> Q mod 512 = v1 \<longleftrightarrow> Q = v2 * 512 + v1" using assms(1) by auto
  have "in_image v2 v1 v0 n va \<longleftrightarrow> Q = v2 * 512 + v1 \<and> v0 \<le> s \<and> s \<le> v0 + n"
    unfolding in_image_def page_number_fields Q_def [symmetric] s_def [symmetric] using Q by blast
  also have "\<dots> \<longleftrightarrow> B \<le> page_number va \<and> page_number va \<le> B + n"
    unfolding P(1) B using P(2) assms(2)
    by (cases "v2 * 512 + v1" Q rule: linorder_cases) auto
  finally show ?thesis .
qed

text \<open>Inside the image, the offset from its start is kept.\<close>

lemma page_offset_or: "page_address p OR take_bit 12 va = page_address p + take_bit 12 va"
  using take_bit_page_address [of p]
  by (intro disjunctive_add [symmetric]) (auto simp only: take_bit_0_iff_bits bit_take_bit_iff)

lemma superpage_entry_splittable:
  assumes "p < 512" "flags < 2 ^ 10" "bit flags 1"
  shows "splittable (pte (superpage_entry 30 flags p)) 1"
proof -
  let ?A = "of_nat (p * 2 ^ 30) :: usize" and ?w = "drop_bit 2 (of_nat (p * 2 ^ 30)) OR flags :: usize"
  have A: "?A = push_bit 30 (of_nat p)" by (simp add: push_bit_eq_mult)
  have "p < 2 ^ 9" using assms(1) by simp
  then have Ab: "bit ?A n \<longleftrightarrow> 30 \<le> n \<and> n < 39 \<and> bit p (n - 30)" for n
    using nat_bit_less [of p 9 "n - 30"] unfolding A by (auto simp: bit_push_bit_iff bit_of_nat_iff)
  have fb: "\<not> bit flags n" if "10 \<le> n" for n using less_pow2_bits [OF assms(2), of n] that by simp
  have wb: "bit ?w n \<longleftrightarrow> bit ?A (n + 2) \<or> bit flags n" for n
    by (simp only: bit_or_iff bit_drop_bit_eq comp_def add.commute)
  have "superpage_aligned 8 ?w (Suc 1)"
    unfolding superpage_aligned_def
  proof (intro allI impI)
    fix n :: nat
    assume n: "12 \<le> n \<and> n < vpn_shift (Suc 1) 8"
    then have "10 \<le> n - 2" "n - 2 + 2 < 30" by auto
    then show "\<not> bit ?w (n - 2)" unfolding wb Ab using fb by auto
  qed
  moreover have "?w < 2 ^ 54"
  proof -
    have "bit flags n \<Longrightarrow> n < 54" for n using fb [of n] by (cases "n < 10") auto
    then show ?thesis by (intro bits_less_pow2) (unfold wb Ab, auto)
  qed
  ultimately show ?thesis using assms(3) by (simp add: splittable_def superpage_entry_def bit_or_iff)
qed

end
