(* ===== verification/Boot_Image.thy ===== *)
theory Boot_Image
  imports Boot Page_Image Shared_Properties
begin

text \<open>
  The whole of \<^verbatim>\<open>pre_main\<close>: after the two halves of the address space the bootloader maps the payload,
  and then calls the kernel. The tables that the third mapping needs come from the heap, so there are
  hypotheses on the allocator: the two blocks it gives are fresh, page aligned and hold 512 entries.
\<close>

section \<open>The table of the bootloader\<close>

definition boot_memory :: "usize \<Rightarrow> memory" where
  "boot_memory addr = [addr \<mapsto> table_zeroed 8]"

definition halves_table :: Table where
  "halves_table = \<lparr>entries = map half_entry [0..<512]\<rparr>"

definition halves_memory :: "usize \<Rightarrow> memory" where
  "halves_memory addr = [addr \<mapsto> halves_table]"

lemma pre_main_maps_boot: "pre_main_maps alloc addr (boot_memory addr) = Some (halves_memory addr)"
  using pre_main_maps_Some [of "boot_memory addr" addr alloc]
  by (simp add: boot_memory_def halves_memory_def halves_table_def)

lemma halves_query: "query 3 8 (boot_paging addr) (halves_memory addr) va = Some (Inr (take_bit 38 va))"
  by (rule pre_main_query [of "boot_memory addr", OF _ pre_main_maps_boot]) (simp add: boot_memory_def)

lemma half_entry_splittable: "splittable (pte (half_entry k)) 1"
  unfolding half_entry_def by (rule superpage_entry_splittable) simp_all

lemma halves_unreferenced: "root_unreferenced p2v (halves_memory addr) root"
  using splittable_leaf [OF half_entry_splittable]
  by (auto simp: root_unreferenced_def halves_memory_def halves_table_def split: if_splits)

section \<open>Addresses of the image\<close>

lemma usize_of_unat: "of_nat (unat w) = (w :: usize)"
  by simp

lemma kernel_decanonical: "decanonicalize_address 3 8 0x7f80000000 = page_address ((510 * 512 + 0) * 512 + 0)"
  by (simp add: decanonicalize_address_def get_vpn_offset_def Let_def page_address_def)

lemma padded_len_pages:
  assumes "n = unat len div 4096 + 1" "n < 512"
  shows "padded_len len = Some (page_address n)"
proof -
  have u: "unat (len div 4096) = n - 1" using assms(1) by (simp add: unat_div)
  then have "checked_add (len div 4096) 1 = Some (len div 4096 + 1)" using assms by (simp add: checked_add_def)
  moreover have "len div 4096 + 1 = of_nat n"
  proof -
    have "of_nat (unat (len div 4096)) = (of_nat (n - 1) :: usize)" by (simp only: u)
    then have "len div 4096 = of_nat (n - 1)" by (simp only: usize_of_unat)
    then show ?thesis using assms(1) by (simp add: of_nat_diff)
  qed
  moreover have "checked_mul (of_nat n) 4096 = Some (page_address n)"
    using assms(2) by (simp add: checked_mul_def page_address_def unat_of_nat_usize)
  ultimately show ?thesis by (simp add: padded_len_def)
qed

text \<open>The page and the offset of an address of the image, which starts at page \<open>510 * 2\<^sup>1\<^sup>8\<close>.\<close>

lemma image_address:
  assumes "off < 2 ^ 21"
  defines "va \<equiv> 0xffffffff80000000 + of_nat off :: usize"
  shows "page_number va = 510 * 2 ^ 18 + off div 2 ^ 12" and "take_bit 12 va = of_nat (off mod 2 ^ 12)"
proof -
  have u: "unat va = 0xffffffff80000000 + off"
    using assms(1) by (simp add: va_def unat_word_ariths unat_of_nat_usize)
  have c: "(0xffffffff80000000 :: nat) = 0xffffffff80000 * 2 ^ 12" by simp
  have "(0xffffffff80000000 + off) div 2 ^ 12 = 0xffffffff80000 + off div 2 ^ 12"
    unfolding c by (rule div_mult_self3) simp
  then have d: "(0xffffffff80000000 + off) div 2 ^ 12 = 0x1ffffff * 2 ^ 27 + (510 * 2 ^ 18 + off div 2 ^ 12)"
    by simp
  have "off div 2 ^ 12 < 2 ^ 9" using assms(1) by (simp add: div_less_iff_less_mult)
  then have lt: "510 * 2 ^ 18 + off div 2 ^ 12 < 2 ^ 27" by simp
  show "page_number va = 510 * 2 ^ 18 + off div 2 ^ 12"
    unfolding page_number_def u d using mod_less [OF lt] by (simp only: mod_mult_self3)
  have "unat (take_bit 12 va) = take_bit 12 (0xffffffff80000000 + off)" by (simp only: unsigned_take_bit_eq u)
  also have "\<dots> = off mod 2 ^ 12" unfolding take_bit_eq_mod c by (rule mod_mult_self3)
  finally have "unat (take_bit 12 va) = off mod 2 ^ 12" .
  then have "of_nat (unat (take_bit 12 va)) = (of_nat (off mod 2 ^ 12) :: usize)" by (simp only:)
  then show "take_bit 12 va = of_nat (off mod 2 ^ 12)" by (simp only: usize_of_unat)
qed

text \<open>What a lookup gives that finds the page of the offset in an image at physical page \<open>p0\<close>.\<close>

lemma image_offset:
  assumes "off < 2 ^ 21"
  defines "va \<equiv> 0xffffffff80000000 + of_nat off :: usize"
  shows "page_address (p0 + page_number va mod 512) + take_bit 12 va = page_address p0 + of_nat off"
proof -
  have "off div 2 ^ 12 < 512" using assms(1) by (simp add: div_less_iff_less_mult)
  then have "page_number va mod 512 = off div 2 ^ 12"
    unfolding va_def image_address(1) [OF assms(1)] using mod_mult_self3 [of "510 * 2 ^ 9" 512 "off div 2 ^ 12"] by simp
  then show ?thesis
    unfolding va_def image_address(2) [OF assms(1)]
    by (simp only: page_address_add [symmetric] page_address_def [of "off div 2 ^ 12"] add.assoc of_nat_add [symmetric]
        div_mult_mod_eq)
qed

section \<open>The third mapping\<close>

text \<open>
  What the bootloader is linked to and what the allocator does: the root table and the payload are
  page aligned, the payload is shorter than 511 pages and lies, with the page after it, below \<open>2\<^sup>3\<^sup>9\<close>;
  the heap and the stack do not reach the end of memory.
\<close>

definition boot_ok :: "allocator \<Rightarrow> boot_image \<Rightarrow> nat \<Rightarrow> nat \<Rightarrow> usize \<Rightarrow> usize \<Rightarrow> bool" where
  "boot_ok alloc img p0 n ptr1 ptr2 \<longleftrightarrow>
     table_addr img AND 4095 = 0 \<and> payload_addr img = page_address p0
     \<and> n = unat (payload_len img) div 4096 + 1 \<and> n < 512 \<and> p0 + n < 2 ^ 27
     \<and> unat (heap_start img) + 0x10000 < 2 ^ 64 \<and> min_heap_size img \<noteq> 0 \<and> stack_start img < 2 ^ 38
     \<and> fresh_block alloc boot_virt_to_phys boot_phys_to_virt (halves_memory (table_addr img)) ptr1 ptr1
     \<and> fresh_block alloc boot_virt_to_phys boot_phys_to_virt
         (split_once (table_addr img) halves_table 510 ptr1 ptr1 (halves_memory (table_addr img))) ptr2 ptr2"

definition boot_final :: "boot_image \<Rightarrow> nat \<Rightarrow> nat \<Rightarrow> usize \<Rightarrow> usize \<Rightarrow> memory" where
  "boot_final img p0 n ptr1 ptr2 =
     image_mapped (table_addr img) halves_table 510 0 ptr1 ptr1 ptr2 ptr2 0 n p0 0xf (halves_memory (table_addr img))"

lemma boot_paging_sel [simp]:
  "root_table (boot_paging addr) = addr" "virt_to_phys_fn (boot_paging addr) = boot_virt_to_phys"
  "phys_to_virt_fn (boot_paging addr) = boot_phys_to_virt"
  by (simp_all add: boot_paging_def)

lemma halves_root: "halves_memory addr addr = Some halves_table" "length (entries halves_table) = 512"
  "k < 512 \<Longrightarrow> splittable (pte (entries halves_table ! k)) 1"
  using half_entry_splittable [of k] by (simp_all add: halves_memory_def halves_table_def)

lemma boot_third_map:
  assumes "boot_ok alloc img p0 n ptr1 ptr2"
  shows "map_range 3 8 alloc (boot_paging (table_addr img)) (payload_addr img) 0x7f80000000 (page_address n) 0xf
      (halves_memory (table_addr img)) = Some (boot_final img p0 n ptr1 ptr2)"
proof -
  let ?self = "boot_paging (table_addr img)"
  have blk: "fresh_block alloc (virt_to_phys_fn ?self) (phys_to_virt_fn ?self) (halves_memory (table_addr img)) ptr1 ptr1"
    "fresh_block alloc (virt_to_phys_fn ?self) (phys_to_virt_fn ?self)
       (split_once (root_table ?self) halves_table 510 ptr1 ptr1 (halves_memory (table_addr img))) ptr2 ptr2"
    and pa: "payload_addr img = page_address p0"
    using assms by (simp_all add: boot_ok_def)
  have root: "halves_memory (table_addr img) (root_table ?self) = Some halves_table" by (simp add: halves_root)
  have n: "(510 :: nat) < 512" "(0 :: nat) < 512" "0 < n" "0 + n < 512" "p0 + n < 2 ^ 44" "(0xf :: usize) < 2 ^ 10"
    using assms by (simp_all add: boot_ok_def)
  from map_range_image [where mem = "halves_memory (table_addr img)", OF root halves_root(2) halves_root(3) n kernel_decanonical blk] n
  show ?thesis unfolding pa boot_final_def by simp
qed

lemma boot_final_query:
  assumes ok: "boot_ok alloc img p0 n ptr1 ptr2"
  defines "mem' \<equiv> boot_final img p0 n ptr1 ptr2"
  shows "510 * 2 ^ 18 \<le> page_number va \<Longrightarrow> page_number va \<le> 510 * 2 ^ 18 + n \<Longrightarrow>
      query 3 8 (boot_paging (table_addr img)) mem' va
        = Some (Inr (page_address (p0 + page_number va mod 512) + take_bit 12 va))"
    and "\<not> (510 * 2 ^ 18 \<le> page_number va \<and> page_number va \<le> 510 * 2 ^ 18 + n) \<Longrightarrow>
      query 3 8 (boot_paging (table_addr img)) mem' va = Some (Inr (take_bit 38 va))"
proof -
  let ?self = "boot_paging (table_addr img)" and ?mem = "halves_memory (table_addr img)"
  have blk: "fresh_block alloc (virt_to_phys_fn ?self) (phys_to_virt_fn ?self) ?mem ptr1 ptr1"
    "fresh_block alloc (virt_to_phys_fn ?self) (phys_to_virt_fn ?self)
       (split_once (root_table ?self) halves_table 510 ptr1 ptr1 ?mem) ptr2 ptr2"
    using ok by (simp_all add: boot_ok_def)
  have root: "?mem (root_table ?self) = Some halves_table" by (simp add: halves_root)
  have e: "splittable (pte (entries halves_table ! 510)) 1" using halves_root(3) [of 510] by simp
  have n: "(510 :: nat) < 512" "(0 :: nat) < 512" "p0 + n < 2 ^ 27" "(0xf :: usize) < 2 ^ 10" "bit (0xf :: usize) 0"
    "bit (0xf :: usize) 1 \<or> bit (0xf :: usize) 3" and n512: "0 + n < 512"
    using ok by (simp_all add: boot_ok_def)
  have m: "mem' = image_mapped (root_table ?self) halves_table 510 0 ptr1 ptr1 ptr2 ptr2 0 n p0 0xf ?mem"
    by (simp add: mem'_def boot_final_def)
  note q = image_query [where mem = ?mem, OF root halves_root(2) e n blk m halves_unreferenced]
  have "in_image 510 0 0 n va \<longleftrightarrow> 510 * 2 ^ 18 \<le> page_number va \<and> page_number va \<le> 510 * 2 ^ 18 + n"
    using n512 by (intro in_image_iff) simp_all
  with q [of va] halves_query [of "table_addr img" va]
  show "510 * 2 ^ 18 \<le> page_number va \<Longrightarrow> page_number va \<le> 510 * 2 ^ 18 + n \<Longrightarrow>
      query 3 8 ?self mem' va = Some (Inr (page_address (p0 + page_number va mod 512) + take_bit 12 va))"
    "\<not> (510 * 2 ^ 18 \<le> page_number va \<and> page_number va \<le> 510 * 2 ^ 18 + n) \<Longrightarrow>
      query 3 8 ?self mem' va = Some (Inr (take_bit 38 va))"
    unfolding page_offset_or page_number_fields(1) by auto
qed

section \<open>The whole boot\<close>

lemma boot_stack:
  assumes "stack_start img < 2 ^ 38"
  shows "checked_add (stack_start img) (0 - push_bit 38 1) = Some (stack_start img + 0xffffffc000000000)"
  using assms by (simp add: checked_add_def word_less_nat_alt)

lemma boot_heap:
  assumes "unat (heap_start img) + 0x10000 < 2 ^ 64" "min_heap_size img \<noteq> 0"
  shows "\<exists>fin heap. checked_add (heap_start img) 0x10000 = Some fin
    \<and> init_from_pointers (min_heap_size img) (heap_start img) fin = Some heap"
proof -
  have fin: "checked_add (heap_start img) 0x10000 = Some (heap_start img + 0x10000)"
    using assms(1) by (simp add: checked_add_def)
  have u: "unat (heap_start img + 0x10000) = unat (heap_start img) + 0x10000"
    using assms(1) by (simp add: unat_word_ariths)
  then have "checked_sub (heap_start img + 0x10000) (heap_start img) = Some 0x10000"
    by (simp add: checked_sub_def word_le_nat_alt)
  moreover have "unat (0x10000 div min_heap_size img) * unat (min_heap_size img) < 2 ^ 64"
  proof -
    have "unat (0x10000 div min_heap_size img) * unat (min_heap_size img) \<le> unat (0x10000 :: usize)"
      by (simp only: unat_div div_times_less_eq_dividend)
    then show ?thesis by simp
  qed
  then have "\<exists>x. checked_mul (0x10000 div min_heap_size img) (min_heap_size img) = Some x"
    by (simp add: checked_mul_def)
  ultimately have "\<exists>heap. init_from_pointers (min_heap_size img) (heap_start img) (heap_start img + 0x10000) = Some heap"
    using assms(2) by (auto simp: init_from_pointers_def)
  with fin show ?thesis by blast
qed

text \<open>The run of \<^verbatim>\<open>pre_main\<close>: its arguments for the kernel and the tables it leaves.\<close>

lemma pre_main_runs:
  assumes "boot_ok alloc img p0 n ptr1 ptr2"
  shows "\<exists>args heap. pre_main alloc img False hart_id opaque h (boot_memory (table_addr img))
        = Some (args, heap, write_satp (satp_of (table_addr img)) h, boot_final img p0 n ptr1 ptr2)
    \<and> arg_hartid args = hart_id \<and> arg_opaque args = opaque \<and> arg_sv_bits args = 39
    \<and> arg_hart_entry args = hart_entry_point img \<and> arg_kernel_len args = page_address n
    \<and> arg_stack_start args = stack_start img + 0xffffffc000000000"
proof -
  have ok: "table_addr img AND 4095 = 0" "n = unat (payload_len img) div 4096 + 1" "n < 512"
    "unat (heap_start img) + 0x10000 < 2 ^ 64" "min_heap_size img \<noteq> 0" "stack_start img < 2 ^ 38"
    using assms by (simp_all add: boot_ok_def)
  from boot_heap [OF ok(4,5)] obtain fin heap where
    "checked_add (heap_start img) 0x10000 = Some fin"
    "init_from_pointers (min_heap_size img) (heap_start img) fin = Some heap" by blast
  then show ?thesis
    using ok(1) padded_len_pages [OF ok(2,3)] boot_third_map [OF assms] boot_stack [OF ok(6)]
    by (simp add: pre_main_def pre_main_maps_boot Let_def)
qed

text \<open>
  C3. The first hart to run the bootloader reaches the kernel: \<^verbatim>\<open>pre_main\<close> does not panic, whatever the hart
  and the arguments, and calls the kernel with the length of the payload in whole pages and the stack
  in the kernel's half. It has turned paging on with a table in which the kernel's address
  \<^verbatim>\<open>0xffffffff80000000\<close> plus any offset inside the payload's pages, and also inside the page after them,
  is the payload's address plus that offset, and in which every other address is still translated to its low 38 bits.
\<close>

theorem pre_main_boots_kernel:
  assumes "boot_ok alloc img p0 n ptr1 ptr2"
  shows "\<exists>args heap mem'. pre_main alloc img False hart_id opaque h (boot_memory (table_addr img))
        = Some (args, heap, write_satp (satp_of (table_addr img)) h, mem')
    \<and> arg_kernel_len args = of_nat (n * 4096) \<and> arg_stack_start args = stack_start img + 0xffffffc000000000
    \<and> (\<forall>off < (n + 1) * 4096. query 3 8 (boot_paging (table_addr img)) mem' (0xffffffff80000000 + of_nat off)
         = Some (Inr (payload_addr img + of_nat off)))
    \<and> (\<forall>va. \<not> (510 * 2 ^ 18 \<le> page_number va \<and> page_number va \<le> 510 * 2 ^ 18 + n) \<longrightarrow>
         query 3 8 (boot_paging (table_addr img)) mem' va = Some (Inr (take_bit 38 va)))"
proof -
  have ok: "payload_addr img = page_address p0" "n < 512"
    using assms by (simp_all add: boot_ok_def)
  let ?mem = "boot_final img p0 n ptr1 ptr2"
  from pre_main_runs [OF assms] have "\<exists>args heap. pre_main alloc img False hart_id opaque h (boot_memory (table_addr img))
      = Some (args, heap, write_satp (satp_of (table_addr img)) h, ?mem) \<and> arg_kernel_len args = page_address n
      \<and> arg_stack_start args = stack_start img + 0xffffffc000000000"
    by blast
  moreover have "query 3 8 (boot_paging (table_addr img)) ?mem (0xffffffff80000000 + of_nat off)
      = Some (Inr (payload_addr img + of_nat off))" if off: "off < (n + 1) * 4096" for off
  proof -
    have d: "off div 2 ^ 12 \<le> n" "off < 2 ^ 21" using less_mult_imp_div_less [OF off] off ok(2) by simp_all
    show ?thesis
      using boot_final_query(1) [OF assms, of "0xffffffff80000000 + of_nat off"] d(1)
      unfolding image_offset [OF d(2)] ok(1) by (simp add: image_address [OF d(2)])
  qed
  ultimately show ?thesis using boot_final_query(2) [OF assms] by (fastforce simp: page_address_def)
qed

text \<open>A bootloader at the start of memory, with a payload of two pages, and an allocator that has two blocks.\<close>

definition demo_image :: boot_image where
  "demo_image = \<lparr>table_addr = 0x1000, heap_start = 0x10000, payload_addr = 0x80000000, payload_len = 0x1800,
     stack_start = 0x8000, hart_entry_point = 0x200, min_heap_size = 64\<rparr>"

definition two_blocks :: allocator where
  "two_blocks mem = (if mem 0x2000 = None then Some (0x2000, table_zeroed 8) else Some (0x3000, table_zeroed 8))"

lemma demo_boot_ok: "boot_ok two_blocks demo_image 0x80000 2 0x2000 0x3000"
  by (simp add: boot_ok_def demo_image_def page_address_def fresh_block_def two_blocks_def halves_memory_def
      split_once_def boot_virt_to_phys_def boot_phys_to_virt_def table_zeroed_def)

theorem pre_main_boots_kernel_witness:
  "\<exists>args heap h' mem'. pre_main two_blocks demo_image False 0 0 (hart demo_world) (boot_memory 0x1000) = Some (args, heap, h', mem')
    \<and> query 3 8 (boot_paging 0x1000) mem' 0xffffffff80001234 = Some (Inr 0x80001234)"
proof -
  have "table_addr demo_image = 0x1000" "payload_addr demo_image = 0x80000000" by (simp_all add: demo_image_def)
  with pre_main_boots_kernel [OF demo_boot_ok, of 0 0 "hart demo_world"] obtain args heap h' mem' where
    m: "pre_main two_blocks demo_image False 0 0 (hart demo_world) (boot_memory 0x1000) = Some (args, heap, h', mem')"
    and q: "\<forall>off < (2 + 1) * 4096. query 3 8 (boot_paging 0x1000) mem' (0xffffffff80000000 + of_nat off)
      = Some (Inr (0x80000000 + of_nat off))"
    by auto
  from q [THEN spec [of _ "0x1234"]] have "query 3 8 (boot_paging 0x1000) mem' 0xffffffff80001234 = Some (Inr 0x80001234)"
    by simp
  with m show ?thesis by blast
qed

end
