(* ===== verification/Hart_Start.thy ===== *)
theory Hart_Start
  imports Boot
begin

text \<open>
  The start of the kernel and of the other harts: \<^verbatim>\<open>main\<close> and the loop of \<^verbatim>\<open>async_main\<close> in
  \<^verbatim>\<open>kernel_main/src/main.rs\<close>, with the stacks of \<^verbatim>\<open>kernel_util/src/lib.rs\<close>. The global allocator and the
  firmware call \<^verbatim>\<open>hart_start\<close> of the \<^verbatim>\<open>sbi\<close> crate are parameters that act on a state \<open>'w\<close>; the two
  errors that the loop tells apart are values of the crate's error type \<open>'e\<close>.
\<close>

section \<open>Aligned boxes\<close>

text \<open>\<^verbatim>\<open>Layout::from_size_align\<close>: a power of two, and a size that can be rounded up within \<^verbatim>\<open>isize\<close>.\<close>

definition layout_ok :: "usize \<Rightarrow> usize \<Rightarrow> bool" where
  "layout_ok nbytes align \<longleftrightarrow> list_ex (\<lambda>k. align = 2 ^ k) [0..<64] \<and> unat nbytes + unat align \<le> 2 ^ 63"

type_synonym 'w global_alloc = "usize \<Rightarrow> usize \<Rightarrow> 'w \<Rightarrow> (usize \<times> 'w) option"

definition boxed_slice_with_alignment_uninit ::
  "'w global_alloc \<Rightarrow> usize \<Rightarrow> usize \<Rightarrow> usize \<Rightarrow> 'w \<Rightarrow> (usize \<times> 'w) option" where
  "boxed_slice_with_alignment_uninit galloc size_of_T len align w = do {
     bytes \<leftarrow> checked_mul len size_of_T;
     assert_that (layout_ok bytes align);
     galloc bytes align w
   }"

text \<open>
  The variant that initialises its elements one by one. Memory maps the address of an element to its value; the
  first store of a null block faults.
\<close>

definition store_element :: "usize \<Rightarrow> 'v \<Rightarrow> (usize \<rightharpoonup> 'v) \<Rightarrow> (usize \<rightharpoonup> 'v) option" where
  "store_element a v mem = do { assert_that (a \<noteq> 0); Some (mem(a \<mapsto> v)) }"

definition boxed_slice_with_alignment ::
  "'w global_alloc \<Rightarrow> usize \<Rightarrow> usize \<Rightarrow> usize \<Rightarrow> 'v \<Rightarrow> (usize \<rightharpoonup> 'v) \<Rightarrow> 'w \<Rightarrow> (usize \<times> (usize \<rightharpoonup> 'v) \<times> 'w) option" where
  "boxed_slice_with_alignment galloc size_of_T len align initialize mem w = do {
     bytes \<leftarrow> checked_mul len size_of_T;
     assert_that (layout_ok bytes align);
     (ptr, w) \<leftarrow> galloc bytes align w;
     mem \<leftarrow> foldM (\<lambda>i. store_element (ptr + of_nat i * size_of_T) initialize) [0..<unat len] mem;
     Some (ptr, mem, w)
   }"

lemma store_elements:
  assumes "\<forall>i<n. ptr + of_nat i * size_of_T \<noteq> 0"
  shows "\<exists>mem'. foldM (\<lambda>i. store_element (ptr + of_nat i * size_of_T) v) [0..<n] mem = Some mem'
    \<and> (\<forall>i<n. mem' (ptr + of_nat i * size_of_T) = Some v)
    \<and> (\<forall>a. (\<forall>i<n. a \<noteq> ptr + of_nat i * size_of_T) \<longrightarrow> mem' a = mem a)"
  using assms
proof (induction n)
  case (Suc n)
  then obtain mem' where m: "foldM (\<lambda>i. store_element (ptr + of_nat i * size_of_T) v) [0..<n] mem = Some mem'"
    "\<forall>i<n. mem' (ptr + of_nat i * size_of_T) = Some v" "\<forall>a. (\<forall>i<n. a \<noteq> ptr + of_nat i * size_of_T) \<longrightarrow> mem' a = mem a"
    by auto
  have "ptr + of_nat n * size_of_T \<noteq> 0" using Suc.prems by blast
  then have "foldM (\<lambda>i. store_element (ptr + of_nat i * size_of_T) v) [0..<Suc n] mem
      = Some (mem'(ptr + of_nat n * size_of_T \<mapsto> v))"
    using m(1) by (simp add: foldM_append store_element_def)
  then show ?case
    using m(2,3) by (intro exI [of _ "mem'(ptr + of_nat n * size_of_T \<mapsto> v)"]) (simp add: less_Suc_eq fun_upd_def)
qed simp

text \<open>
  A block that the allocator gives and that does not reach around the end of the address space is filled, and nothing else changes.
\<close>

lemma boxed_slice_initialised:
  assumes "boxed_slice_with_alignment_uninit galloc size_of_T len align w = Some (ptr, w')"
    and "ptr \<noteq> 0" and "unat ptr + unat len * unat size_of_T \<le> 2 ^ 64"
  shows "\<exists>mem'. boxed_slice_with_alignment galloc size_of_T len align v mem w = Some (ptr, mem', w')
    \<and> (\<forall>i<unat len. mem' (ptr + of_nat i * size_of_T) = Some v)
    \<and> (\<forall>a. (\<forall>i<unat len. a \<noteq> ptr + of_nat i * size_of_T) \<longrightarrow> mem' a = mem a)"
proof -
  have "ptr + of_nat i * size_of_T \<noteq> 0" if i: "i < unat len" for i
  proof (cases "unat size_of_T = 0")
    case True
    then show ?thesis using assms(2) by (simp add: unat_eq_0)
  next
    case False
    then have "i * unat size_of_T < unat len * unat size_of_T" using i by simp
    then have "unat ptr + i * unat size_of_T < 2 ^ 64" using assms(3) by linarith
    moreover have "ptr + of_nat i * size_of_T = of_nat (unat ptr + i * unat size_of_T)" by simp
    ultimately have "unat (ptr + of_nat i * size_of_T) = unat ptr + i * unat size_of_T"
      by (simp only: unat_of_nat_usize)
    moreover have "0 < unat ptr" using assms(2) by (simp add: unat_gt_0)
    ultimately have "unat (ptr + of_nat i * size_of_T) \<noteq> 0" by linarith
    then show ?thesis by (simp add: unat_eq_0)
  qed
  then show ?thesis
    using store_elements [of "unat len" ptr size_of_T v mem] assms(1)
    by (auto simp: boxed_slice_with_alignment_def boxed_slice_with_alignment_uninit_def split: bind_splits)
qed

section \<open>Starting the other harts\<close>

type_synonym ('w, 'e, 'r) firmware_start = "usize \<Rightarrow> usize \<Rightarrow> usize \<Rightarrow> 'w \<Rightarrow> ('e + 'r) \<times> 'w"

text \<open>
  The body of the loop for one hart: a new stack whose last word is \<^verbatim>\<open>satp\<close>, and the call with the
  physical address of that word. The result says whether the loop goes on; on \<^verbatim>\<open>break\<close> the box of the
  stack is dropped, otherwise it is leaked.
\<close>

definition start_one_hart ::
  "'w global_alloc \<Rightarrow> (usize \<Rightarrow> 'w \<Rightarrow> 'w) \<Rightarrow> ('w, 'e, 'r) firmware_start \<Rightarrow> 'e \<Rightarrow> 'e \<Rightarrow> usize \<Rightarrow> usize \<Rightarrow> usize
     \<Rightarrow> usize \<Rightarrow> (usize \<rightharpoonup> usize) \<Rightarrow> 'w \<Rightarrow> (bool \<times> (usize \<rightharpoonup> usize) \<times> 'w) option" where
  "start_one_hart galloc dealloc hart_start already invalid root entry_point gap hart_id mem w = do {
     (stack, w) \<leftarrow> boxed_slice_with_alignment_uninit galloc 1 4096 4096 w;
     let stack_addr = stack + 4096 - 8;
     let mem = mem(stack_addr \<mapsto> root);
     sp \<leftarrow> checked_sub stack_addr gap;
     let (r, w) = hart_start hart_id entry_point sp w;
     (case r of
        Inr status \<Rightarrow> Some (True, mem, w)
      | Inl e \<Rightarrow>
          if e = already then Some (True, mem, w)
          else if e = invalid then Some (False, mem, dealloc stack w)
          else None)
   }"

text \<open>\<^verbatim>\<open>for hart_id in 0..\<close>: the iterator computes the next value before it gives the current one.\<close>

partial_function (option) start_harts ::
  "(usize \<Rightarrow> (usize \<rightharpoonup> usize) \<Rightarrow> 'w \<Rightarrow> (bool \<times> (usize \<rightharpoonup> usize) \<times> 'w) option) \<Rightarrow> usize \<Rightarrow> (usize \<rightharpoonup> usize) \<Rightarrow> 'w
     \<Rightarrow> (usize \<times> (usize \<rightharpoonup> usize) \<times> 'w) option" where
  "start_harts body hart_id mem w = do {
     next_id \<leftarrow> checked_add hart_id 1;
     r \<leftarrow> body hart_id mem w;
     if fst r then start_harts body next_id (fst (snd r)) (snd (snd r))
     else Some (hart_id, fst (snd r), snd (snd r))
   }"

section \<open>The entry of the kernel\<close>

record kernel_globals =
  SV_BITS :: usize
  GAP :: usize
  KERNEL_START_PHYSICAL :: usize

datatype main_path = Setup_hart usize | Async_main usize usize usize

text \<open>
  \<^verbatim>\<open>main\<close> up to the future it runs: a hart that finds \<^verbatim>\<open>SV_BITS\<close> set runs \<^verbatim>\<open>setup_hart\<close>; the first one
  initialises the globals and the heap and looks up where the kernel image lies. The memory is the
  page tables as the kernel sees them.
\<close>

definition kernel_main ::
  "usize \<Rightarrow> main_args \<Rightarrow> Hart \<Rightarrow> memory \<Rightarrow> kernel_globals
     \<Rightarrow> (main_path \<times> (usize \<times> usize) option \<times> kernel_globals) option" where
  "kernel_main min_heap args h mem g =
     (if SV_BITS g \<noteq> 0 then Some (Setup_hart (arg_hartid args), None, g)
      else do {
        let g = g\<lparr>SV_BITS := arg_sv_bits args\<rparr>;
        gap \<leftarrow> gap_of (arg_sv_bits args);
        let g = g\<lparr>GAP := gap\<rparr>;
        heap \<leftarrow> init_from_pointers min_heap 0xffffffc082000000 0xffffffc087000000;
        let addr = push_bit 12 (read_satp h);
        assert_that (addr \<noteq> 0);
        let sv39 = \<lparr>root_table = addr, phys_to_virt_fn = phys_to_virt gap, virt_to_phys_fn = virt_to_phys gap\<rparr>;
        r \<leftarrow> query 3 8 sv39 mem 0xffffffff80000000;
        (case r of
           Inl e \<Rightarrow> None
         | Inr p \<Rightarrow> Some (Async_main (arg_hartid args) (arg_opaque args) (arg_hart_entry args), Some heap,
             g\<lparr>KERNEL_START_PHYSICAL := p\<rparr>))
      })"

section \<open>The loop ends and starts every hart\<close>

lemma stack_layout: "boxed_slice_with_alignment_uninit galloc 1 4096 4096 w = galloc 4096 4096 w"
proof -
  have "list_ex (\<lambda>k. (4096 :: usize) = 2 ^ k) [0..<64]"
    by (subst list_ex_iff) (rule bexI [of _ 12], simp_all)
  then show ?thesis
    by (simp add: boxed_slice_with_alignment_uninit_def checked_mul_def layout_ok_def)
qed

text \<open>The addresses of a stack, and the stack pointer that a hart with this stack is started with.\<close>

definition stack_block :: "usize \<Rightarrow> nat set" where
  "stack_block b = {unat b..<unat b + 4096}"

definition start_request :: "usize \<Rightarrow> usize \<Rightarrow> nat \<times> usize \<Rightarrow> usize \<times> usize \<times> usize" where
  "start_request entry_point gap = (\<lambda>(i, b). (of_nat i, entry_point, b + 4088 - gap))"

text \<open>
  What one iteration does to the heap: \<open>live\<close> is the set of addresses that are allocated, \<open>room\<close> the number of stacks that can
  still be allocated.
\<close>

lemma start_one_hart_step:
  assumes alloc: "\<And>w. 0 < room w \<Longrightarrow> \<exists>b w'. galloc 4096 4096 w = Some (b, w') \<and> log w' = log w \<and> room w' = room w - 1
      \<and> gap \<le> b \<and> unat b + 4096 \<le> 2 ^ 64 \<and> stack_block b \<inter> live w = {} \<and> live w' = live w \<union> stack_block b"
    and dealloc: "\<And>b w. log (dealloc b w) = log w \<and> live (dealloc b w) = live w - stack_block b"
    and firmware: "\<And>i e sp w. log (snd (hart_start i e sp w)) = log w @ [(i, e, sp)]
      \<and> live (snd (hart_start i e sp w)) = live w \<and> room (snd (hart_start i e sp w)) = room w"
    and answer: "\<And>sp w. if goes_on then fst (hart_start (of_nat i) entry_point sp w) = Inl already
        \<or> (\<exists>x. fst (hart_start (of_nat i) entry_point sp w) = Inr x)
      else fst (hart_start (of_nat i) entry_point sp w) = Inl invalid"
    and errors: "already \<noteq> invalid" and room: "0 < room w"
  shows "\<exists>b w'. start_one_hart galloc dealloc hart_start already invalid root entry_point gap (of_nat i) mem w
      = Some (goes_on, mem(b + 4088 \<mapsto> root), w') \<and> log w' = log w @ [start_request entry_point gap (i, b)]
    \<and> stack_block b \<inter> live w = {} \<and> live w' = (if goes_on then live w \<union> stack_block b else live w)
    \<and> (goes_on \<longrightarrow> room w' = room w - 1)"
proof -
  from alloc [OF room] obtain b w1 where b: "galloc 4096 4096 w = Some (b, w1)" "log w1 = log w" "room w1 = room w - 1" "gap \<le> b"
    "unat b + 4096 \<le> 2 ^ 64" "stack_block b \<inter> live w = {}" "live w1 = live w \<union> stack_block b" by blast
  define top where "top = b + 4096 - 8"
  have "unat (b + 4088) = unat b + unat (4088 :: usize)"
    using b(5) by (intro unat_add_no_overflow) simp
  moreover have top: "top = b + 4088" by (simp add: top_def)
  ultimately have "gap \<le> top" using b(4) by (simp add: word_le_nat_alt)
  then have sub: "checked_sub top gap = Some (top - gap)" by (simp add: checked_sub_def)
  obtain r w2 where r: "hart_start (of_nat i) entry_point (top - gap) w1 = (r, w2)"
    by (cases "hart_start (of_nat i) entry_point (top - gap) w1")
  have w2: "log w2 = log w @ [start_request entry_point gap (i, b)]" "live w2 = live w \<union> stack_block b" "room w2 = room w - 1"
    using firmware [of "of_nat i" entry_point "top - gap" w1] r b(2,3,7) by (simp_all add: start_request_def top)
  have freed: "(live w \<union> stack_block b) - stack_block b = live w" using b(6) by blast
  have "if goes_on then r = Inl already \<or> (\<exists>x. r = Inr x) else r = Inl invalid"
    using answer [of "top - gap" w1] unfolding r fst_conv .
  moreover have "stack_block b \<inter> live w = {}" by (rule b(6))
  moreover have "4088 + b = top" "b + 4088 = top" by (simp_all add: top)
  ultimately show ?thesis
    using errors dealloc [of b w2] w2 freed unfolding start_one_hart_def stack_layout b(1)
    by (intro exI [of _ b] exI [of _ "if goes_on then w2 else dealloc b w2"])
      (auto simp: Let_def sub r split: if_splits)
qed

text \<open>The stacks of a list do not overlap.\<close>

fun stacks_disjoint :: "usize list \<Rightarrow> bool" where
  "stacks_disjoint [] \<longleftrightarrow> True"
| "stacks_disjoint (b # bs) \<longleftrightarrow> (\<forall>c\<in>set bs. stack_block b \<inter> stack_block c = {}) \<and> stacks_disjoint bs"

lemma start_harts_run:
  assumes goes_on: "\<And>i mem w. i < n \<Longrightarrow> 0 < room w \<Longrightarrow> \<exists>b w'. body (of_nat i) mem w = Some (True, mem(b + 4088 \<mapsto> root), w')
      \<and> log w' = log w @ [start_request e gap (i, b)] \<and> stack_block b \<inter> live w = {} \<and> live w' = live w \<union> stack_block b
      \<and> room w' = room w - 1"
    and fin: "\<And>mem w. 0 < room w \<Longrightarrow> \<exists>b w'. body (of_nat n) mem w = Some (False, mem(b + 4088 \<mapsto> root), w')
      \<and> log w' = log w @ [start_request e gap (n, b)] \<and> stack_block b \<inter> live w = {} \<and> live w' = live w"
    and n: "n < 2 ^ 64 - 1" and i: "i \<le> n" and room: "n - i < room w"
  shows "\<exists>mem' w' stacks spare. start_harts body (of_nat i) mem w = Some (of_nat n, mem', w')
    \<and> length stacks = n - i
    \<and> log w' = log w @ map (start_request e gap) (zip [i..<n] stacks) @ [start_request e gap (n, spare)]
    \<and> (\<forall>b\<in>insert spare (set stacks). mem' (b + 4088) = Some root \<and> stack_block b \<inter> live w = {})
    \<and> (\<forall>a. mem a = Some root \<longrightarrow> mem' a = Some root)
    \<and> stacks_disjoint (stacks @ [spare]) \<and> live w' = live w \<union> (\<Union>b\<in>set stacks. stack_block b)"
  using i room
proof (induction "n - i" arbitrary: i mem w)
  case 0
  then have "i = n" by simp
  from fin [of w mem] "0.prems" obtain b w' where b: "body (of_nat n) mem w = Some (False, mem(b + 4088 \<mapsto> root), w')"
    "log w' = log w @ [start_request e gap (n, b)]" "stack_block b \<inter> live w = {}" "live w' = live w" by auto
  have next_id: "checked_add (of_nat n) 1 = Some (of_nat n + 1)"
    using n by (simp add: checked_add_def unat_of_nat)
  show ?case
    unfolding \<open>i = n\<close> using b
    by (intro exI [of _ "mem(b + 4088 \<mapsto> root)"] exI [of _ w'] exI [of _ "[]"] exI [of _ b])
      (simp add: next_id start_harts.simps [of body "of_nat n"] fun_eq_iff)
next
  case (Suc k)
  then have i: "i < n" by simp
  from goes_on [OF i, of w mem] Suc.prems(2) obtain b w1 where b: "body (of_nat i) mem w = Some (True, mem(b + 4088 \<mapsto> root), w1)"
    "log w1 = log w @ [start_request e gap (i, b)]" "stack_block b \<inter> live w = {}" "live w1 = live w \<union> stack_block b"
    "room w1 = room w - 1" by auto
  have next_id: "checked_add (of_nat i) 1 = Some (of_nat (Suc i))"
    using n i by (simp add: checked_add_def unat_of_nat)
  have "k = n - Suc i" "Suc i \<le> n" "n - Suc i < room w1" using Suc.hyps(2) Suc.prems i b(5) by simp_all
  from Suc.hyps(1) [OF this, of "mem(b + 4088 \<mapsto> root)"] obtain mem' w' stacks spare where
    IH: "start_harts body (of_nat (Suc i)) (mem(b + 4088 \<mapsto> root)) w1 = Some (of_nat n, mem', w')"
    "length stacks = n - Suc i" "log w' = log w1 @ map (start_request e gap) (zip [Suc i..<n] stacks) @ [start_request e gap (n, spare)]"
    "\<forall>b\<in>insert spare (set stacks). mem' (b + 4088) = Some root \<and> stack_block b \<inter> live w1 = {}"
    "\<forall>a. (mem(b + 4088 \<mapsto> root)) a = Some root \<longrightarrow> mem' a = Some root"
    "stacks_disjoint (stacks @ [spare])" "live w' = live w1 \<union> (\<Union>b\<in>set stacks. stack_block b)"
    by (elim exE conjE) (rule that; assumption)
  have "start_harts body (of_nat i) mem w = Some (of_nat n, mem', w')"
    by (subst start_harts.simps) (simp add: next_id b(1) IH(1) del: of_nat_Suc)
  moreover have "[i..<n] = i # [Suc i..<n]" using i by (simp add: upt_conv_Cons)
  moreover have "stacks_disjoint ((b # stacks) @ [spare])" using IH(4,6) b(4) by auto
  moreover have "\<forall>c\<in>insert spare (set (b # stacks)). mem' (c + 4088) = Some root \<and> stack_block c \<inter> live w = {}"
    using IH(4,5) b(3,4) by auto
  moreover have "\<forall>a. mem a = Some root \<longrightarrow> mem' a = Some root" using IH(5) by simp
  ultimately show ?case
    using IH(2,3,7) b(2,4) i
    by (intro exI [of _ mem'] exI [of _ w'] exI [of _ "b # stacks"] exI [of _ spare]) auto
qed

text \<open>
  C22. If the firmware knows \<open>n\<close> harts (every request for a hart below \<open>n\<close> is accepted or reports
  \<^verbatim>\<open>AlreadyAvailable\<close>, and the one for hart \<open>n\<close> reports \<^verbatim>\<open>InvalidParameter\<close>), the allocator gives blocks in the kernel's half that
  are not in use and there is room for \<open>n + 1\<close> stacks, then the loop ends after \<open>n + 1\<close> requests: one for each of the harts
  \<open>0, \<dots>, n - 1\<close>, in that order, and one for hart \<open>n\<close>, which is rejected. Each names the entry point of the kernel and the last word of a stack
  of its own, at which the page table register is stored. No two of the stacks overlap and none overlaps memory that was in use; those of the harts
  that the firmware knows stay allocated and the one of the rejected request is given back.
\<close>

theorem start_harts_all:
  assumes alloc: "\<And>w. 0 < room w \<Longrightarrow> \<exists>b w'. galloc 4096 4096 w = Some (b, w') \<and> log w' = log w \<and> room w' = room w - 1
      \<and> gap \<le> b \<and> unat b + 4096 \<le> 2 ^ 64 \<and> stack_block b \<inter> live w = {} \<and> live w' = live w \<union> stack_block b"
    and dealloc: "\<And>b w. log (dealloc b w) = log w \<and> live (dealloc b w) = live w - stack_block b"
    and firmware: "\<And>i e sp w. log (snd (hart_start i e sp w)) = log w @ [(i, e, sp)]
      \<and> live (snd (hart_start i e sp w)) = live w \<and> room (snd (hart_start i e sp w)) = room w"
    and known: "\<And>i sp w. i < n \<Longrightarrow> fst (hart_start (of_nat i) entry_point sp w) = Inl already
      \<or> (\<exists>x. fst (hart_start (of_nat i) entry_point sp w) = Inr x)"
    and unknown: "\<And>sp w. fst (hart_start (of_nat n) entry_point sp w) = Inl invalid"
    and errors: "already \<noteq> invalid" and n: "n < 2 ^ 64 - 1" and room: "n < room w"
  shows "\<exists>mem' w' stacks spare. start_harts (start_one_hart galloc dealloc hart_start already invalid
        root entry_point gap) 0 mem w = Some (of_nat n, mem', w')
    \<and> length stacks = n
    \<and> log w' = log w @ map (start_request entry_point gap) (zip [0..<n] stacks) @ [start_request entry_point gap (n, spare)]
    \<and> (\<forall>b\<in>insert spare (set stacks). mem' (b + 4088) = Some root \<and> stack_block b \<inter> live w = {})
    \<and> stacks_disjoint (stacks @ [spare]) \<and> live w' = live w \<union> (\<Union>b\<in>set stacks. stack_block b)"
proof -
  let ?body = "start_one_hart galloc dealloc hart_start already invalid root entry_point gap"
  note step = start_one_hart_step [where log = log and room = room and live = live and galloc = galloc and dealloc = dealloc
      and hart_start = hart_start, OF alloc dealloc firmware _ errors]
  have "\<exists>b w'. ?body (of_nat i) mem w = Some (True, mem(b + 4088 \<mapsto> root), w')
      \<and> log w' = log w @ [start_request entry_point gap (i, b)] \<and> stack_block b \<inter> live w = {} \<and> live w' = live w \<union> stack_block b
      \<and> room w' = room w - 1" if "i < n" "0 < room w" for i mem w
    using step [of True i entry_point w root mem] known [OF that(1)] that(2) by simp
  moreover have "\<exists>b w'. ?body (of_nat n) mem w = Some (False, mem(b + 4088 \<mapsto> root), w')
      \<and> log w' = log w @ [start_request entry_point gap (n, b)] \<and> stack_block b \<inter> live w = {} \<and> live w' = live w"
    if "0 < room w" for mem w
    using step [of False n entry_point w root mem] unknown that by simp
  ultimately show ?thesis
    using start_harts_run [where i = 0 and n = n and body = ?body and room = room and live = live and log = log and w = w and mem = mem
      and root = root and gap = gap and e = entry_point] n room by fastforce
qed

text \<open>
  A firmware with three harts, of which the first is running, and a heap from which stacks are taken one after the other; the state records the
  requests, how many stacks have been taken and which addresses have been given back.
\<close>

record start_demo =
  requests :: "(usize \<times> usize \<times> usize) list"
  taken :: nat
  given_back :: "nat set"

definition demo_stack :: "nat \<Rightarrow> usize" where
  "demo_stack i = 0xffffffc082000000 + of_nat i * 4096"

definition demo_galloc :: "start_demo global_alloc" where
  "demo_galloc nbytes align w = (if taken w < 1280 then 
     Some (demo_stack (taken w), w\<lparr>taken := taken w + 1, given_back := given_back w - stack_block (demo_stack (taken w))\<rparr>) else None)"

definition demo_dealloc :: "usize \<Rightarrow> start_demo \<Rightarrow> start_demo" where
  "demo_dealloc b w = w\<lparr>given_back := given_back w \<union> stack_block b\<rparr>"

definition demo_hart_start :: "(start_demo, bool, unit) firmware_start" where
  "demo_hart_start i e sp w =
     (if i = 0 then Inl True else if i < 3 then Inr () else Inl False, w\<lparr>requests := requests w @ [(i, e, sp)]\<rparr>)"

definition demo_live :: "start_demo \<Rightarrow> nat set" where
  "demo_live w = (\<Union>i\<in>{..<min (taken w) 1280}. stack_block (demo_stack i)) - given_back w"

lemma unat_demo_stack: "i < 1280 \<Longrightarrow> unat (demo_stack i) = 0xffffffc082000000 + i * 4096"
proof -
  assume i: "i < 1280"
  have "demo_stack i = of_nat (0xffffffc082000000 + i * 4096)" by (simp add: demo_stack_def)
  moreover have "unat (of_nat (0xffffffc082000000 + i * 4096) :: usize) = 0xffffffc082000000 + i * 4096"
    using i by (intro unat_of_nat_usize) simp
  ultimately show ?thesis by simp
qed

lemma demo_stacks_apart: "i < 1280 \<Longrightarrow> j < 1280 \<Longrightarrow> i \<noteq> j \<Longrightarrow> stack_block (demo_stack i) \<inter> stack_block (demo_stack j) = {}"
  unfolding stack_block_def unat_demo_stack by (cases "i < j") auto

lemma demo_alloc:
  assumes "0 < 1280 - taken w"
  shows "\<exists>b w'. demo_galloc 4096 4096 w = Some (b, w') \<and> requests w' = requests w \<and> 1280 - taken w' = 1280 - taken w - 1
    \<and> 0xffffffc000000000 \<le> b \<and> unat b + 4096 \<le> 2 ^ 64 \<and> stack_block b \<inter> demo_live w = {} \<and> demo_live w' = demo_live w \<union> stack_block b"
proof -
  let ?b = "demo_stack (taken w)"
  let ?w = "w\<lparr>taken := taken w + 1, given_back := given_back w - stack_block ?b\<rparr>"
  let ?U = "\<Union>i\<in>{..<taken w}. stack_block (demo_stack i)"
  have t: "taken w < 1280" using assms by simp
  have apart: "stack_block ?b \<inter> ?U = {}" 
  proof -
    have "stack_block ?b \<inter> stack_block (demo_stack i) = {}" if "i < taken w" for i using that t by (intro demo_stacks_apart) simp_all
    then show ?thesis by blast
  qed
  have live: "demo_live w = ?U - given_back w" using t by (simp add: demo_live_def)
  have "demo_live ?w = (?U \<union> stack_block ?b) - (given_back w - stack_block ?b)" using t by (simp add: demo_live_def lessThan_Suc Un_commute)
  moreover have "(U \<union> B) - (G - B) = (U - G) \<union> B" if "B \<inter> U = {}" for U B G :: "nat set" using that by blast
  note this [OF apart]
  ultimately have "demo_live ?w = demo_live w \<union> stack_block ?b" using live by simp
  moreover have "stack_block ?b \<inter> demo_live w = {}" using apart live by blast
  moreover have "0xffffffc000000000 \<le> ?b" "unat ?b + 4096 \<le> 2 ^ 64"
    using unat_demo_stack [OF t] t by (simp_all add: word_le_nat_alt)
  ultimately show ?thesis
    using t by (intro exI [of _ ?b] exI [of _ ?w]) (simp add: demo_galloc_def)
qed

theorem start_harts_all_witness:
  "\<exists>mem' w' stacks spare. start_harts (start_one_hart demo_galloc demo_dealloc
        demo_hart_start True False 0x8000000000080001 0x80200000 0xffffffc000000000) 0 Map.empty \<lparr>requests = [], taken = 0, given_back = {}\<rparr>
      = Some (of_nat 3, mem', w')
    \<and> length stacks = 3 \<and> requests w' = map (start_request 0x80200000 0xffffffc000000000) (zip [0..<3] stacks)
        @ [start_request 0x80200000 0xffffffc000000000 (3, spare)]
    \<and> stacks_disjoint (stacks @ [spare]) \<and> demo_live w' = (\<Union>b\<in>set stacks. stack_block b)"
proof -
  let ?w = "\<lparr>requests = [], taken = 0, given_back = {}\<rparr> :: start_demo"
  have "fst (demo_hart_start (of_nat i) 0x80200000 sp w) = Inl True \<or> (\<exists>x. fst (demo_hart_start (of_nat i) 0x80200000 sp w) = Inr x)"
    if "i < 3" for i sp w
  proof -
    have "i = 0 \<or> i = 1 \<or> i = 2" using that by auto
    then show ?thesis by (auto simp: demo_hart_start_def)
  qed
  moreover have "fst (demo_hart_start (of_nat 3) 0x80200000 sp w) = Inl False" for sp w by (simp add: demo_hart_start_def)
  moreover have "requests (demo_dealloc b w) = requests w \<and> demo_live (demo_dealloc b w) = demo_live w - stack_block b" for b w
    by (auto simp: demo_dealloc_def demo_live_def)
  moreover have "requests (snd (demo_hart_start i e sp w)) = requests w @ [(i, e, sp)]
      \<and> demo_live (snd (demo_hart_start i e sp w)) = demo_live w
      \<and> 1280 - taken (snd (demo_hart_start i e sp w)) = 1280 - taken w" for i e sp w
    by (simp add: demo_hart_start_def demo_live_def)
  moreover have "demo_live ?w = {}" "requests ?w = []" "3 < 1280 - taken ?w" by (simp_all add: demo_live_def)
  ultimately show ?thesis
    using start_harts_all [where log = requests and room = "\<lambda>w. 1280 - taken w" and live = demo_live and n = 3 and w = ?w
      and galloc = demo_galloc and dealloc = demo_dealloc and hart_start = demo_hart_start and gap = "0xffffffc000000000"
      and entry_point = "0x80200000" and already = True and invalid = False and root = "0x8000000000080001" and mem = Map.empty, OF demo_alloc]
    by auto
qed

end
