(* ===== verification/Boot_Kernel.thy ===== *)
theory Boot_Kernel
  imports Boot_Image Hart_Start
begin

text \<open>
  From the bootloader to the kernel: the kernel's \<^verbatim>\<open>main\<close> runs in the address space that \<^verbatim>\<open>pre_main\<close> has built,
  and finds its own image with a software walk of the bootloader's tables, which it sees in its half of the
  address space.
\<close>

section \<open>The tables as the kernel sees them\<close>

text \<open>An address outside the image is the physical address in its low 38 bits, as the bootloader has mapped it.\<close>

definition kernel_view :: "memory \<Rightarrow> memory" where
  "kernel_view mem a = mem (take_bit 38 a)"

definition tables_low :: "memory \<Rightarrow> bool" where
  "tables_low mem \<longleftrightarrow> (\<forall>ptr t e. mem ptr = Some t \<longrightarrow> e \<in> set (entries t) \<longrightarrow> \<not> is_leaf e \<longrightarrow>
     address e \<noteq> 0 \<and> address e < 2 ^ 38)"

lemma as_table_views:
  assumes "tables_low mem" "mem_entry mem table k = Some e" "\<not> is_leaf e"
  shows "as_table boot_phys_to_virt e = Some (address e)"
    "as_table (phys_to_virt 0xffffffc000000000) e = Some (address e + 0xffffffc000000000)"
proof -
  have a: "address e \<noteq> 0" "address e < 2 ^ 38" "pte e AND 1 \<noteq> 0"
    using assms by (auto simp: tables_low_def mem_entry_Some is_leaf_def VALID_def)
  show "as_table boot_phys_to_virt e = Some (address e)" using a by (simp add: as_table_def boot_phys_to_virt_def)
  have n: "unat (address e) < 2 ^ 38" using a(2) by (simp add: word_less_nat_alt)
  then have "unat (address e + 0xffffffc000000000) \<noteq> 0" by (simp add: unat_word_ariths)
  then have "address e + 0xffffffc000000000 \<noteq> 0" by auto
  then show "as_table (phys_to_virt 0xffffffc000000000) e = Some (address e + 0xffffffc000000000)"
    using a(3) n by (simp add: as_table_def phys_to_virt_def checked_add_def)
qed

lemma mem_entry_view: "mem_entry (kernel_view mem) table k = mem_entry mem (take_bit 38 table) k"
  by (simp add: mem_entry_def kernel_view_def)

lemma walk_entry_view:
  assumes low: "tables_low mem" and e: "mem_entry mem table k = Some e"
    and IH: "\<And>table'. i \<noteq> 0 \<Longrightarrow> query_loop L 8 (phys_to_virt 0xffffffc000000000) (kernel_view mem) table' va (i - 1)
      = query_loop L 8 boot_phys_to_virt mem (take_bit 38 table') va (i - 1)"
  shows "walk_entry L 8 (phys_to_virt 0xffffffc000000000) (kernel_view mem) va i e = walk_entry L 8 boot_phys_to_virt mem va i e"
proof (cases "is_leaf e")
  case False
  then have "address e < 2 ^ 38" using low e by (auto simp: tables_low_def mem_entry_Some)
  from kernel_half_take_bit(2) [OF this] IH [of "address e + 0xffffffc000000000"]
  show ?thesis using as_table_views [OF low e False] by (simp add: walk_entry_def False)
qed (simp add: walk_entry_def)

lemma query_loop_view:
  assumes low: "tables_low mem"
  shows "query_loop L 8 (phys_to_virt 0xffffffc000000000) (kernel_view mem) table' va i
    = query_loop L 8 boot_phys_to_virt mem (take_bit 38 table') va i"
proof (induction i arbitrary: table')
  case 0
  show ?case
    unfolding query_loop_walk [of _ _ _ "kernel_view mem"] query_loop_walk [of _ _ _ mem]
    using walk_entry_view [OF low, of "take_bit 38 table'" _ _ 0]
    by (cases "mem_entry mem (take_bit 38 table') (unat (get_vpn_number va 0 8))") (simp_all add: mem_entry_view)
next
  case (Suc i)
  show ?case
    unfolding query_loop_walk [of _ _ _ "kernel_view mem" table'] query_loop_walk [of _ _ _ mem "take_bit 38 table'"]
    using walk_entry_view [OF low, of "take_bit 38 table'" _ _ "Suc i"] Suc.IH
    by (cases "mem_entry mem (take_bit 38 table') (unat (get_vpn_number va (Suc i) 8))") (simp_all add: mem_entry_view)
qed

section \<open>The bootloader's tables are low\<close>

lemma pointer_address:
  assumes "fresh_block alloc v2p p2v mem ptr pp" shows "address (pointer_entry pp) = pp" "pp \<noteq> 0"
  using assms table_pointer_entry(6) [of pp] by (auto simp: fresh_block_def address_def pointer_entry_def)

lemma split_value_leaf:
  assumes "splittable v l" "l \<le> 3" "k < 512" shows "is_leaf \<lparr>pte = split_value v l k\<rparr>"
  using assms(1) bit_split_value_low [OF assms(3,2), of _ v] by (simp add: splittable_def is_leaf_bits) blast

lemma page_entry_leaf: "bit flags 1 \<Longrightarrow> is_leaf (superpage_entry 12 flags p)"
  by (simp add: superpage_entry_def is_leaf_bits bit_or_iff)

lemma table_set_low:
  assumes "\<And>e. e \<in> set (entries t) \<Longrightarrow> is_leaf e" "e \<in> set (entries (table_set k p t))" "\<not> is_leaf e"
  shows "e = p"
  using assms set_update_subset_insert [of "entries t" k p] by (auto simp: table_set_def)

lemma boot_final_low:
  assumes ok: "boot_ok alloc img p0 n ptr1 ptr2" and low: "ptr1 < 2 ^ 38" "ptr2 < 2 ^ 38"
  shows "tables_low (boot_final img p0 n ptr1 ptr2)"
proof -
  let ?a = "table_addr img" and ?v = "pte (half_entry 510)"
  have blk: "fresh_block alloc boot_virt_to_phys boot_phys_to_virt (halves_memory ?a) ptr1 ptr1"
    "fresh_block alloc boot_virt_to_phys boot_phys_to_virt (split_once ?a halves_table 510 ptr1 ptr1 (halves_memory ?a)) ptr2 ptr2"
    using ok by (simp_all add: boot_ok_def)
  have ptr: "address (pointer_entry ptr1) \<noteq> 0" "address (pointer_entry ptr1) < 2 ^ 38"
    "address (pointer_entry ptr2) \<noteq> 0" "address (pointer_entry ptr2) < 2 ^ 38"
    using pointer_address [OF blk(1)] pointer_address [OF blk(2)] low by simp_all
  have v: "splittable ?v 1" "splittable (split_value ?v 1 0) 0"
    using half_entry_splittable split_value_splittable [of ?v 0 0] by simp_all
  have leaf: "e \<in> set (entries halves_table) \<Longrightarrow> is_leaf e" "e \<in> set (entries (split_table ?v 1)) \<Longrightarrow> is_leaf e"
    "e \<in> set (entries (image_table 0 n p0 0xf (split_table (split_value ?v 1 0) 0))) \<Longrightarrow> is_leaf e" for e
    using splittable_leaf [OF half_entry_splittable] split_value_leaf [OF v(1)] split_value_leaf [OF v(2)] page_entry_leaf
    by (auto simp: halves_table_def image_table_def split_table_def)
  have h: "entries halves_table ! 510 = half_entry 510" by (simp add: halves_table_def)
  have set1: "e \<in> set (entries (table_set 510 (pointer_entry ptr1) halves_table)) \<Longrightarrow> \<not> is_leaf e \<Longrightarrow> e = pointer_entry ptr1"
    and set2: "e \<in> set (entries (table_set 0 (pointer_entry ptr2) (split_table ?v 1))) \<Longrightarrow> \<not> is_leaf e \<Longrightarrow> e = pointer_entry ptr2"
    for e using table_set_low leaf(1,2) by blast+
  show ?thesis
    unfolding tables_low_def boot_final_def image_mapped_def split_once_def halves_memory_def Let_def h
    using set1 set2 leaf(3) ptr by (fastforce split: if_splits)
qed

section \<open>The kernel finds its image\<close>

lemma satp_root:
  assumes "(a :: usize) AND 4095 = 0" shows "push_bit 12 (satp_of a) = a"
proof -
  have "push_bit 12 (drop_bit 12 a) = a"
    using assms by (intro push_drop_aligned) (simp only: take_bit_0_iff_bits page_aligned_bits)
  moreover have "push_bit 12 (push_bit 60 (8 :: usize)) = 0" by simp
  ultimately show ?thesis by (simp only: satp_of_def push_bit_or or.right_neutral)
qed

lemma kernel_heap:
  assumes "min_heap \<noteq> 0" shows "\<exists>heap. init_from_pointers min_heap 0xffffffc082000000 0xffffffc087000000 = Some heap"
proof -
  have "unat (0x5000000 div min_heap) * unat min_heap \<le> unat (0x5000000 :: usize)"
    by (simp only: unat_div div_times_less_eq_dividend)
  then have "unat (0x5000000 div min_heap) * unat min_heap < 2 ^ 64" by simp
  then show ?thesis using assms by (simp add: init_from_pointers_def checked_sub_def checked_mul_def)
qed

text \<open>
  C2. The bootloader hands over to the kernel: \<^verbatim>\<open>main\<close>, called with the arguments that \<^verbatim>\<open>pre_main\<close> computes, on
  the hart as \<^verbatim>\<open>pre_main\<close> leaves it and in the address space it has built, does not panic; it
  stores the gap of the upper half, finds the physical address of the payload as the start of the kernel image
  and goes on to \<^verbatim>\<open>async_main\<close>. A hart that enters later through \<^verbatim>\<open>hart_entry\<close> goes to \<^verbatim>\<open>setup_hart\<close> and
  changes none of the globals.
\<close>

theorem boot_hands_over:
  assumes "boot_ok alloc img p0 n ptr1 ptr2" and "ptr1 < 2 ^ 38" and "ptr2 < 2 ^ 38"
    and "table_addr img < 2 ^ 38" and "table_addr img \<noteq> 0" and "min_heap \<noteq> 0" and "SV_BITS g = 0" and "sp < 2 ^ 38"
  shows "\<exists>args heap h' mem' kheap g' args2. pre_main alloc img False hart_id opaque h (boot_memory (table_addr img)) = Some (args, heap, h', mem')
    \<and> kernel_main min_heap args h' (kernel_view mem') g
        = Some (Async_main hart_id opaque (hart_entry_point img), Some kheap, g')
    \<and> g' = g\<lparr>SV_BITS := 39, GAP := 0xffffffc000000000, KERNEL_START_PHYSICAL := payload_addr img\<rparr>
    \<and> hart_entry img hart_id2 sp = Some args2
    \<and> kernel_main min_heap args2 h2 mem2 g' = Some (Setup_hart hart_id2, None, g')"
proof -
  have ok: "table_addr img AND 4095 = 0" "payload_addr img = page_address p0"
    using assms(1) by (simp_all add: boot_ok_def)
  let ?mem = "boot_final img p0 n ptr1 ptr2" and ?h = "write_satp (satp_of (table_addr img)) h"
  from pre_main_runs [OF assms(1)] obtain args heap where
    pm: "pre_main alloc img False hart_id opaque h (boot_memory (table_addr img)) = Some (args, heap, ?h, ?mem)"
    and args: "arg_hartid args = hart_id" "arg_opaque args = opaque" "arg_sv_bits args = 39" "arg_hart_entry args = hart_entry_point img"
    by blast
  have root: "push_bit 12 (read_satp ?h) = table_addr img"
    using satp_root [OF ok(1)] by (simp add: read_satp_def write_satp_def)
  have "query 3 8 (boot_paging (table_addr img)) ?mem 0xffffffff80000000 = Some (Inr (payload_addr img))"
    using boot_final_query(1) [OF assms(1), of "0xffffffff80000000"] image_offset [of 0 p0] image_address(1) [of 0] ok(2) by simp
  then have q: "query_loop 3 8 (phys_to_virt 0xffffffc000000000) (kernel_view ?mem) (table_addr img) 0xffffffff80000000 2
      = Some (Inr (payload_addr img))"
    using query_loop_view [OF boot_final_low [OF assms(1-3)]] kernel_half_take_bit(1) [OF assms(4)] by (simp add: query_def)
  from kernel_heap [OF assms(6)] obtain kheap where kh: "init_from_pointers min_heap 0xffffffc082000000 0xffffffc087000000 = Some kheap"
    by blast
  let ?g = "g\<lparr>SV_BITS := 39, GAP := 0xffffffc000000000, KERNEL_START_PHYSICAL := payload_addr img\<rparr>"
  have km: "kernel_main min_heap args ?h (kernel_view ?mem) g
      = Some (Async_main hart_id opaque (hart_entry_point img), Some kheap, ?g)"
    using assms(5,7) args root q kh gap_39 by (simp add: kernel_main_def query_def Let_def)
  have "\<exists>args2. hart_entry img hart_id2 sp = Some args2 \<and> arg_hartid args2 = hart_id2"
    using assms(8) by (simp add: hart_entry_def checked_add_def word_less_nat_alt)
  then show ?thesis using pm km by (auto simp: kernel_main_def)
qed

definition globals_zero :: kernel_globals where
  "globals_zero = \<lparr>SV_BITS = 0, GAP = 0, KERNEL_START_PHYSICAL = 0\<rparr>"

theorem boot_hands_over_witness:
  "\<exists>args heap h' mem' kheap. pre_main two_blocks demo_image False 3 0 (hart demo_world) (boot_memory 0x1000) = Some (args, heap, h', mem')
    \<and> kernel_main 64 args h' (kernel_view mem') globals_zero = Some (Async_main 3 0 0x200, Some kheap,
        \<lparr>SV_BITS = 39, GAP = 0xffffffc000000000, KERNEL_START_PHYSICAL = 0x80000000\<rparr>)"
proof -
  have "table_addr demo_image = 0x1000" "payload_addr demo_image = 0x80000000" "hart_entry_point demo_image = 0x200"
    by (simp_all add: demo_image_def)
  then show ?thesis
    using boot_hands_over [OF demo_boot_ok, of 64 globals_zero 0 3 0 "hart demo_world" 1 "hart demo_world" Map.empty]
    by (fastforce simp: globals_zero_def)
qed

end
