(* ===== verification/Hart_Tables.thy ===== *)
theory Hart_Tables
  imports Boot_Image
begin

text \<open>
  The page table that a hart builds for itself at the start of \<^verbatim>\<open>common_hart_code\<close>: the kernel's half of the
  address space and, inside it, the kernel image. The table comes from \<^verbatim>\<open>boxed_zeroed\<close>, which does not
  write the block, so that the block is zeroed is a hypothesis on the allocator.
\<close>

definition upper_table :: Table where
  "upper_table = \<lparr>entries = map (\<lambda>k. if 256 \<le> k then half_entry k else entry_zeroed) [0..<512]\<rparr>"

definition kernel_paging_at :: "usize \<Rightarrow> usize \<Rightarrow> GenericPaging" where
  "kernel_paging_at GAP addr = \<lparr>root_table = addr, phys_to_virt_fn = phys_to_virt GAP, virt_to_phys_fn = virt_to_phys GAP\<rparr>"

lemma kernel_paging_sel [simp]:
  "root_table (kernel_paging_at GAP addr) = addr" "virt_to_phys_fn (kernel_paging_at GAP addr) = virt_to_phys GAP"
  "phys_to_virt_fn (kernel_paging_at GAP addr) = phys_to_virt GAP"
  by (simp_all add: kernel_paging_at_def)

lemma upper_map:
  "map_range 3 8 alloc (kernel_paging_at GAP addr) 0 (push_bit 38 1) (push_bit 38 1) 0xf (mem(addr \<mapsto> table_zeroed 8))
    = Some (mem(addr \<mapsto> upper_table))"
proof -
  have three: "(3 :: nat) = Suc (Suc 1)" and s: "(30 :: nat) = 12 + 9 * Suc 1" and fl: "(0xf :: usize) < 2 ^ 10"
    by simp_all
  have d: "decanonicalize_address (Suc (Suc 1)) 8 (push_bit 38 1) = (of_nat (256 * 2 ^ 30) :: usize)"
    unfolding three [symmetric] by (simp add: decanonicalize_address_def get_vpn_offset_def Let_def)
  have w: "(0 :: usize) = of_nat (0 * 2 ^ 30)" "(push_bit 38 1 :: usize) = of_nat (256 * 2 ^ 30)" by simp_all
  let ?mem = "mem(addr \<mapsto> table_zeroed 8)" and ?self = "kernel_paging_at GAP addr"
  have t: "?mem (root_table ?self) = Some (table_zeroed 8)" "length (entries (table_zeroed 8)) = 512"
    by (simp_all add: table_zeroed_def)
  have lf: "is_leaf (entries (table_zeroed 8) ! k)" if "256 \<le> k" "k < 256 + 256" for k
    using that by (simp add: table_zeroed_def entry_zeroed_def zero_entry_leaf)
  have es: "map (\<lambda>k. if 256 \<le> k \<and> k < 256 + 256 then superpage_entry 30 0xf (0 + (k - 256))
      else entries (table_zeroed 8) ! k) [0..<512] = entries upper_table"
    unfolding upper_table_def by (auto simp: half_entry_def table_zeroed_def entry_zeroed_def le_mod_geq)
  have tab: "\<lparr>entries = entries upper_table\<rparr> = upper_table" by (simp add: upper_table_def)
  have "map_range (Suc (Suc 1)) 8 alloc ?self (of_nat (0 * 2 ^ 30)) (push_bit 38 1) (of_nat (256 * 2 ^ 30)) 0xf ?mem
      = Some (?mem(root_table ?self \<mapsto> upper_table))"
    using map_range_superpages [where mem = ?mem and n = 256 and ?v0.0 = 256 and l = 1 and ?p0.0 = 0 and self = ?self
        and alloc = alloc, OF t _ _ _ _ fl lf d s]
    unfolding es tab by simp
  then show ?thesis unfolding three using w by (simp only: kernel_paging_sel fun_upd_upd)
qed

lemma upper_root: "length (entries upper_table) = 512" "splittable (pte (entries upper_table ! 510)) 1"
  "k < 512 \<Longrightarrow> is_leaf (entries upper_table ! k)"
  using half_entry_splittable [of 510] splittable_leaf [OF half_entry_splittable [of k]]
  by (simp_all add: upper_table_def entry_zeroed_def zero_entry_leaf)

text \<open>A superpage entry of the halves translates to the low 38 bits; an empty entry is an error.\<close>

lemma half_entry_query:
  assumes "mem_entry mem (root_table self) (unat (get_vpn_number va 2 8)) = Some (half_entry (unat (get_vpn_number va 2 8)))"
  shows "query 3 8 self mem va = Some (Inr (take_bit 38 va))"
proof -
  define k where "k = unat (get_vpn_number va (Suc 1) 8)"
  have two: "(2 :: nat) = Suc 1" and three: "(3 :: nat) = Suc (Suc 1)" and s: "(30 :: nat) = 12 + 9 * Suc 1" "Suc (Suc 1) - 1 = Suc 1"
    by simp_all
  have "query 3 8 self mem va = walk_entry (Suc (Suc 1)) 8 (phys_to_virt_fn self) mem va (Suc 1) (half_entry k)"
    using assms unfolding query_def query_loop_walk three s(2) two k_def by (simp only: bind.bind_lunit)
  also have "\<dots> = Some (Inr (of_nat (k mod 256 * 2 ^ 30) OR take_bit 30 va))"
    unfolding half_entry_def s(1) by (rule superpage_translation [OF k_def [symmetric]]) simp_all
  finally show ?thesis unfolding half_offset [OF k_def [symmetric]] .
qed

lemma upper_query:
  assumes "mem addr = Some upper_table"
  shows "256 \<le> unat (get_vpn_number va 2 8) \<Longrightarrow> query 3 8 (kernel_paging_at GAP addr) mem va = Some (Inr (take_bit 38 va))"
    and "unat (get_vpn_number va 2 8) < 256 \<Longrightarrow> query 3 8 (kernel_paging_at GAP addr) mem va = Some (Inl Invalid)"
proof -
  let ?k = "unat (get_vpn_number va 2 8)"
  have k: "?k < 512" using unat_get_vpn_number_less [of 8 2 va] by simp
  have m: "mem_entry mem addr ?k = Some (if 256 \<le> ?k then half_entry ?k else entry_zeroed)"
    using mem_entry_at [where mem = mem, OF assms, of ?k] k by (simp add: upper_table_def)
  show "query 3 8 (kernel_paging_at GAP addr) mem va = Some (Inr (take_bit 38 va))" if "256 \<le> ?k"
    using m that by (intro half_entry_query) simp
  show "query 3 8 (kernel_paging_at GAP addr) mem va = Some (Inl Invalid)" if "?k < 256"
    unfolding query_def query_loop_walk using m that by (simp add: walk_entry_def entry_zeroed_def)
qed

section \<open>The table of a hart\<close>

text \<open>
  What the allocator does for a hart: it gives a zeroed, page aligned block that nothing points to,
  and two more blocks for the tables below it. The kernel image lies below \<open>2\<^sup>3\<^sup>9\<close>.
\<close>

definition hart_tables_ok ::
  "allocator \<Rightarrow> usize \<Rightarrow> memory \<Rightarrow> usize \<Rightarrow> usize \<Rightarrow> usize \<Rightarrow> usize \<Rightarrow> usize \<Rightarrow> usize \<Rightarrow> nat \<Rightarrow> bool" where
  "hart_tables_ok alloc GAP mem addr pp ptr1 pp1 ptr2 pp2 p0 \<longleftrightarrow>
     alloc mem = Some (addr, table_zeroed 8) \<and> addr AND 4095 = 0 \<and> virt_to_phys GAP addr = Some pp
     \<and> root_unreferenced (phys_to_virt GAP) mem addr \<and> p0 + 256 < 2 ^ 27
     \<and> fresh_block alloc (virt_to_phys GAP) (phys_to_virt GAP) (mem(addr \<mapsto> upper_table)) ptr1 pp1
     \<and> fresh_block alloc (virt_to_phys GAP) (phys_to_virt GAP)
         (split_once addr upper_table 510 ptr1 pp1 (mem(addr \<mapsto> upper_table))) ptr2 pp2"

lemma upper_unreferenced:
  assumes "root_unreferenced p2v mem root" shows "root_unreferenced p2v (mem(addr \<mapsto> upper_table)) root"
  using assms upper_root(3) by (auto simp: root_unreferenced_def in_set_conv_nth upper_root(1) split: if_splits)

definition hart_final :: "memory \<Rightarrow> usize \<Rightarrow> usize \<Rightarrow> usize \<Rightarrow> usize \<Rightarrow> usize \<Rightarrow> nat \<Rightarrow> memory" where
  "hart_final mem addr ptr1 pp1 ptr2 pp2 p0 =
     image_mapped addr upper_table 510 0 ptr1 pp1 ptr2 pp2 0 256 p0 0xf (mem(addr \<mapsto> upper_table))"

lemma hart_image_map:
  assumes "hart_tables_ok alloc GAP mem addr pp ptr1 pp1 ptr2 pp2 p0"
  shows "map_range 3 8 alloc (kernel_paging_at GAP addr) (page_address p0) KERNEL_START_VIRTUAL 0x100000 0xf
    (mem(addr \<mapsto> upper_table)) = Some (hart_final mem addr ptr1 pp1 ptr2 pp2 p0)"
proof -
  let ?self = "kernel_paging_at GAP addr" and ?mem = "mem(addr \<mapsto> upper_table)"
  have blk: "fresh_block alloc (virt_to_phys_fn ?self) (phys_to_virt_fn ?self) ?mem ptr1 pp1"
    "fresh_block alloc (virt_to_phys_fn ?self) (phys_to_virt_fn ?self)
       (split_once (root_table ?self) upper_table 510 ptr1 pp1 ?mem) ptr2 pp2"
    using assms by (simp_all add: hart_tables_ok_def)
  have root: "?mem (root_table ?self) = Some upper_table" by simp
  have n: "(510 :: nat) < 512" "(0 :: nat) < 512" "(0 :: nat) < 256" "0 + 256 < (512 :: nat)" "p0 + 256 < 2 ^ 44"
    "(0xf :: usize) < 2 ^ 10" using assms by (simp_all add: hart_tables_ok_def)
  have d: "decanonicalize_address 3 8 KERNEL_START_VIRTUAL = page_address ((510 * 512 + 0) * 512 + 0)"
    by (simp add: decanonicalize_address_def get_vpn_offset_def Let_def page_address_def KERNEL_START_VIRTUAL_def)
  have len: "(0x100000 :: usize) = page_address 256" by (simp add: page_address_def)
  show ?thesis
    unfolding len hart_final_def
    using map_range_image [where mem = ?mem, OF root upper_root(1,2) n d blk] by simp
qed

lemma hart_final_query:
  assumes ok: "hart_tables_ok alloc GAP mem addr pp ptr1 pp1 ptr2 pp2 p0"
  defines "mem' \<equiv> hart_final mem addr ptr1 pp1 ptr2 pp2 p0"
  shows "510 * 2 ^ 18 \<le> page_number va \<Longrightarrow> page_number va \<le> 510 * 2 ^ 18 + 256 \<Longrightarrow>
      query 3 8 (kernel_paging_at GAP addr) mem' va
        = Some (Inr (page_address (p0 + page_number va mod 512) + take_bit 12 va))"
    and "\<not> (510 * 2 ^ 18 \<le> page_number va \<and> page_number va \<le> 510 * 2 ^ 18 + 256) \<Longrightarrow>
      query 3 8 (kernel_paging_at GAP addr) mem' va
        = Some (if 2 ^ 26 \<le> page_number va then Inr (take_bit 38 va) else Inl Invalid)"
proof -
  let ?self = "kernel_paging_at GAP addr" and ?mem = "mem(addr \<mapsto> upper_table)"
  have blk: "fresh_block alloc (virt_to_phys_fn ?self) (phys_to_virt_fn ?self) ?mem ptr1 pp1"
    "fresh_block alloc (virt_to_phys_fn ?self) (phys_to_virt_fn ?self)
       (split_once (root_table ?self) upper_table 510 ptr1 pp1 ?mem) ptr2 pp2"
    and unref: "root_unreferenced (phys_to_virt_fn ?self) ?mem (root_table ?self)"
    using ok by (simp_all add: hart_tables_ok_def upper_unreferenced)
  have root: "?mem (root_table ?self) = Some upper_table" by simp
  have n: "(510 :: nat) < 512" "(0 :: nat) < 512" "p0 + 256 < 2 ^ 27" "(0xf :: usize) < 2 ^ 10" "bit (0xf :: usize) 0"
    "bit (0xf :: usize) 1 \<or> bit (0xf :: usize) 3"
    using ok by (simp_all add: hart_tables_ok_def)
  have m: "mem' = image_mapped (root_table ?self) upper_table 510 0 ptr1 pp1 ptr2 pp2 0 256 p0 0xf ?mem"
    by (simp add: mem'_def hart_final_def)
  note q = image_query [where mem = ?mem, OF root upper_root(1,2) n blk m unref]
  have img: "in_image 510 0 0 256 va \<longleftrightarrow> 510 * 2 ^ 18 \<le> page_number va \<and> page_number va \<le> 510 * 2 ^ 18 + 256"
    by (intro in_image_iff) simp_all
  have "256 \<le> page_number va div 512 div 512 \<longleftrightarrow> 2 ^ 26 \<le> page_number va"
    by (simp add: div_mult2_eq [symmetric] less_eq_div_iff_mult_less_eq)
  then have old: "query 3 8 ?self ?mem va = Some (if 2 ^ 26 \<le> page_number va then Inr (take_bit 38 va) else Inl Invalid)"
    using upper_query [where mem = ?mem, of addr va GAP] unfolding page_number_fields(3) by auto
  show "510 * 2 ^ 18 \<le> page_number va \<Longrightarrow> page_number va \<le> 510 * 2 ^ 18 + 256 \<Longrightarrow>
      query 3 8 ?self mem' va = Some (Inr (page_address (p0 + page_number va mod 512) + take_bit 12 va))"
    using q(1) [of va] img unfolding page_offset_or page_number_fields(1) by simp
  show "\<not> (510 * 2 ^ 18 \<le> page_number va \<and> page_number va \<le> 510 * 2 ^ 18 + 256) \<Longrightarrow>
      query 3 8 ?self mem' va = Some (if 2 ^ 26 \<le> page_number va then Inr (take_bit 38 va) else Inl Invalid)"
    using q(2) [OF _ old] img by blast
qed

text \<open>An address of the image, as an offset from its start.\<close>

lemma hart_image_query:
  assumes ok: "hart_tables_ok alloc GAP mem addr pp ptr1 pp1 ptr2 pp2 p0" and off: "off < 257 * 4096"
  shows "query 3 8 (kernel_paging_at GAP addr) (hart_final mem addr ptr1 pp1 ptr2 pp2 p0) (KERNEL_START_VIRTUAL + of_nat off)
    = Some (Inr (page_address p0 + of_nat off))"
proof -
  have d: "off div 2 ^ 12 \<le> 256" "off < 2 ^ 21" using less_mult_imp_div_less [OF off] off by simp_all
  have k: "KERNEL_START_VIRTUAL + of_nat off = 0xffffffff80000000 + of_nat off"
    by (simp add: KERNEL_START_VIRTUAL_def)
  show ?thesis
    using hart_final_query(1) [OF ok, of "0xffffffff80000000 + of_nat off"] d(1)
    unfolding image_offset [OF d(2)] k by (simp add: image_address [OF d(2)])
qed

lemma common_hart_tables_run:
  assumes "hart_tables_ok alloc GAP mem addr pp ptr1 pp1 ptr2 pp2 p0"
  shows "common_hart_tables alloc GAP (page_address p0) h mem
    = Some (write_satp (satp_of pp) h, hart_final mem addr ptr1 pp1 ptr2 pp2 p0)"
proof -
  let ?mem = "hart_final mem addr ptr1 pp1 ptr2 pp2 p0"
  have ok: "alloc mem = Some (addr, table_zeroed 8)" "addr AND 4095 = 0" "virt_to_phys GAP addr = Some pp" "p0 + 256 < 2 ^ 27"
    using assms by (simp_all add: hart_tables_ok_def)
  have q: "query 3 8 (kernel_paging_at GAP addr) ?mem (KERNEL_START_VIRTUAL + 0x1000) = Some (Inr (page_address p0 + 0x1000))"
    using hart_image_query [OF assms, of "0x1000"] by simp
  have "page_address p0 + 0x1000 = page_address (p0 + 1)" by (simp add: page_address_def algebra_simps)
  moreover have "unat (page_address (p0 + 1)) \<noteq> 0" using ok(4) by (subst unat_page_address) simp_all
  ultimately have nz: "page_address p0 + 0x1000 \<noteq> 0" by auto
  show ?thesis
    using ok upper_map [of alloc GAP addr mem] hart_image_map [OF assms] q nz
    by (simp add: common_hart_tables_def boxed_zeroed_def kernel_paging_at_def Let_def)
qed

text \<open>
  C4. A hart builds its own page table without a panic, when the allocator gives it a zeroed block: the
  assertions hold, the hart then runs with that table, in which the kernel's virtual start plus any
  offset below \<open>257\<close> pages (the \<open>256\<close> asked for and one more) is the kernel's physical start plus the offset,
  the rest of the upper half is the low 38 bits of the address, and the lower half is not mapped.
\<close>

theorem hart_address_space:
  assumes "hart_tables_ok alloc GAP mem addr pp ptr1 pp1 ptr2 pp2 p0"
  shows "\<exists>mem'. common_hart_tables alloc GAP (page_address p0) h mem = Some (write_satp (satp_of pp) h, mem')
    \<and> (\<forall>off < 257 * 4096. query 3 8 (kernel_paging_at GAP addr) mem' (KERNEL_START_VIRTUAL + of_nat off)
         = Some (Inr (page_address p0 + of_nat off)))
    \<and> (\<forall>va. \<not> (510 * 2 ^ 18 \<le> page_number va \<and> page_number va \<le> 510 * 2 ^ 18 + 256) \<longrightarrow>
         query 3 8 (kernel_paging_at GAP addr) mem' va
           = Some (if 2 ^ 26 \<le> page_number va then Inr (take_bit 38 va) else Inl Invalid))"
proof (intro exI conjI allI impI)
  let ?mem = "hart_final mem addr ptr1 pp1 ptr2 pp2 p0"
  show "common_hart_tables alloc GAP (page_address p0) h mem = Some (write_satp (satp_of pp) h, ?mem)"
    by (rule common_hart_tables_run [OF assms])
  show "query 3 8 (kernel_paging_at GAP addr) ?mem (KERNEL_START_VIRTUAL + of_nat off) = Some (Inr (page_address p0 + of_nat off))"
    if "off < 257 * 4096" for off
    using that by (rule hart_image_query [OF assms])
  show "query 3 8 (kernel_paging_at GAP addr) ?mem va
      = Some (if 2 ^ 26 \<le> page_number va then Inr (take_bit 38 va) else Inl Invalid)"
    if "\<not> (510 * 2 ^ 18 \<le> page_number va \<and> page_number va \<le> 510 * 2 ^ 18 + 256)" for va
    using that by (rule hart_final_query(2) [OF assms])
qed

text \<open>A hart in an empty memory, with an allocator that gives three blocks in the kernel's half.\<close>

definition three_blocks :: allocator where
  "three_blocks mem =
     (if mem 0xffffffc000001000 = None then Some (0xffffffc000001000, table_zeroed 8)
      else if mem 0xffffffc000002000 = None then Some (0xffffffc000002000, table_zeroed 8)
      else Some (0xffffffc000003000, table_zeroed 8))"

lemma demo_hart_tables_ok:
  "hart_tables_ok three_blocks 0xffffffc000000000 Map.empty 0xffffffc000001000 0x1000 0xffffffc000002000 0x2000
    0xffffffc000003000 0x3000 0x80200"
  by (simp add: hart_tables_ok_def three_blocks_def fresh_block_def split_once_def virt_to_phys_def phys_to_virt_def
      checked_add_def checked_sub_def root_unreferenced_def table_zeroed_def)

theorem hart_address_space_witness:
  "\<exists>h' mem'. common_hart_tables three_blocks 0xffffffc000000000 0x80200000 (hart demo_world) Map.empty = Some (h', mem')
    \<and> query 3 8 (kernel_paging_at 0xffffffc000000000 0xffffffc000001000) mem' 0xffffffff80001234 = Some (Inr 0x80201234)"
proof -
  from hart_address_space [OF demo_hart_tables_ok, of "hart demo_world"] obtain h' mem' where
    m: "common_hart_tables three_blocks 0xffffffc000000000 (page_address 0x80200) (hart demo_world) Map.empty = Some (h', mem')"
    and q: "\<forall>off < 257 * 4096. query 3 8 (kernel_paging_at 0xffffffc000000000 0xffffffc000001000) mem'
      (KERNEL_START_VIRTUAL + of_nat off) = Some (Inr (page_address 0x80200 + of_nat off))"
    by auto
  have p: "page_address 0x80200 = 0x80200000" by (simp add: page_address_def)
  have k: "KERNEL_START_VIRTUAL + of_nat 0x1234 = 0xffffffff80001234" by (simp add: KERNEL_START_VIRTUAL_def)
  have "query 3 8 (kernel_paging_at 0xffffffc000000000 0xffffffc000001000) mem' 0xffffffff80001234 = Some (Inr 0x80201234)"
    using q [THEN spec [of _ "0x1234"]] unfolding k p by simp
  with m show ?thesis unfolding p by blast
qed

end
