(* ===== verification/BTree_Map.thy ===== *)
theory BTree_Map
  imports Kernel_Prelude "HOL-Library.List_Lexorder" "HOL-Library.Option_ord"
begin

text \<open>
  The part of Rust's \<^verbatim>\<open>BTreeMap\<close> that the device tree uses, as association lists with strictly
  increasing keys: \<^verbatim>\<open>insert\<close>, \<^verbatim>\<open>get\<close>, and iteration in the order of the keys. The laws of a map are
  stated as a locale, with the two-level map of children that \<^verbatim>\<open>Node\<close> keeps as its client.
\<close>

type_synonym ('k, 'v) btree_map = "('k \<times> 'v) list"

fun bt_insert :: "'k :: linorder \<Rightarrow> 'v \<Rightarrow> ('k, 'v) btree_map \<Rightarrow> ('k, 'v) btree_map" where
  "bt_insert k v [] = [(k, v)]"
| "bt_insert k v ((k', v') # m) =
     (if k < k' then (k, v) # (k', v') # m
      else if k = k' then (k, v) # m
      else (k', v') # bt_insert k v m)"

fun bt_get :: "'k \<Rightarrow> ('k, 'v) btree_map \<Rightarrow> 'v option" where
  "bt_get k [] = None"
| "bt_get k ((k', v) # m) = (if k = k' then Some v else bt_get k m)"

definition bt_inv :: "('k :: linorder, 'v) btree_map \<Rightarrow> bool" where
  "bt_inv m \<longleftrightarrow> sorted_wrt (<) (map fst m)"

lemma bt_get_in_keys: "bt_get k m \<noteq> None \<longleftrightarrow> k \<in> fst ` set m"
  by (induction k m rule: bt_get.induct) auto

lemma keys_bt_insert: "fst ` set (bt_insert k v m) = insert k (fst ` set m)"
  by (induction k v m rule: bt_insert.induct) auto

lemma bt_inv_insert [simp]: "bt_inv m \<Longrightarrow> bt_inv (bt_insert k v m)"
proof (induction k v m rule: bt_insert.induct)
  case (2 k v k' v' m)
  have "set (map fst (bt_insert k v m)) = insert k (fst ` set m)"
    using keys_bt_insert [of k v m] by simp
  with 2 show ?case by (auto simp: bt_inv_def)
qed (simp add: bt_inv_def)

lemma bt_inv_Nil [simp]: "bt_inv []"
  by (simp add: bt_inv_def)

lemma bt_get_insert_same [simp]: "bt_get k (bt_insert k v m) = Some v"
  by (induction k v m rule: bt_insert.induct) auto

lemma bt_get_insert_other [simp]: "k \<noteq> q \<Longrightarrow> bt_get q (bt_insert k v m) = bt_get q m"
  by (induction k v m rule: bt_insert.induct) auto

text \<open>The contract of a map.\<close>

locale map_laws =
  fixes empty :: 'm and get :: "'k \<Rightarrow> 'm \<Rightarrow> 'v option" and insert :: "'k \<Rightarrow> 'v \<Rightarrow> 'm \<Rightarrow> 'm"
    and inv :: "'m \<Rightarrow> bool"
  assumes get_empty: "get k empty = None"
    and get_insert: "inv m \<Longrightarrow> get q (insert k v m) = (if q = k then Some v else get q m)"
    and inv_empty: "inv empty"
    and inv_insert: "inv m \<Longrightarrow> inv (insert k v m)"
begin

primrec insert_all :: "('k \<times> 'v) list \<Rightarrow> 'm \<Rightarrow> 'm" where
  "insert_all [] m = m"
| "insert_all (p # ps) m = insert_all ps (insert (fst p) (snd p) m)"

lemma inv_insert_all: "inv m \<Longrightarrow> inv (insert_all ps m)"
  by (induction ps arbitrary: m) (simp_all add: inv_insert)

text \<open>The last binding of a key in the list wins.\<close>

lemma get_insert_all:
  "inv m \<Longrightarrow> get k (insert_all ps m) = (case map_of (rev ps) k of Some v \<Rightarrow> Some v | None \<Rightarrow> get k m)"
proof (induction ps arbitrary: m)
  case (Cons p ps)
  then show ?case
    by (cases p) (auto simp: inv_insert get_insert map_add_def split: option.splits)
qed simp

end

interpretation btree: map_laws "[]" bt_get "bt_insert :: 'k :: linorder \<Rightarrow> 'v \<Rightarrow> _" bt_inv
  by unfold_locales auto

end
