(* ===== verification/Device_Tree.thy ===== *)
theory Device_Tree
  imports BTree_Map
begin

text \<open>
  \<^verbatim>\<open>kernel_chip_drivers/src/fdt.rs\<close>: the flattened device tree. The blob is a list of bytes at a
  base address; a pointer into it is an address (a natural number), and reading outside the blob is
  undefined behaviour and is \<^const>\<open>None\<close>, like a panic. A \<^verbatim>\<open>&str\<close> is its list of UTF-8 bytes, whose
  lexicographic order is the order of \<^verbatim>\<open>str\<close>. A reference to a node (\<^verbatim>\<open>PropertyValue::PHandle\<close>) is
  the path of the node from the root. The field \<^verbatim>\<open>kernel_struct\<close>, which the parser always sets to
  \<^verbatim>\<open>None\<close>, is left out.
\<close>

type_synonym str = "u8 list"

definition str_of :: "string \<Rightarrow> str" where
  "str_of s = map of_char s"

section \<open>UTF-8 and numbers\<close>

text \<open>\<^verbatim>\<open>core::str::from_utf8\<close>: well-formed UTF-8.\<close>

definition continuation :: "u8 \<Rightarrow> bool" where
  "continuation b \<longleftrightarrow> 0x80 \<le> b \<and> b \<le> 0xBF"

fun utf8_valid :: "u8 list \<Rightarrow> bool" where
  "utf8_valid [] = True"
| "utf8_valid (a # bs) =
     (if a < 0x80 then utf8_valid bs
      else if 0xC2 \<le> a \<and> a \<le> 0xDF then
        (case bs of b # r \<Rightarrow> continuation b \<and> utf8_valid r | _ \<Rightarrow> False)
      else if 0xE0 \<le> a \<and> a \<le> 0xEF then
        (case bs of b # c # r \<Rightarrow>
             continuation b \<and> (a = 0xE0 \<longrightarrow> 0xA0 \<le> b) \<and> (a = 0xED \<longrightarrow> b \<le> 0x9F)
             \<and> continuation c \<and> utf8_valid r
         | _ \<Rightarrow> False)
      else if 0xF0 \<le> a \<and> a \<le> 0xF4 then
        (case bs of b # c # d # r \<Rightarrow>
             continuation b \<and> (a = 0xF0 \<longrightarrow> 0x90 \<le> b) \<and> (a = 0xF4 \<longrightarrow> b \<le> 0x8F)
             \<and> continuation c \<and> continuation d \<and> utf8_valid r
         | _ \<Rightarrow> False)
      else False)"

definition from_utf8_unwrap :: "u8 list \<Rightarrow> str option" where
  "from_utf8_unwrap bs = (if utf8_valid bs then Some bs else None)"

text \<open>\<^verbatim>\<open>usize::from_str_radix(s, 16)\<close>: an optional plus sign and at least one hexadecimal digit.\<close>

definition hex_digit :: "u8 \<Rightarrow> nat option" where
  "hex_digit b =
     (if 0x30 \<le> b \<and> b \<le> 0x39 then Some (unat b - 0x30)
      else if 0x41 \<le> b \<and> b \<le> 0x46 then Some (unat b - 0x41 + 10)
      else if 0x61 \<le> b \<and> b \<le> 0x66 then Some (unat b - 0x61 + 10)
      else None)"

primrec hex_digits :: "nat \<Rightarrow> u8 list \<Rightarrow> nat option" where
  "hex_digits n [] = Some n"
| "hex_digits n (b # bs) = do {
     d \<leftarrow> hex_digit b;
     assert_that (n * 16 + d < 2 ^ 64);
     hex_digits (n * 16 + d) bs
   }"

definition from_str_radix16 :: "str \<Rightarrow> usize option" where
  "from_str_radix16 s =
     (let digits = (case s of b # bs \<Rightarrow> if b = 0x2B then bs else s | [] \<Rightarrow> [])
      in if digits = [] then None else map_option of_nat (hex_digits 0 digits))"

text \<open>\<^verbatim>\<open>splitn(2, c)\<close> and \<^verbatim>\<open>split_once(c)\<close>: the part before the first \<open>c\<close> and, if there is one, the rest.\<close>

fun split_once :: "u8 \<Rightarrow> str \<Rightarrow> str \<times> str option" where
  "split_once c [] = ([], None)"
| "split_once c (b # bs) =
     (if b = c then ([], Some bs) else let (x, y) = split_once c bs in (b # x, y))"

section \<open>Nodes\<close>

datatype PropertyValue =
    Empty
  | PHandleRaw u32
  | PHandle "(str \<times> usize option) list"
  | U32 u32
  | U64 u64
  | PropSpecific "u8 list"
  | StringValue str
  | StringList "str list"

datatype Node = Node
  (node_name: str)
  (unit_address: "usize option")
  (children: "(str \<times> (usize option \<times> Node) list) list")
  (properties: "(str \<times> PropertyValue) list")

text \<open>The byte of \<open>'@'\<close> is \<open>0x40\<close>, that of \<open>'/'\<close> is \<open>0x2F\<close>.\<close>

definition parse_address :: "str \<Rightarrow> usize" where
  "parse_address s = (case from_str_radix16 s of Some n \<Rightarrow> n | None \<Rightarrow> 0)"

definition node_new :: "str \<Rightarrow> Node" where
  "node_new token_name =
     (let (n, rest) = split_once 0x40 token_name
      in Node n (map_option parse_address rest) [] [])"

definition insert_child :: "Node \<Rightarrow> Node \<Rightarrow> Node" where
  "insert_child self other =
     (case self of Node n a ch ps \<Rightarrow>
        Node n a
          (case bt_get (node_name other) ch of
             Some d \<Rightarrow> bt_insert (node_name other) (bt_insert (unit_address other) other d) ch
           | None \<Rightarrow> bt_insert (node_name other) (bt_insert (unit_address other) other []) ch)
          ps)"

definition insert_property :: "str \<Rightarrow> PropertyValue \<Rightarrow> Node \<Rightarrow> Node" where
  "insert_property k v self =
     (case self of Node n a ch ps \<Rightarrow> Node n a ch (bt_insert k v ps))"

text \<open>The child that one path component selects.\<close>

definition child_at :: "str \<Rightarrow> Node \<Rightarrow> Node option" where
  "child_at component self =
     (case split_once 0x40 component of
        (n, Some addr) \<Rightarrow> do {
          d \<leftarrow> bt_get n (children self);
          if addr = [] then (case d of [] \<Rightarrow> None | (_, c) # _ \<Rightarrow> Some c)
          else bt_get (Some (parse_address addr)) d
        }
      | (_, None) \<Rightarrow> do {
          d \<leftarrow> bt_get component (children self);
          bt_get None d
        })"

lemma split_once_shorter: "split_once c s = (x, Some y) \<Longrightarrow> length y < length s"
  by (induction c s arbitrary: x rule: split_once.induct) (auto split: if_splits prod.splits)

function node_get :: "str \<Rightarrow> Node \<Rightarrow> Node option" where
  "node_get path self =
     (case split_once 0x2F path of
        (first_component, rest) \<Rightarrow> do {
          child \<leftarrow> child_at first_component self;
          (case rest of Some r \<Rightarrow> node_get r child | None \<Rightarrow> Some child)
        })"
  by pat_completeness auto
termination
  by (relation "measure (\<lambda>(path, _). length path)") (auto dest!: split_once_shorter [OF sym])

declare node_get.simps [simp del]

definition child_nodes :: "Node \<Rightarrow> Node list" where
  "child_nodes self = map snd (concat (map snd (children self)))"

definition children_names :: "Node \<Rightarrow> str list" where
  "children_names self = map node_name (child_nodes self)"

section \<open>Property values\<close>

text \<open>
  The scan of all bytes but the last: the flags \<^verbatim>\<open>is_string\<close>, \<^verbatim>\<open>is_string_list\<close>; the loop stops at
  the first control byte that is not a separator.
\<close>

fun scan_string :: "u8 list \<Rightarrow> bool \<Rightarrow> bool \<Rightarrow> bool \<times> bool" where
  "scan_string [] is_string_list prev_is_zero = (True, is_string_list)"
| "scan_string (i # is) is_string_list prev_is_zero =
     (if i = 0 \<and> \<not> prev_is_zero then scan_string is True True
      else if i < 0x20 then (False, False)
      else scan_string is is_string_list False)"

text \<open>The pieces that end in a zero byte; \<open>acc\<close> is the piece that is being read.\<close>

fun split_zero :: "u8 list \<Rightarrow> u8 list \<Rightarrow> str list option" where
  "split_zero acc [] = Some []"
| "split_zero acc (b # bs) =
     (if b = 0 then do {
        s \<leftarrow> from_utf8_unwrap acc;
        rest \<leftarrow> split_zero [] bs;
        Some (s # rest)
      }
      else split_zero (acc @ [b]) bs)"

definition be_nat :: "u8 list \<Rightarrow> nat" where
  "be_nat bs = fold (\<lambda>b n. n * 256 + unat b) bs 0"

text \<open>
  The numbers are read through pointers to \<^verbatim>\<open>u64\<close> and \<^verbatim>\<open>u32\<close>. Values of a blob are aligned to four bytes only, so the first of the two
  reads may be misaligned, which the language does not allow; the result here is what the hardware gives.
\<close>

definition guess :: "u8 list \<Rightarrow> str \<Rightarrow> PropertyValue option" where
  "guess value name =
     (if value = [] then Some Empty
      else let (is_string, is_string_list) = scan_string (butlast value) False True
      in if is_string_list then map_option StringList (split_zero [] value)
         else if is_string then map_option StringValue (from_utf8_unwrap (butlast value))
         else if length value = 8 then Some (U64 (of_nat (be_nat value)))
         else if length value = 4 then
           (if name = str_of ''interrupt-parent''
            then Some (PHandleRaw (of_nat (be_nat value)))
            else Some (U32 (of_nat (be_nat value))))
         else Some (PropSpecific value))"

section \<open>The blob\<close>

record fdt =
  fdt_base :: nat
  fdt_blob :: "u8 list"

definition read_bytes :: "fdt \<Rightarrow> nat \<Rightarrow> nat \<Rightarrow> u8 list option" where
  "read_bytes f a n =
     (if fdt_base f \<le> a \<and> a + n \<le> fdt_base f + length (fdt_blob f)
      then Some (take n (drop (a - fdt_base f) (fdt_blob f))) else None)"

text \<open>\<^verbatim>\<open>(*p).swap_bytes()\<close> of a \<^verbatim>\<open>u32\<close> on a little-endian machine: the big-endian value.\<close>

definition read_be32 :: "fdt \<Rightarrow> nat \<Rightarrow> u32 option" where
  "read_be32 f a = map_option (\<lambda>bs. of_nat (be_nat bs)) (read_bytes f a 4)"

text \<open>\<^verbatim>\<open>CStr::from_ptr\<close>: the bytes before the first zero byte; \<^verbatim>\<open>to_str().unwrap()\<close> panics on invalid UTF-8.\<close>

fun until_nul :: "u8 list \<Rightarrow> u8 list option" where
  "until_nul [] = None"
| "until_nul (b # bs) = (if b = 0 then Some [] else map_option ((#) b) (until_nul bs))"

definition read_cstr :: "fdt \<Rightarrow> nat \<Rightarrow> u8 list option" where
  "read_cstr f a =
     (if fdt_base f \<le> a then until_nul (drop (a - fdt_base f) (fdt_blob f)) else None)"

datatype StructureToken = BeginNode | EndNode | Prop | Nop | End | Unknown

definition token_from :: "u32 \<Rightarrow> StructureToken" where
  "token_from n =
     (if n = 1 then BeginNode else if n = 2 then EndNode else if n = 3 then Prop
      else if n = 4 then Nop else if n = 9 then End else Unknown)"

text \<open>The fields of the header: \<^verbatim>\<open>offset_dt_struct\<close> is the third word, \<^verbatim>\<open>offset_dt_strings\<close> the fourth.\<close>

definition offset_dt_struct :: "fdt \<Rightarrow> u32 option" where
  "offset_dt_struct f = read_be32 f (fdt_base f + 8)"

definition offset_dt_strings :: "fdt \<Rightarrow> u32 option" where
  "offset_dt_strings f = read_be32 f (fdt_base f + 12)"

definition get_string :: "fdt \<Rightarrow> nat \<Rightarrow> str option" where
  "get_string f offset = do {
     off \<leftarrow> offset_dt_strings f;
     bs \<leftarrow> read_cstr f (fdt_base f + unat off + offset);
     from_utf8_unwrap bs
   }"

definition align4 :: "nat \<Rightarrow> nat" where
  "align4 a = (a div 4 + (if a mod 4 \<noteq> 0 then 1 else 0)) * 4"

section \<open>Building the tree\<close>

definition end_node :: "Node list \<Rightarrow> Node option \<Rightarrow> Node list \<times> Node option" where
  "end_node node_stack current_node =
     (case current_node of
        None \<Rightarrow> (node_stack, None)
      | Some t \<Rightarrow>
          if node_stack = [] then (node_stack, Some t)
          else (butlast node_stack, Some (insert_child (last node_stack) t)))"

lemma read_be32_bound: "read_be32 f a = Some w \<Longrightarrow> a + 4 \<le> fdt_base f + length (fdt_blob f)"
  by (auto simp: read_be32_def read_bytes_def split: if_splits)

lemma align4_ge: "a \<le> align4 a"
  unfolding align4_def by (cases "a mod 4 = 0") auto

function build_loop :: "fdt \<Rightarrow> nat \<Rightarrow> Node list \<Rightarrow> Node option \<Rightarrow> Node option" where
  "build_loop f token node_stack current_node = do {
     w \<leftarrow> read_be32 f token;
     case token_from w of
       BeginNode \<Rightarrow> do {
         let node_stack = (case current_node of Some t \<Rightarrow> node_stack @ [t] | None \<Rightarrow> node_stack);
         name \<leftarrow> read_cstr f (token + 4);
         let token = align4 (token + (length name + 1) + 1);
         s \<leftarrow> from_utf8_unwrap name;
         build_loop f token node_stack (Some (node_new s))
       }
     | EndNode \<Rightarrow>
         (case end_node node_stack current_node of
            (node_stack, current_node) \<Rightarrow> build_loop f (token + 4) node_stack current_node)
     | Prop \<Rightarrow> do {
         name_offset \<leftarrow> read_be32 f (token + 8);
         name \<leftarrow> get_string f (unat name_offset);
         len \<leftarrow> read_be32 f (token + 4);
         let token = token + 12;
         current_node \<leftarrow>
           (case current_node of
              None \<Rightarrow> Some None
            | Some t \<Rightarrow> do {
                value \<leftarrow> read_bytes f token (unat len);
                v \<leftarrow> guess value name;
                Some (Some (insert_property name v t))
              });
         build_loop f (align4 (token + unat len)) node_stack current_node
       }
     | Nop \<Rightarrow> build_loop f (token + 4) node_stack current_node
     | End \<Rightarrow> current_node
     | Unknown \<Rightarrow> build_loop f (token + 4) node_stack current_node
   }"
  by pat_completeness auto
termination
proof (relation "measure (\<lambda>(f, token, _). fdt_base f + length (fdt_blob f) - token)", goal_cases)
  case (2 f token node_stack current_node w x name)
  then show ?case
    using read_be32_bound [of f token w] align4_ge [of "token + (length name + 1) + 1"] by auto
next
  case (4 f token node_stack current_node w name_offset name len)
  then show ?case
    using read_be32_bound [of f token w] align4_ge [of "token + 12 + unat len"] by auto
qed (auto dest!: read_be32_bound)

declare build_loop.simps [simp del]

definition build :: "fdt \<Rightarrow> nat \<Rightarrow> Node option" where
  "build f token = build_loop f token [] None"

section \<open>Phandles\<close>

text \<open>
  \<^verbatim>\<open>walk\<close> visits a node before its children, in the order of the maps; the visited nodes come with
  their paths. \<^verbatim>\<open>walk_mut\<close> with the closure of \<^verbatim>\<open>link_phandles\<close> changes the properties of every node.
\<close>

fun walk :: "(str \<times> usize option) list \<Rightarrow> Node \<Rightarrow> ((str \<times> usize option) list \<times> Node) list" where
  "walk path (Node n a ch ps) =
     (path, Node n a ch ps) #
     concat (map (\<lambda>(k, d). concat (map (\<lambda>(u, c). walk (path @ [(k, u)]) c) d)) ch)"

fun walk_mut_properties :: "(PropertyValue \<Rightarrow> PropertyValue) \<Rightarrow> Node \<Rightarrow> Node" where
  "walk_mut_properties g (Node n a ch ps) =
     Node n a (map (\<lambda>(k, d). (k, map (\<lambda>(u, c). (u, walk_mut_properties g c)) d)) ch)
       (map (\<lambda>(k, v). (k, g v)) ps)"

definition phandle_map :: "Node \<Rightarrow> (u32, (str \<times> usize option) list) btree_map" where
  "phandle_map root = fold (\<lambda>(path, node) m.
       case bt_get (str_of ''phandle'') (properties node) of
         Some (U32 phandle) \<Rightarrow> bt_insert phandle path m
       | _ \<Rightarrow> m) (walk [] root) []"

definition link_value :: "(u32, (str \<times> usize option) list) btree_map \<Rightarrow> PropertyValue \<Rightarrow> PropertyValue" where
  "link_value phandles v =
     (case v of
        PHandleRaw handle \<Rightarrow>
          (case bt_get handle phandles of Some path \<Rightarrow> PHandle path | None \<Rightarrow> PHandleRaw handle)
      | _ \<Rightarrow> v)"

definition link_phandles :: "Node \<Rightarrow> Node" where
  "link_phandles root = walk_mut_properties (link_value (phandle_map root)) root"

definition fdt_init :: "fdt \<Rightarrow> Node option" where
  "fdt_init f = do {
     offset \<leftarrow> offset_dt_struct f;
     root_tree \<leftarrow> build f (fdt_base f + unat offset);
     Some (link_phandles root_tree)
   }"

end
