(* ===== verification/Device_Tree_Build.thy ===== *)
theory Device_Tree_Build
  imports Device_Tree
begin

text \<open>
  The parser \<^verbatim>\<open>build\<close> against the format of the devicetree specification: a serialiser for trees as
  the specification describes the structure block, and the proof that parsing a serialised tree gives
  the tree back. After a node's name the parser steps back one word too far in three cases out of
  four; the word it then reads ends in a zero byte, is no token, and is skipped.
\<close>

section \<open>The structure block\<close>

datatype dt = DT (dt_name: str) (dt_props: "(u32 \<times> str \<times> u8 list) list") (dt_children: "dt list")

definition be32 :: "u32 \<Rightarrow> u8 list" where
  "be32 w = [ucast (drop_bit 24 w), ucast (drop_bit 16 w), ucast (drop_bit 8 w), ucast w]"

definition padding :: "nat \<Rightarrow> u8 list" where
  "padding n = replicate ((4 - n mod 4) mod 4) 0"

definition encode_name :: "str \<Rightarrow> u8 list" where
  "encode_name nm = nm @ [0] @ padding (length nm + 1)"

definition encode_prop :: "u32 \<times> str \<times> u8 list \<Rightarrow> u8 list" where
  "encode_prop = (\<lambda>(off, nm, v). be32 3 @ be32 (of_nat (length v)) @ be32 off @ v @ padding (length v))"

fun encode :: "dt \<Rightarrow> u8 list" where
  "encode (DT nm ps cs) =
     be32 1 @ encode_name nm @ concat (map encode_prop ps) @ concat (map encode cs) @ be32 2"

text \<open>The node a tree stands for: later properties and children with the same key replace earlier ones.\<close>

definition add_prop :: "u32 \<times> str \<times> u8 list \<Rightarrow> Node \<Rightarrow> Node" where
  "add_prop = (\<lambda>(off, nm, v) n. insert_property nm (the (guess v nm)) n)"

fun node_of :: "dt \<Rightarrow> Node" where
  "node_of (DT nm ps cs) = fold (\<lambda>c n. insert_child n (node_of c)) cs (fold add_prop ps (node_new nm))"

text \<open>
  Names are UTF-8 without a zero byte, the offset of a property's name points to the name in the
  strings block, and the value is one the kernel can read.
\<close>

definition prop_ok :: "fdt \<Rightarrow> u32 \<times> str \<times> u8 list \<Rightarrow> bool" where
  "prop_ok f = (\<lambda>(off, nm, v). get_string f (unat off) = Some nm \<and> length v < 2 ^ 32 \<and> guess v nm \<noteq> None)"

fun dt_ok :: "fdt \<Rightarrow> dt \<Rightarrow> bool" where
  "dt_ok f (DT nm ps cs) \<longleftrightarrow> utf8_valid nm \<and> 0 \<notin> set nm \<and> list_all (prop_ok f) ps \<and> list_all (dt_ok f) cs"

section \<open>Reading what was written\<close>

definition placed :: "fdt \<Rightarrow> nat \<Rightarrow> u8 list \<Rightarrow> bool" where
  "placed f a xs \<longleftrightarrow> read_bytes f a (length xs) = Some xs"

lemma placed_iff:
  "placed f a xs \<longleftrightarrow> (\<exists>rest. fdt_base f \<le> a \<and> a + length xs \<le> fdt_base f + length (fdt_blob f)
     \<and> drop (a - fdt_base f) (fdt_blob f) = xs @ rest)"
proof
  assume "placed f a xs"
  then have b: "fdt_base f \<le> a" "a + length xs \<le> fdt_base f + length (fdt_blob f)"
    and t: "take (length xs) (drop (a - fdt_base f) (fdt_blob f)) = xs"
    by (auto simp: placed_def read_bytes_def split: if_splits)
  from t have "drop (a - fdt_base f) (fdt_blob f) = xs @ drop (length xs) (drop (a - fdt_base f) (fdt_blob f))"
    by (metis append_take_drop_id)
  with b show "\<exists>rest. fdt_base f \<le> a \<and> a + length xs \<le> fdt_base f + length (fdt_blob f)
     \<and> drop (a - fdt_base f) (fdt_blob f) = xs @ rest" by blast
qed (auto simp: placed_def read_bytes_def)

lemma placed_append:
  assumes "placed f a (xs @ ys)" shows "placed f a xs" "placed f (a + length xs) ys"
proof -
  from assms obtain rest where r: "fdt_base f \<le> a" "a + length (xs @ ys) \<le> fdt_base f + length (fdt_blob f)"
    "drop (a - fdt_base f) (fdt_blob f) = (xs @ ys) @ rest"
    by (auto simp: placed_iff)
  then show "placed f a xs" by (auto simp: placed_iff)
  have "drop (a + length xs - fdt_base f) (fdt_blob f) = drop (length xs) (drop (a - fdt_base f) (fdt_blob f))"
    using r(1) by (simp add: add.commute)
  with r show "placed f (a + length xs) ys" by (auto simp: placed_iff)
qed

lemma length_be32 [simp]: "length (be32 w) = 4"
  by (simp add: be32_def)

lemma unat_ucast_u8: "unat (ucast (x :: u32) :: u8) = unat x mod 256"
  by (simp add: unsigned_ucast_eq take_bit_eq_mod)

lemma be_nat_be32: "be_nat (be32 w) = unat w"
proof -
  define n where "n = unat w"
  have n: "n < 2 ^ 32" unfolding n_def using unsigned_less [of w] by simp
  have d: "unat (drop_bit k w) = n div 2 ^ k" for k
    using n unfolding n_def unsigned_drop_bit_eq
    by (simp add: drop_bit_eq_div take_bit_nat_eq_self)
  have top: "n div 16777216 mod 256 = n div 16777216" using n by simp
  have "n div 65536 = n div 256 div 256" "n div 16777216 = n div 65536 div 256"
    by (simp_all add: div_mult2_eq [symmetric])
  then have "((n div 16777216 mod 256 * 256 + n div 65536 mod 256) * 256 + n div 256 mod 256) * 256 + n mod 256 = n"
    using div_mult_mod_eq [of "n div 65536" 256] div_mult_mod_eq [of "n div 256" 256]
      div_mult_mod_eq [of n 256] top by simp
  then show ?thesis
    by (simp add: be_nat_def be32_def unat_ucast_u8 d n_def [symmetric] top)
qed

lemma read_be32_placed [simp]: "placed f a (be32 w) \<Longrightarrow> read_be32 f a = Some w"
  by (simp add: placed_def read_be32_def be_nat_be32)

lemma until_nul_append: "0 \<notin> set nm \<Longrightarrow> until_nul (nm @ 0 # rest) = Some nm"
  by (induction nm) auto

lemma read_cstr_placed: "placed f a (nm @ 0 # xs) \<Longrightarrow> 0 \<notin> set nm \<Longrightarrow> read_cstr f a = Some nm"
  by (auto simp: placed_iff read_cstr_def until_nul_append)

section \<open>The step over a name\<close>

lemma be_nat_append: "be_nat (xs @ [b]) = be_nat xs * 256 + unat b"
  by (simp add: be_nat_def)

lemma be_nat_bound: "be_nat xs < 256 ^ length xs"
proof (induction xs rule: rev_induct)
  case (snoc b xs)
  have "unat b < 256" using unsigned_less [of b] by simp
  with snoc show ?case by (simp add: be_nat_append)
qed (simp add: be_nat_def)

lemma token_from_zero_end:
  assumes "length xs = 3" shows "token_from (of_nat (be_nat (xs @ [0]))) = Unknown"
proof -
  have b: "be_nat xs * 256 < 2 ^ 32" using be_nat_bound [of xs] assms by simp
  then have "unat (of_nat (be_nat xs * 256) :: u32) = be_nat xs * 256"
    by (simp add: unsigned_of_nat take_bit_nat_eq_self del: of_nat_mult)
  moreover have "be_nat xs * 256 \<noteq> k" if "k \<in> {1, 2, 3, 4, 9}" for k
    using that by auto presburger+
  ultimately show ?thesis
    by (auto simp: be_nat_append token_from_def word_unat_eq_iff simp del: of_nat_mult)
qed

lemma length_encode_name: "length (encode_name nm) = 4 * (length nm div 4 + 1)"
proof -
  obtain q r where n: "length nm = 4 * q + r" "r < 4"
    using mult_div_mod_eq [of 4 "length nm"] mod_less_divisor [of 4 "length nm"] by (metis zero_less_numeral)
  from n(2) consider "r = 0" | "r = 1" | "r = 2" | "r = 3" by linarith
  then show ?thesis by cases (simp_all add: encode_name_def padding_def n(1) mod_Suc)
qed

text \<open>
  From the start of a node whose name is \<open>nm\<close>, the parser goes to the end of the encoded name or to
  the word before it, which it skips.
\<close>

lemma skip_name:
  assumes "a mod 4 = 0" "placed f (a + 4) (encode_name nm)"
  shows "build_loop f (align4 (a + (length nm + 1) + 1)) st cur = build_loop f (a + 4 + length (encode_name nm)) st cur"
proof (cases "length nm mod 4 = 3")
  case True
  then have "align4 (a + (length nm + 1) + 1) = a + 4 + length (encode_name nm)"
    using assms(1) unfolding length_encode_name align4_def by presburger
  then show ?thesis by simp
next
  case False
  let ?n = "length nm"
  define q where "q = 4 * (?n div 4)"
  have al: "align4 (a + (?n + 1) + 1) = a + 4 + q"
    using assms(1) False unfolding align4_def q_def by (auto; presburger)
  define tail where "tail = drop q (encode_name nm)"
  have len: "length tail = 4" unfolding tail_def q_def length_drop length_encode_name by simp
  have "encode_name nm = take q (encode_name nm) @ tail" by (simp add: tail_def)
  then have "placed f (a + 4 + length (take q (encode_name nm))) tail"
    using placed_append(2) assms(2) by metis
  moreover have "length (take q (encode_name nm)) = q"
    unfolding length_take length_encode_name q_def by simp
  ultimately have rd: "read_bytes f (a + 4 + q) 4 = Some tail" using len by (simp add: placed_def)
  have "last tail = last (encode_name nm)"
    using len by (simp add: tail_def last_drop)
  moreover have "last (encode_name nm) = 0" using False
    by (auto simp: encode_name_def padding_def last_append)
  ultimately obtain xs where xs: "tail = xs @ [0]" "length xs = 3"
    using len by (cases tail rule: rev_cases) auto
  have "read_be32 f (a + 4 + q) = Some (of_nat (be_nat (xs @ [0])))"
    using rd xs(1) by (simp add: read_be32_def)
  with token_from_zero_end [OF xs(2)] have "build_loop f (a + 4 + q) st cur = build_loop f (a + 4 + q + 4) st cur"
    by (subst build_loop.simps) simp
  moreover have "a + 4 + q + 4 = a + 4 + length (encode_name nm)"
    unfolding length_encode_name q_def by simp
  ultimately show ?thesis using al by simp
qed

section \<open>Parsing the parts of a node\<close>

lemma length_prop:
  "length (encode_prop (off, nm, v)) = 12 + length v + (4 - length v mod 4) mod 4"
  by (simp add: encode_prop_def padding_def)

lemma align4_prop: "a mod 4 = 0 \<Longrightarrow> align4 (a + 12 + n) = a + 12 + n + (4 - n mod 4) mod 4"
proof -
  assume "a mod 4 = 0"
  then obtain k where a: "a = 4 * k" by auto
  obtain q r where n: "n = 4 * q + r" "r < 4"
    using mult_div_mod_eq [of 4 n] mod_less_divisor [of 4 n] by (metis zero_less_numeral)
  from n(2) consider "r = 0" | "r = 1" | "r = 2" | "r = 3" by linarith
  then show ?thesis by cases (simp add: a n(1) align4_def mod_Suc; presburger)+
qed

lemma prop_length_aligned: "length (encode_prop p) mod 4 = 0"
proof (cases p)
  case (fields off nm v)
  obtain q r where n: "length v = 4 * q + r" "r < 4"
    using mult_div_mod_eq [of 4 "length v"] mod_less_divisor [of 4 "length v"] by (metis zero_less_numeral)
  from n(2) consider "r = 0" | "r = 1" | "r = 2" | "r = 3" by linarith
  then show ?thesis by cases (simp_all add: fields length_prop n(1) mod_Suc)
qed

lemma build_prop:
  assumes "placed f a (encode_prop p)" "a mod 4 = 0" "prop_ok f p"
  shows "build_loop f a st (Some t) = build_loop f (a + length (encode_prop p)) st (Some (add_prop p t))"
proof (cases p)
  case (fields off nm v)
  have ok: "get_string f (unat off) = Some nm" "length v < 2 ^ 32" "guess v nm \<noteq> None"
    using assms(3) fields by (simp_all add: prop_ok_def)
  from assms(1) fields have pl: "placed f a (be32 3 @ be32 (of_nat (length v)) @ be32 off @ v @ padding (length v))"
    by (simp add: encode_prop_def)
  note p1 = placed_append [OF pl]
  note p2 = placed_append [OF p1(2)]
  note p3 = placed_append [OF p2(2)]
  note p4 = placed_append [OF p3(2)]
  have rd: "read_be32 f a = Some 3" "read_be32 f (a + 4) = Some (of_nat (length v))"
    "read_be32 f (a + 8) = Some off"
    using p1(1) p2(1) p3(1) by (simp_all add: add.assoc)
  have len: "unat (of_nat (length v) :: u32) = length v"
    using ok(2) by (simp add: unsigned_of_nat take_bit_nat_eq_self)
  have val: "read_bytes f (a + 12) (length v) = Some v"
    using p4(1) by (simp add: placed_def add.assoc)
  have end': "a + length (encode_prop p) = align4 (a + 12 + length v)"
    using align4_prop [OF assms(2)] by (simp add: fields length_prop)
  from ok(3) obtain x where x: "guess v nm = Some x" by auto
  show ?thesis
    unfolding end'
    by (subst build_loop.simps)
      (simp add: rd ok(1) len val x token_from_def fields add_prop_def)
qed

lemma build_props:
  "placed f a (concat (map encode_prop ps)) \<Longrightarrow> a mod 4 = 0 \<Longrightarrow> list_all (prop_ok f) ps \<Longrightarrow>
   build_loop f a st (Some t)
     = build_loop f (a + length (concat (map encode_prop ps))) st (Some (fold add_prop ps t))"
proof (induction ps arbitrary: a t)
  case (Cons p ps)
  have pl: "placed f a (encode_prop p @ concat (map encode_prop ps))" using Cons.prems(1) by simp
  have "(a + length (encode_prop p)) mod 4 = 0"
    using Cons.prems(2) prop_length_aligned [of p] by presburger
  from Cons.IH [OF placed_append(2) [OF pl] this] Cons.prems(3)
    build_prop [OF placed_append(1) [OF pl] Cons.prems(2), of st t]
  show ?case by (simp add: add.assoc)
qed simp

lemma sum_list_aligned: "\<forall>x\<in>set xs. x mod 4 = (0 :: nat) \<Longrightarrow> sum_list xs mod 4 = 0"
  by (induction xs) (auto simp: mod_eq_0_iff_dvd)

lemma length_concat_aligned:
  "(\<And>x. x \<in> set xs \<Longrightarrow> length (g x) mod 4 = 0) \<Longrightarrow> length (concat (map g xs)) mod 4 = 0"
  unfolding length_concat by (rule sum_list_aligned) auto

lemma encode_aligned: "length (encode t) mod 4 = 0"
proof (induction t)
  case (DT nm ps cs)
  have "length (concat (map encode cs)) mod 4 = 0"
    by (rule length_concat_aligned) (rule DT.IH)
  moreover have "length (concat (map encode_prop ps)) mod 4 = 0"
    by (rule length_concat_aligned) (rule prop_length_aligned)
  moreover have "length (encode_name nm) mod 4 = 0"
    by (simp only: length_encode_name) simp
  ultimately show ?case
    by (simp only: encode.simps length_append length_be32) presburger
qed

section \<open>Parsing a node\<close>

definition attach :: "Node option \<Rightarrow> Node \<Rightarrow> Node" where
  "attach cur n = (case cur of None \<Rightarrow> n | Some p \<Rightarrow> insert_child p n)"

lemma build_children:
  assumes "\<And>c a st t. c \<in> set cs \<Longrightarrow> placed f a (encode c) \<Longrightarrow> a mod 4 = 0 \<Longrightarrow> dt_ok f c \<Longrightarrow>
      build_loop f a st (Some t) = build_loop f (a + length (encode c)) st (Some (insert_child t (node_of c)))"
    and "placed f a (concat (map encode cs))" "a mod 4 = 0" "list_all (dt_ok f) cs"
  shows "build_loop f a st (Some t) = build_loop f (a + length (concat (map encode cs))) st
    (Some (fold (\<lambda>c n. insert_child n (node_of c)) cs t))"
  using assms
proof (induction cs arbitrary: a t)
  case (Cons c cs)
  have pl: "placed f a (encode c @ concat (map encode cs))" using Cons.prems(2) by simp
  have al: "(a + length (encode c)) mod 4 = 0"
    using Cons.prems(3) encode_aligned [of c] by presburger
  have "build_loop f a st (Some t) = build_loop f (a + length (encode c)) st (Some (insert_child t (node_of c)))"
    using Cons.prems placed_append(1) [OF pl] by simp
  also have "\<dots> = build_loop f (a + length (encode c) + length (concat (map encode cs))) st
      (Some (fold (\<lambda>c n. insert_child n (node_of c)) cs (insert_child t (node_of c))))"
    by (rule Cons.IH) (use Cons.prems placed_append(2) [OF pl] al in auto)
  finally show ?case by (simp add: add.assoc)
qed simp

lemma build_node:
  assumes "placed f a (encode t)" "a mod 4 = 0" "dt_ok f t" "cur = None \<longrightarrow> st = []"
  shows "build_loop f a st cur = build_loop f (a + length (encode t)) st (Some (attach cur (node_of t)))"
  using assms
proof (induction t arbitrary: a st cur)
  case (DT nm ps cs)
  let ?pe = "concat (map encode_prop ps)" and ?ce = "concat (map encode cs)"
  let ?a1 = "a + 4 + length (encode_name nm)"
  let ?a2 = "?a1 + length ?pe" let ?a3 = "?a2 + length ?ce"
  define stk where "stk = (case cur of Some t \<Rightarrow> st @ [t] | None \<Rightarrow> st)"
  from DT.prems(3) have ok: "utf8_valid nm" "0 \<notin> set nm" "list_all (prop_ok f) ps" "list_all (dt_ok f) cs"
    by simp_all
  from DT.prems(1) have pl: "placed f a (be32 1 @ encode_name nm @ ?pe @ ?ce @ be32 2)" by simp
  note p1 = placed_append [OF pl, simplified]
  note p2 = placed_append [OF p1(2)]
  note p3 = placed_append [OF p2(2)]
  note p4 = placed_append [OF p3(2)]
  have al: "?a1 mod 4 = 0" "?a2 mod 4 = 0"
    using DT.prems(2) length_concat_aligned [of ps encode_prop, OF prop_length_aligned]
    unfolding length_encode_name by presburger+
  have cstr: "read_cstr f (a + 4) = Some nm"
    using p2(1) ok(2) by (intro read_cstr_placed) (auto simp: encode_name_def)
  have "build_loop f a st cur = build_loop f (align4 (a + (length nm + 1) + 1)) stk (Some (node_new nm))"
    using p1(1) cstr ok(1)
    by (subst build_loop.simps) (simp add: token_from_def from_utf8_unwrap_def stk_def)
  also have "\<dots> = build_loop f ?a1 stk (Some (node_new nm))"
    by (rule skip_name [OF DT.prems(2) p2(1)])
  also have "\<dots> = build_loop f ?a2 stk (Some (fold add_prop ps (node_new nm)))"
    by (rule build_props [OF p3(1) al(1) ok(3)])
  also have "\<dots> = build_loop f ?a3 stk (Some (node_of (DT nm ps cs)))"
    unfolding node_of.simps
  proof (rule build_children [OF _ p4(1) al(2) ok(4)])
    fix c b st t
    assume "c \<in> set cs" "placed f b (encode c)" "b mod 4 = 0" "dt_ok f c"
    from DT.IH [OF this, of "Some t" st]
    show "build_loop f b st (Some t) = build_loop f (b + length (encode c)) st (Some (insert_child t (node_of c)))"
      by (simp add: attach_def)
  qed
  also have "\<dots> = build_loop f (?a3 + 4) st (Some (attach cur (node_of (DT nm ps cs))))"
  proof -
    have e: "end_node stk (Some n) = (st, Some (attach cur n))" for n
      using DT.prems(4) by (cases cur) (simp_all add: stk_def end_node_def attach_def)
    have "read_be32 f ?a3 = Some 2" using p4(2) by simp
    then show ?thesis
      by (subst build_loop.simps) (simp add: token_from_def e)
  qed
  finally show ?case by (simp add: add.assoc)
qed

lemma build_encoded:
  assumes "placed f a (encode t @ be32 9)" "a mod 4 = 0" "dt_ok f t"
  shows "build f a = Some (node_of t)"
proof -
  note pl = placed_append [OF assms(1)]
  have "build_loop f a [] None = build_loop f (a + length (encode t)) [] (Some (node_of t))"
    using build_node [OF pl(1) assms(2,3), of None "[]"] by (simp add: attach_def)
  also have "\<dots> = Some (node_of t)"
    using pl(2) by (subst build_loop.simps) (simp add: token_from_def)
  finally show ?thesis by (simp add: build_def)
qed

end
