(* ===== verification/Device_Tree_Properties.thy ===== *)
theory Device_Tree_Properties
  imports Device_Tree_Build
begin

text \<open>
  The properties of the device tree: parsing a serialised tree, looking a child up by the name it is
  printed with, the classification of property values, and the linking of phandles.
\<close>

section \<open>Printing the name of a child\<close>

text \<open>\<^verbatim>\<open>format!("{:x}", n)\<close>.\<close>

definition hex_char :: "nat \<Rightarrow> u8" where
  "hex_char d = (if d < 10 then 0x30 + of_nat d else 0x61 + of_nat (d - 10))"

fun to_hex :: "nat \<Rightarrow> str" where
  "to_hex n = (if n < 16 then [hex_char n] else to_hex (n div 16) @ [hex_char (n mod 16)])"

declare to_hex.simps [simp del]

definition name_address :: "Node \<Rightarrow> str" where
  "name_address node =
     (case unit_address node of
        Some addr \<Rightarrow> node_name node @ 0x40 # to_hex (unat addr)
      | None \<Rightarrow> node_name node)"

definition children_names_address :: "Node \<Rightarrow> str list" where
  "children_names_address self = map name_address (child_nodes self)"

section \<open>Parsing\<close>

text \<open>
  Parsing the structure block of any tree, serialised as the devicetree specification says, at a
  word-aligned address, returns and gives exactly that tree: the names with their unit addresses, the
  properties by name and the children by name and address.
\<close>

theorem fdt_roundtrip:
  assumes "offset_dt_struct f = Some off" and "a = fdt_base f + unat off" and "a mod 4 = 0"
    and "placed f a (encode t @ be32 9)" and "dt_ok f t"
  shows "build f a = Some (node_of t) \<and> fdt_init f = Some (link_phandles (node_of t))"
  using build_encoded [OF assms(4,3,5)] assms(1,2) by (simp add: fdt_init_def)

definition demo_dt :: dt where
  "demo_dt = DT [] [(0, str_of ''model'', str_of ''virt'' @ [0])]
     [DT (str_of ''uart@10'') [] [], DT (str_of ''cpu'') [(6, str_of ''id'', [0, 0, 0, 7])] []]"

definition demo_fdt :: fdt where
  "demo_fdt = \<lparr>fdt_base = 64,
     fdt_blob = be32 0xd00dfeed @ be32 0 @ be32 40
       @ be32 (of_nat (40 + length (encode demo_dt) + 4)) @ concat (replicate 6 (be32 0))
       @ encode demo_dt @ be32 9 @ str_of ''model'' @ [0] @ str_of ''id'' @ [0]\<rparr>"

lemma demo_fdt_encodes:
  shows "offset_dt_struct demo_fdt = Some 40" and "fdt_base demo_fdt + unat (40 :: u32) = 104"
    and "placed demo_fdt 104 (encode demo_dt @ be32 9)" and "dt_ok demo_fdt demo_dt"
proof -
  show "offset_dt_struct demo_fdt = Some 40" "placed demo_fdt 104 (encode demo_dt @ be32 9)" by code_simp+
  show "fdt_base demo_fdt + unat (40 :: u32) = 104" by (simp add: demo_fdt_def)
  have "get_string demo_fdt 0 = Some (str_of ''model'')" by code_simp
  moreover have "get_string demo_fdt 6 = Some (str_of ''id'')" by code_simp
  moreover have "guess (str_of ''virt'' @ [0]) (str_of ''model'') \<noteq> None" by code_simp
  moreover have "guess [0, 0, 0, 7] (str_of ''id'') \<noteq> None" by code_simp
  moreover have "utf8_valid (str_of ''uart@10'') \<and> 0 \<notin> set (str_of ''uart@10'')" by code_simp
  moreover have "utf8_valid (str_of ''cpu'') \<and> 0 \<notin> set (str_of ''cpu'')" by code_simp
  ultimately show "dt_ok demo_fdt demo_dt" by (simp add: demo_dt_def prop_ok_def str_of_def)
qed

theorem fdt_roundtrip_witness: "build demo_fdt 104 = Some (node_of demo_dt)"
  using fdt_roundtrip [OF demo_fdt_encodes(1) refl _ _ demo_fdt_encodes(4)] demo_fdt_encodes(2,3) by simp

section \<open>Looking a child up\<close>

lemma hex_char_digit: "d < 16 \<Longrightarrow> hex_digit (hex_char d) = Some d"
proof -
  assume "d < 16"
  then have "d \<in> set [0..<16]" by simp
  moreover have "list_all (\<lambda>d. hex_digit (hex_char d) = Some d) [0..<16]" by code_simp
  ultimately show ?thesis by (simp add: list_all_iff)
qed

lemma hex_digits_append: "hex_digits n (xs @ ys) = Option.bind (hex_digits n xs) (\<lambda>m. hex_digits m ys)"
  by (induction xs arbitrary: n) (simp_all add: Option.bind_assoc)

lemma hex_digits_to_hex: "n < 2 ^ 64 \<Longrightarrow> hex_digits 0 (to_hex n) = Some n"
proof (induction n rule: to_hex.induct)
  case (1 n)
  show ?case
  proof (cases "n < 16")
    case True
    then show ?thesis by (simp add: to_hex.simps [of n] hex_char_digit assert_that_def)
  next
    case False
    moreover have "n div 16 * 16 + n mod 16 = n" by simp
    moreover from this have "hex_digits (n div 16) [hex_char (n mod 16)] = Some n"
      using "1.prems" by (simp add: hex_char_digit assert_that_def)
    ultimately show ?thesis
      using 1 by (simp add: to_hex.simps [of n] hex_digits_append del: hex_digits.simps)
  qed
qed

lemma to_hex_digit: "b \<in> set (to_hex n) \<Longrightarrow> hex_digit b \<noteq> None"
proof (induction n rule: to_hex.induct)
  case (1 n)
  then show ?case
    using hex_char_digit [of n] hex_char_digit [of "n mod 16"] by (cases "n < 16") (auto simp: to_hex.simps [of n])
qed

lemma to_hex_absent: "hex_digit b = None \<Longrightarrow> b \<notin> set (to_hex n)"
  using to_hex_digit by blast

lemma to_hex_nonempty: "to_hex n \<noteq> []"
  by (simp add: to_hex.simps [of n])

lemma to_hex_plain: "to_hex n \<noteq> [] \<and> 0x2B \<notin> set (to_hex n) \<and> 0x2F \<notin> set (to_hex n) \<and> 0x40 \<notin> set (to_hex n)"
  by (intro conjI to_hex_nonempty to_hex_absent) (simp_all add: hex_digit_def)

lemma parse_to_hex: "parse_address (to_hex (unat a)) = a"
proof -
  have n: "unat a < 2 ^ 64" using unat_usize_less [of a] by simp
  obtain b bs where b: "to_hex (unat a) = b # bs" "b \<noteq> 0x2B"
    using to_hex_plain [of "unat a"] by (cases "to_hex (unat a)") auto
  have "from_str_radix16 (b # bs) = map_option of_nat (hex_digits 0 (b # bs))"
    using b(2) by (simp add: from_str_radix16_def del: hex_digits.simps)
  then show ?thesis
    using hex_digits_to_hex [OF n] unfolding b(1) by (simp add: parse_address_def del: hex_digits.simps)
qed

lemma split_once_absent: "c \<notin> set s \<Longrightarrow> split_once c s = (s, None)"
  by (induction c s rule: split_once.induct) auto

lemma split_once_at: "c \<notin> set x \<Longrightarrow> split_once c (x @ c # y) = (x, Some y)"
  by (induction x) auto

definition child_lookup :: "str \<Rightarrow> usize option \<Rightarrow> Node \<Rightarrow> Node option" where
  "child_lookup n u node = Option.bind (bt_get n (children node)) (bt_get u)"

lemma child_lookup_insert:
  "child_lookup n u (insert_child p c) =
     (if n = node_name c \<and> u = unit_address c then Some c else child_lookup n u p)"
proof (cases p)
  case (Node pn pa ch ps)
  show ?thesis
  proof (cases "bt_get (node_name c) ch")
    case None
    then show ?thesis
      by (cases "n = node_name c") (auto simp: Node child_lookup_def insert_child_def)
  next
    case (Some d)
    then show ?thesis
      by (cases "n = node_name c"; cases "u = unit_address c")
        (auto simp: Node child_lookup_def insert_child_def)
  qed
qed

lemma node_get_name_address:
  assumes "0x40 \<notin> set (node_name c)" "0x2F \<notin> set (node_name c)"
  shows "node_get (name_address c) p = child_lookup (node_name c) (unit_address c) p"
proof (cases "unit_address c")
  case None
  with assms have "split_once 0x2F (name_address c) = (name_address c, None)"
    by (simp add: name_address_def split_once_absent)
  with None assms show ?thesis
    by (subst node_get.simps)
      (simp add: child_at_def name_address_def split_once_absent child_lookup_def Option.bind_assoc)
next
  case (Some a)
  have "0x2F \<notin> set (name_address c)"
    using assms(2) to_hex_plain [of "unat a"] Some by (simp add: name_address_def)
  with Some assms to_hex_plain [of "unat a"] show ?thesis
    by (subst node_get.simps)
      (simp add: child_at_def name_address_def split_once_absent split_once_at child_lookup_def
        parse_to_hex Option.bind_assoc)
qed

text \<open>
  After a child has been inserted, looking up the name it is printed with (its name, and its unit
  address in hexadecimal when it has one) finds that child; the lookup of every other child's printed
  name is unchanged.
\<close>

theorem fdt_get_after_insert:
  assumes "0x40 \<notin> set (node_name c)" and "0x2F \<notin> set (node_name c)"
    and "0x40 \<notin> set (node_name d)" and "0x2F \<notin> set (node_name d)"
    and "(node_name d, unit_address d) \<noteq> (node_name c, unit_address c)"
  shows "node_get (name_address c) (insert_child p c) = Some c
    \<and> node_get (name_address d) (insert_child p c) = node_get (name_address d) p"
  using assms(5)
  by (auto simp: node_get_name_address [OF assms(1,2)] node_get_name_address [OF assms(3,4)]
      child_lookup_insert)

theorem fdt_get_after_insert_witness:
  "node_get (str_of ''uart@1f'') (insert_child (node_new []) (Node (str_of ''uart'') (Some 0x1f) [] []))
     = Some (Node (str_of ''uart'') (Some 0x1f) [] [])"
proof -
  have "name_address (Node (str_of ''uart'') (Some 0x1f) [] []) = str_of ''uart@1f''"
    by (simp add: name_address_def str_of_def to_hex.simps hex_char_def)
  moreover have "0x40 \<notin> set (str_of ''uart'') \<and> 0x2F \<notin> set (str_of ''uart'')" by code_simp
  moreover have "0x40 \<notin> set (str_of ''cpu'') \<and> 0x2F \<notin> set (str_of ''cpu'') \<and> str_of ''cpu'' \<noteq> str_of ''uart''"
    by code_simp
  ultimately show ?thesis
    using fdt_get_after_insert [of "Node (str_of ''uart'') (Some 0x1f) [] []" "Node (str_of ''cpu'') None [] []"
        "node_new []"] by simp
qed

section \<open>Classification of property values\<close>

lemma scan_string_text: "list_all (\<lambda>b. 0x20 \<le> b) s \<Longrightarrow> scan_string s l z = (True, l)"
  by (induction s arbitrary: l z) (auto simp: not_less [symmetric])

text \<open>
  A text property (UTF-8 without control bytes, and a terminating zero byte) is read back as that
  string. A one-cell property is read as the number, or as an unresolved phandle for
  \<^verbatim>\<open>interrupt-parent\<close>, when the number is below \<open>0x20000000\<close>; the cell \<open>0xffffffff\<close> is taken for a
  string that is not UTF-8 and panics, and the cell \<open>0x41424300\<close> is taken for a string.
\<close>

theorem guess_classifies:
  assumes "s \<noteq> []" and "utf8_valid s" and "list_all (\<lambda>b. 0x20 \<le> b) s" and "unat w < 0x20000000"
  shows "guess (s @ [0]) name = Some (StringValue s)
    \<and> guess (be32 w) name = Some (if name = str_of ''interrupt-parent'' then PHandleRaw w else U32 w)
    \<and> guess (be32 0xffffffff) name = None
    \<and> guess (be32 0x41424300) name = Some (StringValue (str_of ''ABC''))"
proof (intro conjI)
  show "guess (s @ [0]) name = Some (StringValue s)"
    using assms by (simp add: guess_def scan_string_text from_utf8_unwrap_def)
  have "unat (ucast (drop_bit 24 w) :: u8) = unat w div 2 ^ 24 mod 256"
    unfolding unat_ucast_u8 unsigned_drop_bit_eq using assms(4)
    by (simp add: drop_bit_eq_div take_bit_nat_eq_self)
  also have "\<dots> < 32" using assms(4) by simp
  finally have "(ucast (drop_bit 24 w) :: u8) < 0x20" by (simp add: word_less_nat_alt)
  then have "scan_string (butlast (be32 w)) False True = (False, False)" by (simp add: be32_def)
  moreover have "of_nat (be_nat (be32 w)) = w" by (simp add: be_nat_be32)
  moreover have "be32 w \<noteq> []" by (simp add: be32_def)
  ultimately show "guess (be32 w) name = Some (if name = str_of ''interrupt-parent'' then PHandleRaw w else U32 w)"
    by (simp add: guess_def)
  have ff: "be32 0xffffffff = [0xff, 0xff, 0xff, 0xff]" by code_simp
  show "guess (be32 0xffffffff) name = None"
    unfolding ff by (simp add: guess_def from_utf8_unwrap_def)
  have abc: "be32 0x41424300 = [0x41, 0x42, 0x43, 0]" by code_simp
  have "str_of ''ABC'' = [0x41, 0x42, 0x43]" by code_simp
  then show "guess (be32 0x41424300) name = Some (StringValue (str_of ''ABC''))"
    unfolding abc by (simp add: guess_def from_utf8_unwrap_def)
qed

theorem guess_classifies_witness:
  "guess (str_of ''virt'' @ [0]) [] = Some (StringValue (str_of ''virt'')) \<and> guess (be32 7) [] = Some (U32 7)"
proof -
  have "str_of ''virt'' \<noteq> [] \<and> utf8_valid (str_of ''virt'') \<and> list_all (\<lambda>b. 0x20 \<le> b) (str_of ''virt'')"
    by code_simp
  moreover have "[] \<noteq> str_of ''interrupt-parent''" by (simp add: str_of_def)
  ultimately show ?thesis using guess_classifies [of "str_of ''virt''" 7 "[]"] by simp
qed

section \<open>Phandles\<close>

abbreviation phandle_of :: "Node \<Rightarrow> u32 \<Rightarrow> bool" where
  "phandle_of node h \<equiv> bt_get (str_of ''phandle'') (properties node) = Some (U32 h)"

lemma walk_walk_mut:
  "walk path (walk_mut_properties g n) = map (\<lambda>(p, m). (p, walk_mut_properties g m)) (walk path n)"
proof (induction path n rule: walk.induct)
  case (1 path n a ch ps)
  have "concat (map (\<lambda>(u, c). walk (path @ [(k, u)]) c) (map (\<lambda>(u, c). (u, walk_mut_properties g c)) d))
      = map (\<lambda>(p, m). (p, walk_mut_properties g m)) (concat (map (\<lambda>(u, c). walk (path @ [(k, u)]) c) d))"
    if "(k, d) \<in> set ch" for k d
    using 1 [OF that refl] unfolding map_concat map_map
    by (intro arg_cong [of _ _ concat] map_cong) auto
  then show ?case
    by (auto simp: map_concat intro!: arg_cong [of _ _ concat])
qed

lemma bt_get_map_snd: "bt_get k (map (\<lambda>(k, v). (k, g v)) m) = map_option g (bt_get k m)"
  by (induction k m rule: bt_get.induct) auto

lemma properties_walk_mut:
  "properties (walk_mut_properties g n) = map (\<lambda>(k, v). (k, g v)) (properties n)"
  by (cases n) simp

definition add_phandle :: "(str \<times> usize option) list \<times> Node \<Rightarrow> (u32, (str \<times> usize option) list) btree_map
    \<Rightarrow> (u32, (str \<times> usize option) list) btree_map" where
  "add_phandle = (\<lambda>(path, node) m.
     case bt_get (str_of ''phandle'') (properties node) of
       Some (U32 phandle) \<Rightarrow> bt_insert phandle path m
     | _ \<Rightarrow> m)"

lemma add_phandle_cases:
  "add_phandle (p, node) m = (if \<exists>h. phandle_of node h then bt_insert (THE h. phandle_of node h) p m else m)"
  by (auto simp: add_phandle_def split: option.splits PropertyValue.splits)

lemma phandle_map_sound:
  "bt_get h (fold add_phandle ns m) = Some p \<Longrightarrow>
   bt_get h m = Some p \<or> (\<exists>node. (p, node) \<in> set ns \<and> phandle_of node h)"
proof (induction ns arbitrary: m)
  case (Cons x ns)
  obtain q node where x: "x = (q, node)" by (cases x)
  show ?case
  proof (cases "\<exists>h'. phandle_of node h'")
    case True
    then obtain h' where h': "phandle_of node h'" by blast
    from Cons.IH [of "bt_insert h' q m"] Cons.prems h' x show ?thesis
      by (cases "h = h'") (auto simp: add_phandle_def)
  next
    case False
    with Cons x show ?thesis by (auto simp: add_phandle_cases)
  qed
qed simp

lemma phandle_map_keeps: "bt_get h m \<noteq> None \<Longrightarrow> bt_get h (fold add_phandle ns m) \<noteq> None"
proof (induction ns arbitrary: m)
  case (Cons x ns)
  have "bt_get h (add_phandle x m) \<noteq> None"
    using Cons.prems unfolding bt_get_in_keys
    by (cases x) (auto simp: add_phandle_cases keys_bt_insert)
  from Cons.IH [OF this] show ?case by simp
qed simp

lemma phandle_map_complete:
  "(p, node) \<in> set ns \<Longrightarrow> phandle_of node h \<Longrightarrow> bt_get h (fold add_phandle ns m) \<noteq> None"
proof (induction ns arbitrary: m)
  case (Cons x ns)
  show ?case
  proof (cases "x = (p, node)")
    case True
    then have "bt_get h (add_phandle x m) \<noteq> None" using Cons.prems(2) by (simp add: add_phandle_def)
    from phandle_map_keeps [OF this] show ?thesis by simp
  next
    case False
    with Cons show ?thesis by simp
  qed
qed simp

lemma phandle_map_fold: "phandle_map root = fold add_phandle (walk [] root) []"
  unfolding phandle_map_def add_phandle_def ..

text \<open>
  Linking replaces every unresolved phandle for which some node of the tree has that number as its
  \<^verbatim>\<open>phandle\<close> property by a reference to such a node; the nodes of the tree stay where they are.
\<close>

theorem link_phandles_resolves:
  assumes "(path, node) \<in> set (walk [] root)" and "bt_get k (properties node) = Some (PHandleRaw h)"
    and "(path', target) \<in> set (walk [] root)" and "phandle_of target h"
  shows "map fst (walk [] (link_phandles root)) = map fst (walk [] root)
    \<and> (\<exists>node' p t. (path, node') \<in> set (walk [] (link_phandles root))
        \<and> bt_get k (properties node') = Some (PHandle p)
        \<and> (p, t) \<in> set (walk [] root) \<and> phandle_of t h)"
proof -
  let ?g = "link_value (phandle_map root)"
  from phandle_map_complete [OF assms(3,4)] obtain p where p: "bt_get h (phandle_map root) = Some p"
    by (auto simp: phandle_map_fold)
  from phandle_map_sound [OF p [unfolded phandle_map_fold]] obtain t where
    t: "(p, t) \<in> set (walk [] root)" "phandle_of t h" by auto
  have "(path, walk_mut_properties ?g node) \<in> set (walk [] (link_phandles root))"
    using assms(1) by (force simp: link_phandles_def walk_walk_mut)
  moreover have "bt_get k (properties (walk_mut_properties ?g node)) = Some (PHandle p)"
    using assms(2) p by (simp add: properties_walk_mut bt_get_map_snd link_value_def)
  moreover have "map fst (walk [] (link_phandles root)) = map fst (walk [] root)"
    by (simp add: link_phandles_def walk_walk_mut comp_def case_prod_beta)
  ultimately show ?thesis using t by blast
qed

definition demo_root :: Node where
  "demo_root = Node [] None
     [(str_of ''plic'', [(None, Node (str_of ''plic'') None [] [(str_of ''phandle'', U32 3)])])]
     [(str_of ''interrupt-parent'', PHandleRaw 3)]"

theorem link_phandles_resolves_witness:
  "\<exists>node' p t. ([], node') \<in> set (walk [] (link_phandles demo_root))
     \<and> bt_get (str_of ''interrupt-parent'') (properties node') = Some (PHandle p)
     \<and> (p, t) \<in> set (walk [] demo_root) \<and> phandle_of t 3"
proof -
  let ?plic = "Node (str_of ''plic'') None [] [(str_of ''phandle'', U32 3)]"
  have "([], demo_root) \<in> set (walk [] demo_root)"
    "([(str_of ''plic'', None)], ?plic) \<in> set (walk [] demo_root)"
    by (simp_all add: demo_root_def)
  moreover have "bt_get (str_of ''interrupt-parent'') (properties demo_root) = Some (PHandleRaw 3)"
    by (simp add: demo_root_def)
  moreover have "phandle_of ?plic 3" by simp
  ultimately show ?thesis using link_phandles_resolves by blast
qed

end
