(* ===== verification/Console.thy ===== *)
theory Console
  imports Boot_Kernel Hart_Tables Device_Tree_Properties "HOL-Library.Sublist"
begin

text \<open>
  The serial output: the \<^verbatim>\<open>Uart\<close> writers of the bootloader, the kernel and the two debug modules, the
  printing macros, what the panic handlers print, and the text of page-table entries and of the device
  tree. The hardware is a translation of virtual addresses (\<^const>\<open>None\<close> is a page fault) and the list of
  the byte stores that reached a physical address, oldest first. The arguments of a macro are given as
  the pieces of text that \<^verbatim>\<open>write_fmt\<close> passes to \<^verbatim>\<open>write_str\<close>.
\<close>

section \<open>The serial port\<close>

type_synonym mmu = "usize \<rightharpoonup> usize"

type_synonym bus = "(usize \<times> u8) list"

record Uart =
  uart_address :: usize

definition store_byte :: "mmu \<Rightarrow> usize \<Rightarrow> u8 \<Rightarrow> bus \<Rightarrow> bus option" where
  "store_byte mmu va b bus = do { pa \<leftarrow> mmu va; Some (bus @ [(pa, b)]) }"

definition write_str :: "mmu \<Rightarrow> Uart \<Rightarrow> str \<Rightarrow> bus \<Rightarrow> bus option" where
  "write_str mmu self s = foldM (store_byte mmu (uart_address self)) s"

definition write_fmt :: "mmu \<Rightarrow> Uart \<Rightarrow> str list \<Rightarrow> bus \<Rightarrow> bus option" where
  "write_fmt mmu self pieces = foldM (write_str mmu self) pieces"

definition CRLF :: str where
  "CRLF = [0x0D, 0x0A]"

text \<open>\<^verbatim>\<open>kernel_bootloader\<close>, \<^verbatim>\<open>kernel_util::debug\<close> and \<^verbatim>\<open>kernel_paging::debug\<close>: the physical address.\<close>

definition bootloader_get_uart :: Uart where
  "bootloader_get_uart = \<lparr>uart_address = 0x10000000\<rparr>"

definition bootloader_print :: "mmu \<Rightarrow> str list \<Rightarrow> bus \<Rightarrow> bus option" where
  "bootloader_print mmu args = write_fmt mmu bootloader_get_uart args"

definition bootloader_println :: "mmu \<Rightarrow> str list \<Rightarrow> bus \<Rightarrow> bus option" where
  "bootloader_println mmu args = bootloader_print mmu (args @ [CRLF])"

definition util_get_uart :: Uart where
  "util_get_uart = \<lparr>uart_address = 0x10000000\<rparr>"

definition util_print :: "mmu \<Rightarrow> str list \<Rightarrow> bus \<Rightarrow> bus option" where
  "util_print mmu args = write_fmt mmu util_get_uart args"

definition util_println :: "mmu \<Rightarrow> str list \<Rightarrow> bus \<Rightarrow> bus option" where
  "util_println mmu args = util_print mmu (args @ [CRLF])"

definition paging_get_uart :: Uart where
  "paging_get_uart = \<lparr>uart_address = 0x10000000\<rparr>"

definition paging_print :: "mmu \<Rightarrow> str list \<Rightarrow> bus \<Rightarrow> bus option" where
  "paging_print mmu args = write_fmt mmu paging_get_uart args"

definition paging_println :: "mmu \<Rightarrow> str list \<Rightarrow> bus \<Rightarrow> bus option" where
  "paging_println mmu args = paging_print mmu (args @ [CRLF])"

text \<open>The kernel's own macros: the address is relative to the gap of the upper half.\<close>

definition main_get_uart :: "usize \<Rightarrow> Uart option" where
  "main_get_uart gap = do { a \<leftarrow> checked_add gap 0x10000000; Some \<lparr>uart_address = a\<rparr> }"

definition main_print :: "mmu \<Rightarrow> usize \<Rightarrow> str list \<Rightarrow> bus \<Rightarrow> bus option" where
  "main_print mmu gap args bus = do { uart \<leftarrow> main_get_uart gap; write_fmt mmu uart args bus }"

definition main_println :: "mmu \<Rightarrow> usize \<Rightarrow> str list \<Rightarrow> bus \<Rightarrow> bus option" where
  "main_println mmu gap args = main_print mmu gap (args @ [CRLF])"

text \<open>\<^verbatim>\<open>kernel_printer\<close>, whose printers are those of \<^verbatim>\<open>kernel_main::std_macros\<close>. They come in a box, whose allocation and release on the
  heap are left out: the bus does not see them.\<close>

definition std_get_uart :: Uart where
  "std_get_uart = \<lparr>uart_address = 0xffffffc010000000\<rparr>"

definition get_printer :: Uart where
  "get_printer = std_get_uart"

definition get_printer_lockfree :: Uart where
  "get_printer_lockfree = std_get_uart"

definition printer_print :: "mmu \<Rightarrow> str list \<Rightarrow> bus \<Rightarrow> bus option" where
  "printer_print mmu args = write_fmt mmu get_printer args"

definition printer_println :: "mmu \<Rightarrow> str list \<Rightarrow> bus \<Rightarrow> bus option" where
  "printer_println mmu args = printer_print mmu (args @ [CRLF])"

definition print_u :: "mmu \<Rightarrow> str list \<Rightarrow> bus \<Rightarrow> bus option" where
  "print_u mmu args = write_fmt mmu get_printer_lockfree args"

definition println_u :: "mmu \<Rightarrow> str list \<Rightarrow> bus \<Rightarrow> bus option" where
  "println_u mmu args = print_u mmu (args @ [CRLF])"

section \<open>Formatting\<close>

text \<open>\<^verbatim>\<open>Display\<close> of an unsigned number.\<close>

fun to_dec :: "nat \<Rightarrow> str" where
  "to_dec n = (if n < 10 then [hex_char n] else to_dec (n div 10) @ [hex_char (n mod 10)])"

declare to_dec.simps [simp del]

text \<open>The characters of a string, each as its code point and its bytes.\<close>

definition low_bits :: "nat \<Rightarrow> u8 \<Rightarrow> nat" where
  "low_bits n b = unat (take_bit n b)"

fun chars :: "str \<Rightarrow> (nat \<times> str) list" where
  "chars [] = []"
| "chars (a # bs) =
     (if a < 0x80 then (unat a, [a]) # chars bs
      else if a < 0xE0 then
        (case bs of b # r \<Rightarrow> (low_bits 5 a * 64 + low_bits 6 b, [a, b]) # chars r | _ \<Rightarrow> [])
      else if a < 0xF0 then
        (case bs of b # c # r \<Rightarrow>
             ((low_bits 4 a * 64 + low_bits 6 b) * 64 + low_bits 6 c, [a, b, c]) # chars r
         | _ \<Rightarrow> [])
      else
        (case bs of b # c # d # r \<Rightarrow>
             (((low_bits 3 a * 64 + low_bits 6 b) * 64 + low_bits 6 c) * 64 + low_bits 6 d, [a, b, c, d]) # chars r
         | _ \<Rightarrow> []))"

text \<open>
  \<^verbatim>\<open>Debug\<close> of a string. Which code points beyond ASCII are printed as they are is a table of the Unicode
  version and is the parameter \<open>plain\<close>.
\<close>

definition escape_debug :: "(nat \<Rightarrow> bool) \<Rightarrow> nat \<times> str \<Rightarrow> str" where
  "escape_debug plain ch = (case ch of (c, bytes) \<Rightarrow>
     if c = 0 then [0x5C, 0x30]
     else if c = 0x09 then [0x5C, 0x74]
     else if c = 0x0D then [0x5C, 0x72]
     else if c = 0x0A then [0x5C, 0x6E]
     else if c = 0x5C \<or> c = 0x22 then 0x5C # bytes
     else if (0x20 \<le> c \<and> c < 0x7F) \<or> (0x80 \<le> c \<and> plain c) then bytes
     else [0x5C, 0x75, 0x7B] @ to_hex c @ [0x7D])"

definition debug_str :: "(nat \<Rightarrow> bool) \<Rightarrow> str \<Rightarrow> str" where
  "debug_str plain s = [0x22] @ concat (map (escape_debug plain) (chars s)) @ [0x22]"

fun separated :: "str \<Rightarrow> str list \<Rightarrow> str" where
  "separated sep [] = []"
| "separated sep [x] = x"
| "separated sep (x # xs) = x @ sep @ separated sep xs"

definition debug_list :: "str list \<Rightarrow> str" where
  "debug_list items = [0x5B] @ separated [0x2C, 0x20] items @ [0x5D]"

section \<open>Messages of the kernel and the bootloader\<close>

text \<open>The two raw stores of \<^verbatim>\<open>main\<close> and its message.\<close>

definition main_output :: "mmu \<Rightarrow> usize \<Rightarrow> bus \<Rightarrow> bus option" where
  "main_output mmu gap bus = do {
     bus \<leftarrow> store_byte mmu 0x10000000 67 bus;
     bus \<leftarrow> store_byte mmu 0x10000000 0x0A bus;
     main_println mmu gap [debug_str (\<lambda>_. True) (str_of ''Reached kernel!'')] bus
   }"

text \<open>
  What the panic handlers print before they loop forever. The text of the message, of the location and of
  the whole \<^verbatim>\<open>PanicInfo\<close> are arguments.
\<close>

definition panic_output :: "mmu \<Rightarrow> usize \<Rightarrow> str option \<Rightarrow> str option \<Rightarrow> bus \<Rightarrow> bus option" where
  "panic_output mmu gap info_message info_location bus = do {
     bus \<leftarrow> main_println mmu gap [debug_str (\<lambda>_. True) (str_of ''Panic!'')] bus;
     let message = (case info_message of Some m \<Rightarrow> m | None \<Rightarrow> str_of ''<no message>'');
     location \<leftarrow> info_location;
     main_println mmu gap
       [[0x22], message, [0x22] @ str_of '' at '' @ [0x1B] @ str_of ''[94m'', location, [0x1B] @ str_of ''[0m''] bus
   }"

definition bootloader_panic_output :: "mmu \<Rightarrow> str \<Rightarrow> bus \<Rightarrow> bus option" where
  "bootloader_panic_output mmu info bus = do {
     bus \<leftarrow> bootloader_println mmu [debug_str (\<lambda>_. True) (str_of ''Bootloader Panic'')] bus;
     bootloader_println mmu [info] bus
   }"

section \<open>Page-table entries\<close>

definition entry_fmt :: "Entry \<Rightarrow> str" where
  "entry_fmt self =
     str_of ''<Entry: '' @
     (if pte self AND VALID = 0 then str_of ''Invalid entry: '' @ to_hex (unat (pte self))
      else if pte self AND RWX = 0 then
        str_of ''Table to: '' @ to_hex (unat (push_bit 2 (pte self AND ADDRESS_MASK)))
      else
        (if pte self AND READ \<noteq> 0 then [0x52] else []) @
        (if pte self AND WRITE \<noteq> 0 then [0x57] else []) @
        (if pte self AND EXECUTE \<noteq> 0 then [0x58] else []) @
        (if pte self AND USER \<noteq> 0 then [0x55] else []) @
        [0x20] @ to_hex (unat (push_bit 2 (pte self AND ADDRESS_MASK)))) @
     [0x3E]"

section \<open>The device tree\<close>

text \<open>A phandle is the path of its node; the name of the root is an argument.\<close>

definition phandle_name :: "str \<Rightarrow> (str \<times> usize option) list \<Rightarrow> str" where
  "phandle_name root_name path = (if path = [] then root_name else fst (last path))"

definition as_str :: "(nat \<Rightarrow> bool) \<Rightarrow> str \<Rightarrow> PropertyValue \<Rightarrow> str" where
  "as_str plain root_name self = (case self of
     Empty \<Rightarrow> str_of ''true''
   | PropSpecific val \<Rightarrow> debug_list (map (\<lambda>b. to_dec (unat b)) val)
   | StringList val \<Rightarrow> debug_list (map (debug_str plain) val)
   | StringValue val \<Rightarrow> val
   | U32 val \<Rightarrow> to_hex (unat val)
   | PHandleRaw val \<Rightarrow> to_hex (unat val)
   | PHandle val \<Rightarrow> [0x3C] @ phandle_name root_name val @ [0x3E]
   | U64 val \<Rightarrow> to_hex (unat val))"

definition indentation :: "nat \<Rightarrow> str" where
  "indentation n = concat (replicate n (str_of ''    ''))"

definition header_line :: "nat \<Rightarrow> Node \<Rightarrow> str" where
  "header_line indent self = indentation indent @ name_address self @ [0x20, 0x7B]"

definition property_line :: "(nat \<Rightarrow> bool) \<Rightarrow> str \<Rightarrow> nat \<Rightarrow> str \<times> PropertyValue \<Rightarrow> str" where
  "property_line plain root_name indent = (\<lambda>(k, v). indentation indent @ k @ [0x20, 0x3D, 0x20] @ as_str plain root_name v)"

text \<open>The lines that \<^verbatim>\<open>pretty\<close> prints, and the printing of them.\<close>

fun pretty_lines :: "(nat \<Rightarrow> bool) \<Rightarrow> str \<Rightarrow> nat \<Rightarrow> Node \<Rightarrow> str list" where
  "pretty_lines plain root_name indent (Node n a ch ps) =
     header_line indent (Node n a ch ps)
     # map (property_line plain root_name (indent + 1)) ps
     @ concat (map (\<lambda>(k, d). concat (map (\<lambda>(u, c). pretty_lines plain root_name (indent + 1) c) d)) ch)
     @ [indentation indent @ [0x7D]]"

definition pretty :: "mmu \<Rightarrow> (nat \<Rightarrow> bool) \<Rightarrow> str \<Rightarrow> nat \<Rightarrow> Node \<Rightarrow> bus \<Rightarrow> bus option" where
  "pretty mmu plain root_name indent self = foldM (\<lambda>line. printer_println mmu [line]) (pretty_lines plain root_name indent self)"

section \<open>What reaches the device\<close>

abbreviation UART_PHYSICAL :: usize where
  "UART_PHYSICAL \<equiv> 0x10000000"

text \<open>The stores of a text that is sent to one physical address.\<close>

definition sent :: "usize \<Rightarrow> str \<Rightarrow> bus" where
  "sent pa s = map (Pair pa) s"

lemma sent_append: "sent pa (s @ t) = sent pa s @ sent pa t"
  by (simp add: sent_def)

lemma write_str_sent: "mmu (uart_address u) = Some pa \<Longrightarrow> write_str mmu u s bus = Some (bus @ sent pa s)"
  unfolding write_str_def by (induction s arbitrary: bus) (simp_all add: store_byte_def sent_def)

lemma write_fmt_sent: "mmu (uart_address u) = Some pa \<Longrightarrow> write_fmt mmu u ps bus = Some (bus @ sent pa (concat ps))"
  unfolding write_fmt_def
  by (induction ps arbitrary: bus) (simp_all add: write_str_sent sent_append, simp add: sent_def)

lemma write_fmt_fault: "mmu (uart_address u) = None \<Longrightarrow> concat ps \<noteq> [] \<Longrightarrow> write_fmt mmu u ps bus = None"
  unfolding write_fmt_def
proof (induction ps arbitrary: bus)
  case (Cons p ps)
  then show ?case by (cases p) (simp_all add: write_str_def store_byte_def)
qed simp

lemmas printer_defs = bootloader_println_def bootloader_print_def bootloader_get_uart_def
  util_println_def util_print_def util_get_uart_def paging_println_def paging_print_def paging_get_uart_def
  main_println_def main_print_def main_get_uart_def printer_println_def printer_print_def get_printer_def
  println_u_def print_u_def get_printer_lockfree_def std_get_uart_def

text \<open>The translation by the page tables: an address whose lookup fails faults.\<close>

definition paging_mmu :: "GenericPaging \<Rightarrow> memory \<Rightarrow> mmu" where
  "paging_mmu self mem va = (case query 3 8 self mem va of Some (Inr pa) \<Rightarrow> Some pa | _ \<Rightarrow> None)"

text \<open>A translation under which the kernel's printers reach the serial port.\<close>

definition console_mapped :: "mmu \<Rightarrow> bool" where
  "console_mapped mmu \<longleftrightarrow> mmu 0xffffffc010000000 = Some UART_PHYSICAL"

lemma console_println:
  assumes "console_mapped mmu"
  shows "main_println mmu 0xffffffc000000000 ps bus = Some (bus @ sent UART_PHYSICAL (concat ps @ CRLF))"
    and "printer_println mmu ps bus = Some (bus @ sent UART_PHYSICAL (concat ps @ CRLF))"
    and "println_u mmu ps bus = Some (bus @ sent UART_PHYSICAL (concat ps @ CRLF))"
  using assms by (simp_all add: console_mapped_def printer_defs checked_add_def write_fmt_sent)

lemma low_println:
  assumes "mmu UART_PHYSICAL = Some UART_PHYSICAL"
  shows "main_println mmu 0 ps bus = Some (bus @ sent UART_PHYSICAL (concat ps @ CRLF))"
    and "bootloader_println mmu ps bus = Some (bus @ sent UART_PHYSICAL (concat ps @ CRLF))"
    and "util_println mmu ps bus = Some (bus @ sent UART_PHYSICAL (concat ps @ CRLF))"
    and "paging_println mmu ps bus = Some (bus @ sent UART_PHYSICAL (concat ps @ CRLF))"
  using assms by (simp_all add: printer_defs checked_add_def write_fmt_sent)

lemma low_println_fault:
  assumes "mmu UART_PHYSICAL = None"
  shows "util_println mmu ps bus = None" and "paging_println mmu ps bus = None"
  using assms by (auto simp: printer_defs CRLF_def intro!: write_fmt_fault)

lemma panic_output_sent:
  assumes "\<And>ps bus. main_println mmu gap ps bus = Some (bus @ sent pa (concat ps @ CRLF))"
  shows "panic_output mmu gap (Some m) (Some l) bus = Some (bus @ sent pa (str_of ''\"Panic!\"'' @ CRLF
    @ [0x22] @ m @ str_of ''\" at '' @ [0x1B] @ str_of ''[94m'' @ l @ [0x1B] @ str_of ''[0m'' @ CRLF))"
  by (simp add: panic_output_def assms sent_def debug_str_def escape_debug_def str_of_def)

lemma main_output_sent:
  assumes "console_mapped mmu" and "mmu UART_PHYSICAL = Some UART_PHYSICAL"
  shows "main_output mmu 0xffffffc000000000 bus
    = Some (bus @ sent UART_PHYSICAL ([67, 10] @ str_of ''\"Reached kernel!\"'' @ CRLF))"
  using assms(2) by (simp add: main_output_def console_println [OF assms(1)] store_byte_def sent_def debug_str_def
      escape_debug_def str_of_def)

lemma uart_pages:
  "page_number 0xffffffc010000000 = 2 ^ 26 + 0x10000" "page_number UART_PHYSICAL = 0x10000"
  "take_bit 38 (0xffffffc010000000 :: usize) = UART_PHYSICAL" "take_bit 38 UART_PHYSICAL = UART_PHYSICAL"
  by (simp_all add: page_number_def)

text \<open>The tables of the bootloader map the serial port in both halves, those of a hart in the upper one only.\<close>

lemma boot_console:
  assumes "boot_ok alloc img p0 n ptr1 ptr2"
  defines "mmu \<equiv> paging_mmu (boot_paging (table_addr img)) (boot_final img p0 n ptr1 ptr2)"
  shows "console_mapped mmu" and "mmu UART_PHYSICAL = Some UART_PHYSICAL"
  using boot_final_query(2) [OF assms(1), of "0xffffffc010000000"] boot_final_query(2) [OF assms(1), of UART_PHYSICAL]
  by (simp_all add: mmu_def console_mapped_def paging_mmu_def uart_pages)

lemma hart_console:
  assumes "hart_tables_ok alloc gap mem addr pp ptr1 pp1 ptr2 pp2 p0"
  defines "mmu \<equiv> paging_mmu (kernel_paging_at gap addr) (hart_final mem addr ptr1 pp1 ptr2 pp2 p0)"
  shows "console_mapped mmu" and "mmu UART_PHYSICAL = None"
  using hart_final_query(2) [OF assms(1), of "0xffffffc010000000"] hart_final_query(2) [OF assms(1), of UART_PHYSICAL]
  by (simp_all add: mmu_def console_mapped_def paging_mmu_def uart_pages)

text \<open>
  C39. The console works from the bootloader to the last hart. After \<^verbatim>\<open>pre_main\<close>, with its tables, the
  bootloader's \<^verbatim>\<open>println!\<close> and the kernel's send exactly the text and a line end to the physical address of the serial port,
  the kernel's also before \<^verbatim>\<open>GAP\<close> is set, and \<^verbatim>\<open>main\<close> prints its message. With the table that a hart builds for itself the
  kernel's \<^verbatim>\<open>println!\<close>, that of \<^verbatim>\<open>kernel_printer\<close> and the panic handler still do, while the debug macros of \<^verbatim>\<open>kernel_util\<close>
  and \<^verbatim>\<open>kernel_paging\<close>, which write to the physical address, fault.
\<close>

theorem console_reaches_device:
  assumes "boot_ok alloc img p0 n ptr1 ptr2"
    and "hart_tables_ok halloc 0xffffffc000000000 mem addr pp q1 pp1 q2 pp2 k0"
  shows "\<exists>args heap h1 bmem h2 hmem. pre_main alloc img False hart_id opaque h (boot_memory (table_addr img)) = Some (args, heap, h1, bmem)
    \<and> common_hart_tables halloc 0xffffffc000000000 (page_address k0) h' mem = Some (h2, hmem)
    \<and> (let boot = paging_mmu (boot_paging (table_addr img)) bmem;
           hart = paging_mmu (kernel_paging_at 0xffffffc000000000 addr) hmem;
           line = bus @ sent UART_PHYSICAL (concat pieces @ CRLF)
       in bootloader_println boot pieces bus = Some line
        \<and> main_println boot 0 pieces bus = Some line
        \<and> main_println boot 0xffffffc000000000 pieces bus = Some line
        \<and> main_output boot 0xffffffc000000000 bus = Some (bus @ sent UART_PHYSICAL ([67, 10] @ str_of ''\"Reached kernel!\"'' @ CRLF))
        \<and> main_println hart 0xffffffc000000000 pieces bus = Some line
        \<and> printer_println hart pieces bus = Some line
        \<and> panic_output hart 0xffffffc000000000 (Some m) (Some l) bus
            = Some (bus @ sent UART_PHYSICAL (str_of ''\"Panic!\"'' @ CRLF
                @ [0x22] @ m @ str_of ''\" at '' @ [0x1B] @ str_of ''[94m'' @ l @ [0x1B] @ str_of ''[0m'' @ CRLF))
        \<and> util_println hart pieces bus = None
        \<and> paging_println hart pieces bus = None)"
proof -
  let ?boot = "paging_mmu (boot_paging (table_addr img)) (boot_final img p0 n ptr1 ptr2)"
    and ?hart = "paging_mmu (kernel_paging_at 0xffffffc000000000 addr) (hart_final mem addr q1 pp1 q2 pp2 k0)"
  note boot = boot_console [OF assms(1)] and hart = hart_console [OF assms(2)]
  from pre_main_runs [OF assms(1)] obtain args heap where
    run: "pre_main alloc img False hart_id opaque h (boot_memory (table_addr img))
      = Some (args, heap, write_satp (satp_of (table_addr img)) h, boot_final img p0 n ptr1 ptr2)" by blast
  note lines = low_println [of ?boot, OF boot(2)] console_println [of ?boot, OF boot(1)] main_output_sent [of ?boot, OF boot]
    console_println [of ?hart, OF hart(1)] low_println_fault [of ?hart, OF hart(2)]
    panic_output_sent [OF console_println(1) [of ?hart, OF hart(1)]]
  show ?thesis
    unfolding Let_def by (intro exI conjI, rule run, rule common_hart_tables_run [OF assms(2)]) (rule lines)+
qed

theorem console_reaches_device_witness:
  "\<exists>args heap h1 bmem. pre_main two_blocks demo_image False 3 0 (hart demo_world) (boot_memory 0x1000) = Some (args, heap, h1, bmem)
    \<and> bootloader_println (paging_mmu (boot_paging 0x1000) bmem) [str_of ''A''] []
      = Some [(0x10000000, 65), (0x10000000, 13), (0x10000000, 10)]"
proof -
  have t: "table_addr demo_image = 0x1000" by (simp add: demo_image_def)
  have l: "[] @ sent UART_PHYSICAL (concat [str_of ''A''] @ CRLF) = [(0x10000000, 65), (0x10000000, 13), (0x10000000, 10)]"
    by (simp add: sent_def str_of_def CRLF_def)
  show ?thesis
    using console_reaches_device [OF demo_boot_ok demo_hart_tables_ok, where hart_id = 3 and opaque = 0 and h = "hart demo_world"
      and pieces = "[str_of ''A'']" and bus = "[]"]
    unfolding Let_def t l by blast
qed

section \<open>Reading the text back\<close>

lemma to_hex_text: "0x20 \<notin> set (to_hex n)"
  by (rule to_hex_absent) (simp add: hex_digit_def)

text \<open>The last word of a text.\<close>

definition last_word :: "str \<Rightarrow> str" where
  "last_word s = rev (takeWhile (\<lambda>b. b \<noteq> 0x20) (rev s))"

lemma last_word_end: "0x20 \<notin> set w \<Longrightarrow> last_word (s @ 0x20 # w) = w"
  unfolding last_word_def by (simp add: takeWhile_append)

text \<open>
  The last word of the text of an entry, without the closing bracket, is a number that reads back as the raw value
  of an invalid entry and as the address of a valid one.
\<close>

theorem entry_fmt_reads_back:
  "parse_address (butlast (last_word (entry_fmt e))) = (if pte e AND VALID = 0 then pte e else address e)"
proof -
  define v where "v = (if pte e AND VALID = 0 then pte e else address e)"
  have "\<exists>pre. entry_fmt e = pre @ 0x20 # to_hex (unat v) @ [0x3E]"
    unfolding entry_fmt_def v_def address_def str_of_def by auto
  then obtain pre where "entry_fmt e = pre @ 0x20 # (to_hex (unat v) @ [0x3E])" by auto
  then have "last_word (entry_fmt e) = to_hex (unat v) @ [0x3E]"
    using to_hex_text [of "unat v"] by (simp only:) (rule last_word_end, simp)
  then show ?thesis unfolding v_def [symmetric] by (simp add: parse_to_hex)
qed

lemma subseq_concat_map: "(\<And>x. x \<in> set xs \<Longrightarrow> subseq (f x) (g x)) \<Longrightarrow> subseq (concat (map f xs)) (concat (map g xs))"
  by (induction xs) (auto intro: list_emb_append_mono)

lemma subseq_between: "subseq xs ys \<Longrightarrow> subseq xs (as @ ys @ bs)"
  using list_emb_append_mono [of "(=)" xs ys "[]" bs] by (auto intro: list_emb_append2)

lemma sum_list_concat: "sum_list (concat xss) = (\<Sum>xs \<leftarrow> xss. sum_list xs :: nat)"
  by (induction xss) simp_all

lemma pretty_headers:
  "subseq (map (\<lambda>(p, m). header_line (length p + indent) m) (walk path self))
     (pretty_lines plain root_name (length path + indent) self)"
proof (induction path self rule: walk.induct)
  case (1 path n a ch ps)
  let ?header = "\<lambda>(p, m). header_line (length p + indent) m"
  have "subseq (concat (map (\<lambda>(u, c). map ?header (walk (path @ [(k, u)]) c)) d))
      (concat (map (\<lambda>(u, c). pretty_lines plain root_name (length path + indent + 1) c) d))" if "(k, d) \<in> set ch" for k d
    using 1 [OF that refl] by (intro subseq_concat_map) fastforce
  then have "subseq (concat (map (\<lambda>(k, d). concat (map (\<lambda>(u, c). map ?header (walk (path @ [(k, u)]) c)) d)) ch))
      (concat (map (\<lambda>(k, d). concat (map (\<lambda>(u, c). pretty_lines plain root_name (length path + indent + 1) c) d)) ch))"
    by (intro subseq_concat_map) auto
  then show ?case
    by (auto simp: map_concat case_prod_unfold comp_def intro!: subseq_between)
qed

lemma pretty_length:
  "length (pretty_lines plain root_name indent self) = (\<Sum>(p, m) \<leftarrow> walk path self. 2 + length (properties m))"
proof (induction path self arbitrary: indent rule: walk.induct)
  case (1 path n a ch ps)
  then show ?case
    by (auto simp: length_concat map_concat case_prod_unfold comp_def sum_list_concat intro!: arg_cong [of _ _ sum_list] map_cong)
qed

text \<open>
  The text of the device tree: every node has its opening line, in the order in which \<^verbatim>\<open>walk\<close> visits the nodes and indented by
  its depth, and the number of lines is that of the nodes, twice, and of the properties.
\<close>

theorem pretty_lists_tree:
  "subseq (map (\<lambda>(p, m). header_line (length p + indent) m) (walk [] self)) (pretty_lines plain root_name indent self)
   \<and> length (pretty_lines plain root_name indent self) = (\<Sum>(p, m) \<leftarrow> walk [] self. 2 + length (properties m))"
  using pretty_headers [of indent "[]" self plain root_name] pretty_length [of plain root_name indent self "[]"] by simp

end
