(* ===== verification/Trap_Properties.thy ===== *)
theory Trap_Properties
  imports Traps
begin

text \<open>The properties of traps, firmware calls, processes, system calls and the heap.\<close>

section \<open>Traps\<close>

lemma shift_out_top: "drop_bit 1 (push_bit 1 (c :: usize)) = take_bit 63 c"
proof (rule bit_word_eqI)
  fix n
  assume "n < LENGTH(64)"
  then show "bit (drop_bit 1 (push_bit 1 c)) n \<longleftrightarrow> bit (take_bit 63 c) n"
    unfolding bit_drop_bit_eq bit_push_bit_iff bit_take_bit_iff o_def by auto
qed

lemma top_bit: "drop_bit 63 (c :: usize) = 0 \<longleftrightarrow> \<not> bit c 63"
proof
  assume "drop_bit 63 c = 0"
  then have "\<not> bit (drop_bit 63 c) 0" by simp
  then show "\<not> bit c 63" unfolding bit_drop_bit_eq o_def by simp
next
  assume "\<not> bit c 63"
  then have "\<not> bit c (63 + n)" for n
    by (cases n) (auto dest: bit_imp_le_length)
  then show "drop_bit 63 c = 0"
    by (intro bit_word_eqI) (simp add: bit_drop_bit_eq)
qed

lemma bit_SSIP: "bit SSIP n \<longleftrightarrow> n = 1"
  using bit_exp_iff [where 'a = usize, of 1 n] by (auto simp: SSIP_def)

lemma current_frame_write_sip [simp]: "current_frame (write_sip v h) = current_frame h"
  by (simp add: current_frame_def read_sscratch_def write_sip_def)

definition exit_of :: "TrapFrame \<Rightarrow> trap_exit" where
  "exit_of frame = (if restore_context frame \<noteq> 0 then SwitchTo (restore_context frame) else Returns)"

lemma trap_handler_interrupt:
  assumes "current_frame h = Some frame" "bit (scause h) 63"
  shows "trap_handler ecall (h, m)
    = Some (exit_of frame, make_interrupt_nonpending ecall (take_bit 63 (scause h)) (h, m))"
proof -
  obtain h' m' where n: "make_interrupt_nonpending ecall (take_bit 63 (scause h)) (h, m) = (h', m')"
    by (cases "make_interrupt_nonpending ecall (take_bit 63 (scause h)) (h, m)")
  then have "current_frame h' = Some frame"
    using assms(1) by (auto simp: make_interrupt_nonpending_def split: if_splits)
  with n assms(2) top_bit [of "scause h"] show ?thesis
    unfolding trap_handler_def prod.case read_scause_def Let_def shift_out_top by (simp add: exit_of_def)
qed

text \<open>
  C27. The trap handler on every kind of trap, for a hart whose \<^verbatim>\<open>sscratch\<close> holds a trap frame: a
  software interrupt clears exactly the pending bit of that interrupt; a timer interrupt programs the
  timer to the end of time; an exception with a code below 16 changes nothing and one with a larger
  code panics; afterwards the handler switches to the frame to restore, if there is one.
\<close>

theorem trap_handler_cases:
  assumes "current_frame h = Some frame"
  shows "(bit (scause h) 63 \<longrightarrow> take_bit 63 (scause h) = SUPERVISOR_SOFTWARE \<longrightarrow>
      (\<exists>h'. trap_handler ecall (h, m) = Some (exit_of frame, h', m)
        \<and> (\<forall>n. bit (sip h') n \<longleftrightarrow> bit (sip h) n \<and> n \<noteq> 1)))
    \<and> (bit (scause h) 63 \<longrightarrow> take_bit 63 (scause h) = SUPERVISOR_TIMER \<longrightarrow>
      trap_handler ecall (h, m) = Some (exit_of frame, h,
        snd (ecall \<lparr>reg_a7 = 0x54494D45, reg_a6 = 0, reg_args = [usize_MAX]\<rparr> m)))
    \<and> (\<not> bit (scause h) 63 \<longrightarrow>
      trap_handler ecall (h, m) = (if unat (scause h) < 16 then Some (exit_of frame, h, m) else None))"
proof (intro conjI impI)
  assume i: "bit (scause h) 63" and c: "take_bit 63 (scause h) = SUPERVISOR_SOFTWARE"
  have "bit (sip h AND NOT SSIP) n \<longleftrightarrow> bit (sip h) n \<and> n \<noteq> 1" for n
    by (auto simp: bit_SSIP bit_and_iff bit_not_iff dest: bit_imp_le_length)
  with trap_handler_interrupt [OF assms i, of ecall m] c
  show "\<exists>h'. trap_handler ecall (h, m) = Some (exit_of frame, h', m)
      \<and> (\<forall>n. bit (sip h') n \<longleftrightarrow> bit (sip h) n \<and> n \<noteq> 1)"
    by (simp add: make_interrupt_nonpending_def SUPERVISOR_SOFTWARE_def SUPERVISOR_TIMER_def
        write_sip_def read_sip_def)
next
  assume i: "bit (scause h) 63" and c: "take_bit 63 (scause h) = SUPERVISOR_TIMER"
  with trap_handler_interrupt [OF assms i, of ecall m]
  show "trap_handler ecall (h, m) = Some (exit_of frame, h,
      snd (ecall \<lparr>reg_a7 = 0x54494D45, reg_a6 = 0, reg_args = [usize_MAX]\<rparr> m))"
    by (simp add: make_interrupt_nonpending_def set_absolute_timer_def call_sbi_1_def case_prod_beta)
next
  assume i: "\<not> bit (scause h) 63"
  have "take_bit 63 (scause h) = scause h"
  proof (rule bit_word_eqI)
    fix n
    assume "n < LENGTH(64)"
    then show "bit (take_bit 63 (scause h)) n \<longleftrightarrow> bit (scause h) n"
      using i by (cases "n = 63") (auto simp: bit_take_bit_iff)
  qed
  then show "trap_handler ecall (h, m) = (if unat (scause h) < 16 then Some (exit_of frame, h, m) else None)"
    unfolding trap_handler_def prod.case read_scause_def Let_def shift_out_top
    using assms i top_bit [of "scause h"]
    by (simp add: exit_of_def get_xcause_explanation_def XCAUSE_DESCRIPTION_def)
qed

definition demo_hart :: Hart where
  "demo_hart = \<lparr>sie = 0x222, sip = 0x2, stvec = 0, satp = 0, sstatus = 0, sscratch = 0x1000, stval = 0,
     scause = 0x8000000000000001, time = 100,
     frames = [0x1000 \<mapsto> trap_frame_zeroed\<lparr>hartid := 3, restore_context := 0x5000\<rparr>]\<rparr>"

lemma demo_hart_frame:
  "current_frame demo_hart = Some (trap_frame_zeroed\<lparr>hartid := 3, restore_context := 0x5000\<rparr>)"
  by (simp add: current_frame_def read_sscratch_def demo_hart_def)

theorem trap_handler_cases_witness:
  "\<exists>h'. trap_handler (\<lambda>r m. ((0, 0), m)) (demo_hart, ()) = Some (SwitchTo 0x5000, h', ()) \<and> \<not> bit (sip h') 1"
proof -
  have "bit (scause demo_hart) 63" "take_bit 63 (scause demo_hart) = SUPERVISOR_SOFTWARE"
    by (simp_all add: demo_hart_def SUPERVISOR_SOFTWARE_def)
  with trap_handler_cases [OF demo_hart_frame, of "\<lambda>r m. ((0, 0), m)" "()"] show ?thesis
    by (auto simp: exit_of_def)
qed

section \<open>Firmware calls and the timer\<close>

text \<open>
  A firmware call succeeds exactly when the firmware's error code is zero, and then gives the
  returned value; but the error it reports otherwise is decoded from the returned value and not from
  the error code, so that any failure with a zero value is reported as the error \<^verbatim>\<open>Success\<close>.
\<close>

theorem sbi_call_result:
  assumes "ecall \<lparr>reg_a7 = eid, reg_a6 = fid, reg_args = [a0]\<rparr> m = ((error_code, value), m')"
  shows "call_sbi_1 ecall eid fid a0 m =
      (if error_code = 0 then Inr value else Inl (from_isize (sint value)), m')
    \<and> (error_code \<noteq> 0 \<longrightarrow> value = 0 \<longrightarrow> fst (call_sbi_1 ecall eid fid a0 m) = Inl Success)"
  using assms by (simp add: call_sbi_1_def sbi_result_def from_isize_def)

theorem sbi_call_result_witness:
  "fst (call_sbi_1 (\<lambda>r m. ((- 2, 0), m)) 0x54494D45 0 7 ()) = Inl Success"
  using sbi_call_result [of "\<lambda>r m. ((- 2, 0), m)" "0x54494D45" 0 7 "()" "- 2" 0 "()"]
  by (simp add: from_isize_def)

text \<open>
  A relative timer asks the firmware for the deadline now plus the delay, or for the largest time
  when the sum does not fit in 64 bits: the deadline is never before now.
\<close>

theorem relative_timer_deadline:
  "\<exists>deadline. set_relative_timer ecall t (h, m)
      = (h, snd (ecall \<lparr>reg_a7 = 0x54494D45, reg_a6 = 0, reg_args = [deadline]\<rparr> m))
    \<and> unat deadline = min (unat (time h) + unat t) (2 ^ 64 - 1) \<and> time h \<le> deadline"
proof -
  let ?d = "saturating_add (time h) t"
  have u: "unat ?d = min (unat (time h) + unat t) (2 ^ 64 - 1)"
    by (rule unat_saturating_add)
  moreover have "time h \<le> ?d"
    using u unat_usize_less [of "time h"] by (simp add: word_le_nat_alt)
  ultimately show ?thesis
    by (intro exI [of _ ?d])
      (simp add: set_relative_timer_def set_absolute_timer_def call_sbi_1_def read_time_def case_prod_beta)
qed

section \<open>Processes and system calls\<close>

text \<open>
  A new supervisor process starts at the given function with the page table and the interrupt
  stack of the running frame and is paused; its stack pointer is the lowest address of its stack, and
  its hart id is zero whatever hart creates it.
\<close>

theorem new_supervisor_frame:
  assumes "current_frame h = Some frame"
  shows "\<exists>p. new_supervisor stack id function h = Some p
    \<and> tf_pc (trap_frame p) = function \<and> tf_satp (trap_frame p) = tf_satp frame
    \<and> kernel_satp (trap_frame p) = tf_satp frame \<and> interrupt_stack (trap_frame p) = interrupt_stack frame
    \<and> process_state p = Paused \<and> register_of (trap_frame p) Sp = Some stack
    \<and> hartid (trap_frame p) = 0
    \<and> (\<forall>r. r \<noteq> Sp \<longrightarrow> register_of (trap_frame p) r = Some 0)"
  using assms reg_idx_less
  by (auto simp: new_supervisor_def process_default_def set_register_def register_of_def trap_frame_zeroed_def
      simp flip: reg_idx_inject)

theorem new_supervisor_frame_witness:
  "\<exists>p. new_supervisor 0x9000 id 0x80001000 demo_hart = Some p \<and> register_of (trap_frame p) Sp = Some 0x9000"
  using new_supervisor_frame [OF demo_hart_frame, of "0x9000" "0x80001000"] by blast

text \<open>
  Every system call ends the process: whatever the number in \<^verbatim>\<open>a7\<close>, the process is marked as
  exited and its container is dropped.
\<close>

theorem every_syscall_exits:
  assumes "length (general_registers (trap_frame p)) = 32"
  shows "do_syscall p = Some (p\<lparr>process_state := Exited\<rparr>) \<and> do_syscall_and_drop_if_exit p = Some None"
  using assms by (simp add: do_syscall_def do_syscall_and_drop_if_exit_def register_of_def)

theorem every_syscall_exits_witness:
  "do_syscall_and_drop_if_exit (process_default\<lparr>trap_frame :=
      trap_frame_zeroed\<lparr>general_registers := (replicate 32 0)[17 := 42]\<rparr>\<rparr>) = Some None"
  using every_syscall_exits [of "process_default\<lparr>trap_frame :=
      trap_frame_zeroed\<lparr>general_registers := (replicate 32 0)[17 := 42]\<rparr>\<rparr>"] by simp

section \<open>The heap\<close>

text \<open>
  The heap that is handed to the allocator starts at the given address, does not reach past the
  given end, and its size is the largest multiple of the allocator's unit that fits; a range whose
  end is before its start panics.
\<close>

theorem heap_bounds:
  assumes "unit \<noteq> 0"
  shows "(start \<le> fin \<longrightarrow> (\<exists>n. init_from_pointers unit start fin = Some (start, n)
      \<and> unat unit dvd unat n \<and> unat start + unat n \<le> unat fin \<and> unat fin - unat start < unat n + unat unit))
    \<and> (fin < start \<longrightarrow> init_from_pointers unit start fin = None)"
proof (intro conjI impI)
  assume le: "start \<le> fin"
  let ?s = "fin - start"
  have s: "unat ?s = unat fin - unat start" using le by (simp add: unat_sub)
  have u: "0 < unat unit" using assms by (simp add: unat_gt_0)
  have d: "unat (?s div unit) = unat ?s div unat unit" by (simp add: unat_div)
  have le2: "unat ?s div unat unit * unat unit \<le> unat ?s" by simp
  then have "unat ?s div unat unit * unat unit < 2 ^ 64" using unat_usize_less [of ?s] by linarith
  then have m: "checked_mul (?s div unit) unit = Some (?s div unit * unit)"
    "unat (?s div unit * unit) = unat ?s div unat unit * unat unit"
    by (simp_all add: checked_mul_def d unat_mult_lem [THEN iffD1])
  have "unat ?s < unat ?s div unat unit * unat unit + unat unit"
    using div_mult_mod_eq [of "unat ?s" "unat unit"] mod_less_divisor [OF u, of "unat ?s"] by linarith
  moreover have "unat start + unat ?s div unat unit * unat unit \<le> unat fin"
    using le le2 unfolding s word_le_nat_alt by linarith
  ultimately show "\<exists>n. init_from_pointers unit start fin = Some (start, n)
      \<and> unat unit dvd unat n \<and> unat start + unat n \<le> unat fin \<and> unat fin - unat start < unat n + unat unit"
    using m le s assms by (auto simp: init_from_pointers_def checked_sub_def assert_that_def)
next
  assume "fin < start"
  then show "init_from_pointers unit start fin = None"
    by (simp add: init_from_pointers_def checked_sub_def not_le [symmetric])
qed

theorem heap_bounds_witness:
  "init_from_pointers 0x8000 0x80400000 0x80500123 = Some (0x80400000, 0x100000)"
proof -
  have "(0x8000 :: usize) \<noteq> 0" "(0x80400000 :: usize) \<le> 0x80500123" by simp_all
  with heap_bounds [of "0x8000" "0x80400000" "0x80500123"] obtain n where
    n: "init_from_pointers 0x8000 0x80400000 0x80500123 = Some (0x80400000, n)" by blast
  then show ?thesis by (simp add: init_from_pointers_def checked_sub_def checked_mul_def assert_that_def)
qed

end
