(* ===== verification/Plic.thy ===== *)
theory Plic
  imports Cpu
begin

text \<open>
  \<^verbatim>\<open>kernel_chip_drivers/src/plic.rs\<close>: the platform-level interrupt controller. Its registers are
  32-bit words in memory; the memory gives the value that a volatile read of an address returns, and
  a volatile write replaces it. The arithmetic on \<^verbatim>\<open>usize\<close> is checked; \<^verbatim>\<open>add\<close> on a pointer to
  \<^verbatim>\<open>u32\<close> advances by four bytes per element.
\<close>

record Plic0 =
  base_addr :: usize
  context_number :: usize

type_synonym mmio = "usize \<Rightarrow> u32"

definition get_context_number :: "Hart \<Rightarrow> usize option" where
  "get_context_number h = do {
     i \<leftarrow> load_hartid h;
     t \<leftarrow> checked_mul i 2;
     checked_add 1 t
   }"

definition new_with_addr :: "usize \<Rightarrow> Hart \<Rightarrow> Plic0 option" where
  "new_with_addr base h = do {
     c \<leftarrow> get_context_number h;
     Some \<lparr>base_addr = base, context_number = c\<rparr>
   }"

definition ptr_add :: "usize \<Rightarrow> usize \<Rightarrow> usize" where
  "ptr_add p n = p + 4 * n"

definition set_priority :: "Plic0 \<Rightarrow> u32 \<Rightarrow> u32 \<Rightarrow> mmio \<Rightarrow> mmio" where
  "set_priority self interrupt priority mem = mem(ptr_add (base_addr self) (ucast interrupt) := priority)"

definition enable_register :: "Plic0 \<Rightarrow> u32 \<Rightarrow> usize option" where
  "enable_register self interrupt = do {
     enables_base \<leftarrow> checked_add (base_addr self) 0x2000;
     offset \<leftarrow> checked_mul (context_number self) 0x80;
     target_base \<leftarrow> checked_add enables_base offset;
     Some (ptr_add target_base (ucast (interrupt div 32)))
   }"

definition set_enabled :: "Plic0 \<Rightarrow> u32 \<Rightarrow> bool \<Rightarrow> mmio \<Rightarrow> mmio option" where
  "set_enabled self interrupt enable mem = do {
     this_register \<leftarrow> enable_register self interrupt;
     if enable then do {
       let flag = push_bit (unat (interrupt mod 32)) (of_bool enable);
       Some (mem(this_register := mem this_register OR flag))
     }
     else do {
       let flag = NOT (push_bit (unat (interrupt mod 32)) (of_bool enable));
       Some (mem(this_register := mem this_register AND flag))
     }
   }"

definition context_register :: "usize \<Rightarrow> Plic0 \<Rightarrow> usize option" where
  "context_register offset self = do {
     base \<leftarrow> checked_add (base_addr self) offset;
     c \<leftarrow> checked_mul (context_number self) 0x1000;
     checked_add base c
   }"

definition set_threshold :: "Plic0 \<Rightarrow> u32 \<Rightarrow> mmio \<Rightarrow> mmio option" where
  "set_threshold self threshold mem = do {
     target_base \<leftarrow> context_register 0x200000 self;
     Some (mem(target_base := threshold))
   }"

definition claim_highest_priority :: "Plic0 \<Rightarrow> mmio \<Rightarrow> u32 option" where
  "claim_highest_priority self mem = do {
     target_base \<leftarrow> context_register 0x200004 self;
     Some (mem target_base)
   }"

definition complete :: "Plic0 \<Rightarrow> u32 \<Rightarrow> mmio \<Rightarrow> mmio option" where
  "complete self interrupt mem = do {
     target_base \<leftarrow> context_register 0x200004 self;
     Some (mem(target_base := interrupt))
   }"

section \<open>The register layout\<close>

text \<open>
  A controller whose registers fit below the end of the address space, for a context of a real
  system: contexts are numbered below \<open>15872\<close>, the number for which the specification reserves space.
\<close>

definition plic_ok :: "Plic0 \<Rightarrow> bool" where
  "plic_ok self \<longleftrightarrow> unat (base_addr self) + 0x4000000 < 2 ^ 64 \<and> unat (context_number self) < 15872"

lemma unat_enable_register:
  assumes "plic_ok self" "unat interrupt < 1024"
  shows "\<exists>a. enable_register self interrupt = Some a
    \<and> unat a = unat (base_addr self) + 0x2000 + unat (context_number self) * 0x80 + 4 * (unat interrupt div 32)"
proof -
  let ?b = "base_addr self" and ?c = "context_number self" and ?i = "ucast (interrupt div 32) :: usize"
  have i: "unat ?i = unat interrupt div 32"
    using assms(2) by (simp add: unsigned_ucast_eq unat_div take_bit_nat_eq_self)
  have c: "unat (?c * 0x80) = unat ?c * 0x80" "checked_mul ?c 0x80 = Some (?c * 0x80)"
    using assms(1) unat_mult_lem [of ?c "0x80"] by (auto simp: plic_ok_def checked_mul_def)
  have b: "unat (?b + 0x2000) = unat ?b + 0x2000" "checked_add ?b 0x2000 = Some (?b + 0x2000)"
    using assms(1) unat_add_no_overflow [of ?b "0x2000"] by (auto simp: plic_ok_def checked_add_def)
  have t: "unat (?b + 0x2000 + ?c * 0x80) = unat ?b + 0x2000 + unat ?c * 0x80"
    "checked_add (?b + 0x2000) (?c * 0x80) = Some (?b + 0x2000 + ?c * 0x80)"
    using assms(1) unat_add_no_overflow [of "?b + 0x2000" "?c * 0x80"] b(1) c(1)
    by (auto simp: plic_ok_def checked_add_def)
  have f: "unat (4 * ?i) = 4 * (unat interrupt div 32)"
    using assms(2) unat_mult_lem [of 4 ?i] i by auto
  have "unat (?b + 0x2000 + ?c * 0x80 + 4 * ?i) = unat ?b + 0x2000 + unat ?c * 0x80 + 4 * (unat interrupt div 32)"
    using assms unat_add_no_overflow [of "?b + 0x2000 + ?c * 0x80" "4 * ?i"] t(1) f by (auto simp: plic_ok_def)
  with b(2) c(2) t(2) show ?thesis by (simp add: enable_register_def ptr_add_def)
qed

lemma enable_registers_apart:
  assumes "plic_ok p" "plic_ok q" "base_addr p = base_addr q" "context_number p \<noteq> context_number q"
    and "unat i < 1024" "unat j < 1024" "enable_register p i = Some a" "enable_register q j = Some b"
  shows "a \<noteq> b"
proof
  assume "a = b"
  with unat_enable_register [OF assms(1,5)] unat_enable_register [OF assms(2,6)] assms(3,7,8)
  have "unat (context_number p) * 0x80 + 4 * (unat i div 32) = unat (context_number q) * 0x80 + 4 * (unat j div 32)"
    by auto
  moreover have "unat i div 32 < 32" "unat j div 32 < 32" using assms(5,6) by auto
  ultimately have "unat (context_number p) = unat (context_number q)" by linarith
  with assms(4) show False by (simp add: word_unat_eq_iff)
qed

lemma bit_shifted_one: "n < 32 \<Longrightarrow> bit (push_bit n 1 :: u32) k \<longleftrightarrow> k = n"
  using bit_exp_iff [where 'a = u32, of n k] by (auto simp: push_bit_of_1)

text \<open>
  Enabling an interrupt sets exactly its bit in the enable words of the controller's own context:
  no other bit of that word, no other word and no word of another context changes. Disabling an
  interrupt changes nothing at all, because the mask it is cleared with is all ones.
\<close>

theorem plic_enable_exact:
  assumes "plic_ok p" and "unat i < 1024"
  shows "(\<exists>a mem'. enable_register p i = Some a \<and> set_enabled p i True mem = Some mem'
      \<and> (\<forall>n. bit (mem' a) n \<longleftrightarrow> n = unat i mod 32 \<or> bit (mem a) n)
      \<and> (\<forall>b. b \<noteq> a \<longrightarrow> mem' b = mem b)
      \<and> (\<forall>q j b. plic_ok q \<longrightarrow> base_addr q = base_addr p \<longrightarrow> context_number q \<noteq> context_number p \<longrightarrow>
           unat j < 1024 \<longrightarrow> enable_register q j = Some b \<longrightarrow> mem' b = mem b))
    \<and> set_enabled p i False mem = Some mem"
proof -
  from unat_enable_register [OF assms] obtain a where a: "enable_register p i = Some a" by blast
  have m: "unat (i mod 32) = unat i mod 32" by (simp add: unat_mod)
  then have k: "unat (i mod 32) < 32" by simp
  let ?mem = "mem(a := mem a OR push_bit (unat (i mod 32)) 1)"
  have "set_enabled p i True mem = Some ?mem" using a by (simp add: set_enabled_def)
  moreover have "bit (?mem a) n \<longleftrightarrow> n = unat i mod 32 \<or> bit (mem a) n" for n
    using bit_shifted_one [OF k, of n] unfolding m by (auto simp: bit_or_iff)
  moreover have "?mem b = mem b"
    if "plic_ok q" "base_addr q = base_addr p" "context_number q \<noteq> context_number p"
      "unat j < 1024" "enable_register q j = Some b" for q j b
    using enable_registers_apart [OF assms(1) that(1) that(2) [symmetric] that(3) [symmetric] assms(2) that(4) a that(5)]
    by simp
  moreover have "set_enabled p i False mem = Some mem"
    using a by (simp add: set_enabled_def)
  ultimately show ?thesis using a by (intro conjI exI [of _ a] exI [of _ ?mem]) auto
qed

theorem plic_enable_exact_witness:
  "set_enabled \<lparr>base_addr = 0xc000000, context_number = 1\<rparr> 10 False (\<lambda>_. 0xffffffff) = Some (\<lambda>_. 0xffffffff)"
  using plic_enable_exact [of "\<lparr>base_addr = 0xc000000, context_number = 1\<rparr>" 10 "\<lambda>_. 0xffffffff"]
  by (simp add: plic_ok_def)

text \<open>
  The context of a hart is the odd number one more than twice its id, so different harts use
  different contexts; what a hart completes is written to the same register it claims from, and the
  threshold register is another one.
\<close>

theorem plic_contexts_distinct:
  assumes "load_hartid h = Some i" and "load_hartid h' = Some i'" and "unat i < 7936" and "unat i' < 7936"
    and "unat base + 0x4000000 < 2 ^ 64"
  shows "\<exists>p p'. new_with_addr base h = Some p \<and> new_with_addr base h' = Some p' \<and> plic_ok p \<and> plic_ok p'
    \<and> unat (context_number p) = 2 * unat i + 1
    \<and> (i \<noteq> i' \<longrightarrow> context_number p \<noteq> context_number p')
    \<and> (\<exists>mem'. complete p x mem = Some mem' \<and> claim_highest_priority p mem' = Some x)
    \<and> context_register 0x200000 p \<noteq> context_register 0x200004 p"
proof -
  have ctx: "\<exists>c. get_context_number g = Some c \<and> unat c = 2 * unat j + 1"
    if "load_hartid g = Some j" "unat j < 7936" for g j
  proof -
    have m: "unat (j * 2) = unat j * 2" "checked_mul j 2 = Some (j * 2)"
      using that(2) unat_mult_lem [of j 2] by (auto simp: checked_mul_def)
    have "unat (1 + j * 2) = 1 + unat j * 2" "checked_add 1 (j * 2) = Some (1 + j * 2)"
      using that(2) unat_add_no_overflow [of 1 "j * 2"] m(1) by (auto simp: checked_add_def)
    with that(1) m show ?thesis by (simp add: get_context_number_def)
  qed
  from ctx [OF assms(1,3)] ctx [OF assms(2,4)] obtain c c' where
    c: "get_context_number h = Some c" "unat c = 2 * unat i + 1" and
    c': "get_context_number h' = Some c'" "unat c' = 2 * unat i' + 1" by blast
  let ?p = "\<lparr>base_addr = base, context_number = c\<rparr>" and ?p' = "\<lparr>base_addr = base, context_number = c'\<rparr>"
  have ok: "plic_ok ?p" "plic_ok ?p'" using assms(3-5) c(2) c'(2) by (simp_all add: plic_ok_def)
  have reg: "\<exists>a. context_register off ?p = Some a \<and> unat a = unat base + unat off + unat c * 0x1000"
    if "unat off \<le> 0x200004" for off
  proof -
    have m: "unat (c * 0x1000) = unat c * 0x1000" "checked_mul c 0x1000 = Some (c * 0x1000)"
      using assms(3) c(2) unat_mult_lem [of c "0x1000"] by (auto simp: checked_mul_def)
    have b: "unat (base + off) = unat base + unat off" "checked_add base off = Some (base + off)"
      using assms(5) that unat_add_no_overflow [of base off] by (auto simp: checked_add_def)
    have "unat (base + off + c * 0x1000) = unat base + unat off + unat c * 0x1000"
      "checked_add (base + off) (c * 0x1000) = Some (base + off + c * 0x1000)"
      using assms(3,5) that c(2) unat_add_no_overflow [of "base + off" "c * 0x1000"] m(1) b(1)
      by (auto simp: checked_add_def)
    with m b show ?thesis by (simp add: context_register_def)
  qed
  from reg [of "0x200004"] obtain r where r: "context_register 0x200004 ?p = Some r"
    "unat r = unat base + 0x200004 + unat c * 0x1000" by auto
  from reg [of "0x200000"] have "context_register 0x200000 ?p \<noteq> Some r" using r(2) by auto
  moreover have "c \<noteq> c'" if "i \<noteq> i'" using that c(2) c'(2) by (auto simp: word_unat_eq_iff)
  ultimately show ?thesis
    using c c' ok r(1)
    by (intro exI [of _ ?p] exI [of _ ?p']) (simp add: new_with_addr_def complete_def claim_highest_priority_def)
qed

definition plic_hart :: "usize \<Rightarrow> Hart" where
  "plic_hart i = \<lparr>sie = 0, sip = 0, stvec = 0, satp = 0, sstatus = 0, sscratch = 0x1000, stval = 0,
     scause = 0, time = 0, frames = [0x1000 \<mapsto> trap_frame_zeroed\<lparr>hartid := i\<rparr>]\<rparr>"

theorem plic_contexts_distinct_witness:
  "\<exists>p p'. new_with_addr 0xc000000 (plic_hart 0) = Some p \<and> new_with_addr 0xc000000 (plic_hart 1) = Some p'
     \<and> context_number p \<noteq> context_number p'"
proof -
  have "load_hartid (plic_hart i) = Some i" for i
    by (simp add: plic_hart_def load_hartid_def current_frame_def read_sscratch_def)
  from plic_contexts_distinct [OF this this, of 0 1 "0xc000000" 0 "\<lambda>_. 0"] show ?thesis by auto
qed

end
