(* ===== verification/Device_Tree_Statics.thy ===== *)
theory Device_Tree_Statics
  imports Device_Tree_Properties Shared_Properties
begin

text \<open>
  The statics of \<^verbatim>\<open>kernel_chip_drivers/src/fdt.rs\<close>: the base of the blob and the parsed tree behind a shared reader-writer lock, which
  \<^verbatim>\<open>init\<close> sets up and \<^verbatim>\<open>root\<close> gives out. \<^const>\<open>None\<close> is an uninitialised static. \<^verbatim>\<open>get_mut\<close> needs no lock, \<^verbatim>\<open>write\<close> and \<^verbatim>\<open>read\<close> take the
  lock of the theory Shared_Locks and release it when their guard is dropped.
\<close>

record fdt_statics =
  DEVICE_TREE_BASE :: "fdt option"
  DEVICE_TREE_ROOT :: "(RawSpinRwLock \<times> Node) option"

definition tree_write :: "(Node \<Rightarrow> Node) \<Rightarrow> lock_world \<times> RawSpinRwLock \<times> Node \<Rightarrow> (lock_world \<times> RawSpinRwLock \<times> Node) option" where
  "tree_write f = (\<lambda>(w, l, tree). do {
     (w, l) \<leftarrow> shared_lock_exclusive (w, l);
     let tree = f tree;
     (w, l) \<leftarrow> shared_unlock_exclusive (w, l);
     Some (w, l, tree)
   })"

definition tree_read :: "(Node \<Rightarrow> 'r) \<Rightarrow> lock_world \<times> RawSpinRwLock \<times> Node \<Rightarrow> ('r \<times> lock_world \<times> RawSpinRwLock \<times> Node) option" where
  "tree_read f = (\<lambda>(w, l, tree). do {
     (w, l) \<leftarrow> shared_lock_shared (w, l);
     let r = f tree;
     (w, l) \<leftarrow> shared_unlock_shared (w, l);
     Some (r, w, l, tree)
   })"

definition fdt_root :: "fdt_statics \<Rightarrow> (RawSpinRwLock \<times> Node) option" where
  "fdt_root s = DEVICE_TREE_ROOT s"

definition link_phandles_static :: "lock_world \<times> fdt_statics \<Rightarrow> (lock_world \<times> fdt_statics) option" where
  "link_phandles_static = (\<lambda>(w, s). do {
     (l, borrow) \<leftarrow> DEVICE_TREE_ROOT s;
     let phandles = phandle_map borrow;
     (w, l, tree) \<leftarrow> tree_write (walk_mut_properties (link_value phandles)) (w, l, borrow);
     Some (w, s\<lparr>DEVICE_TREE_ROOT := Some (l, tree)\<rparr>)
   })"

definition init_static :: "fdt \<Rightarrow> lock_world \<times> fdt_statics \<Rightarrow> ((RawSpinRwLock \<times> Node) \<times> lock_world \<times> fdt_statics) option" where
  "init_static header = (\<lambda>(w, s). do {
     let s = s\<lparr>DEVICE_TREE_BASE := Some header\<rparr>;
     offset \<leftarrow> offset_dt_struct header;
     root_tree \<leftarrow> build header (fdt_base header + unat offset);
     let s = s\<lparr>DEVICE_TREE_ROOT := Some (spin_rwlock_INIT, root_tree)\<rparr>;
     (w, s) \<leftarrow> link_phandles_static (w, s);
     root \<leftarrow> fdt_root s;
     Some (root, w, s)
   })"

section \<open>Critical sections of a reader-writer lock\<close>

context raw_rwlock
begin

text \<open>A client that enters and leaves a free lock gets it back free.\<close>

lemma write_section:
  assumes "ok s" and "view s = Readers 0"
  shows "\<exists>s1 s2. lock_exclusive s = Some s1 \<and> unlock_exclusive s1 = Some s2 \<and> view s2 = Readers 0 \<and> ok s2"
  using lock_exclusive_ok [OF assms] unlock_exclusive_ok by blast

lemma read_section:
  assumes "ok s" and "view s = Readers n" and "n < limit"
  shows "\<exists>s1 s2. lock_shared s = Some s1 \<and> unlock_shared s1 = Some s2 \<and> view s2 = Readers n \<and> ok s2"
  using lock_shared_ok [OF assms] unlock_shared_ok by blast

end

lemma tree_write_section:
  assumes "shared_rw_ok (w, l)" and "rw_view l = Readers 0"
  shows "\<exists>w' l'. tree_write f (w, l, tree) = Some (w', l', f tree) \<and> rw_view l' = Readers 0 \<and> shared_rw_ok (w', l')"
  using shared_rw.write_section [OF assms(1)] assms(2) by (force simp: tree_write_def shared_rw_view_def)

lemma tree_read_section:
  assumes "shared_rw_ok (w, l)" and "rw_view l = Readers n" and "n < reader_limit"
  shows "\<exists>w' l'. tree_read f (w, l, tree) = Some (f tree, w', l', tree) \<and> rw_view l' = Readers n \<and> shared_rw_ok (w', l')"
  using shared_rw.read_section [OF assms(1) _ assms(3)] assms(2) by (force simp: tree_read_def shared_rw_view_def)

lemma init_static_refines:
  assumes "world_ok False w"
  shows "case fdt_init header of
      None \<Rightarrow> init_static header (w, s) = None
    | Some tree \<Rightarrow> \<exists>w' l. init_static header (w, s) = Some ((l, tree), w', \<lparr>DEVICE_TREE_BASE = Some header, DEVICE_TREE_ROOT = Some (l, tree)\<rparr>)
        \<and> rw_view l = Readers 0 \<and> shared_rw_ok (w', l)"
proof -
  have "shared_rw_ok (w, spin_rwlock_INIT)" "rw_view spin_rwlock_INIT = Readers 0"
    using assms by (simp_all add: shared_rw_ok_def rw_ok_def rw_view_def spin_rwlock_INIT_def)
  note t = tree_write_section [OF this]
  show ?thesis
  proof (cases "fdt_init header")
    case None
    then show ?thesis by (auto simp: fdt_init_def init_static_def Let_def split: bind_splits)
  next
    case (Some tree)
    then obtain off root where r: "offset_dt_struct header = Some off" "build header (fdt_base header + unat off) = Some root"
      "tree = walk_mut_properties (link_value (phandle_map root)) root"
      by (auto simp: fdt_init_def link_phandles_def split: bind_splits)
    obtain w' l where "tree_write (walk_mut_properties (link_value (phandle_map root))) (w, spin_rwlock_INIT, root) = Some (w', l, tree)"
      "rw_view l = Readers 0" "shared_rw_ok (w', l)"
      using t [of "walk_mut_properties (link_value (phandle_map root))" root] r(3) by blast
    then show ?thesis using Some r(1,2) by (simp add: init_static_def link_phandles_static_def fdt_root_def Let_def)
  qed
qed

section \<open>From the blob to the readers of the tree\<close>

text \<open>
  C8. \<^verbatim>\<open>init\<close> on a blob that holds the structure block of any tree, serialised as the devicetree specification says: it returns, \<^verbatim>\<open>root\<close>
  then gives exactly that tree, with its phandles linked, behind a free lock, and every lookup of a path under \<^verbatim>\<open>read\<close> sees it and leaves
  the lock free; on a blob that cannot be parsed \<^verbatim>\<open>init\<close> does not return.
\<close>

theorem fdt_init_then_read:
  assumes "offset_dt_struct f = Some off" and "a = fdt_base f + unat off" and "a mod 4 = 0"
    and "Device_Tree_Build.placed f a (encode t @ be32 9)" and "dt_ok f t" and "world_ok False w"
  shows "\<exists>w' l s'. init_static f (w, s) = Some ((l, link_phandles (node_of t)), w', s')
    \<and> fdt_root s' = Some (l, link_phandles (node_of t)) \<and> rw_view l = Readers 0
    \<and> (\<forall>path. \<exists>w'' l''. tree_read (node_get path) (w', l, link_phandles (node_of t))
          = Some (node_get path (link_phandles (node_of t)), w'', l'', link_phandles (node_of t)) \<and> rw_view l'' = Readers 0)
    \<and> (build g (fdt_base g + unat off) = None \<and> offset_dt_struct g = Some off \<longrightarrow> init_static g (w, s) = None)"
proof -
  have "fdt_init f = Some (link_phandles (node_of t))"
    using build_encoded [OF assms(4,3,5)] assms(1,2) by (simp add: fdt_init_def)
  then obtain w' l where i: "init_static f (w, s) = Some ((l, link_phandles (node_of t)), w',
      \<lparr>DEVICE_TREE_BASE = Some f, DEVICE_TREE_ROOT = Some (l, link_phandles (node_of t))\<rparr>)" "rw_view l = Readers 0" "shared_rw_ok (w', l)"
    using init_static_refines [OF assms(6), of f s] by auto
  have "init_static g (w, s) = None" if "build g (fdt_base g + unat off) = None \<and> offset_dt_struct g = Some off"
    using that init_static_refines [OF assms(6), of g s] by (simp add: fdt_init_def)
  moreover have "\<exists>w'' l''. tree_read (node_get path) (w', l, link_phandles (node_of t))
      = Some (node_get path (link_phandles (node_of t)), w'', l'', link_phandles (node_of t)) \<and> rw_view l'' = Readers 0" for path
    using tree_read_section [OF i(3,2), of "node_get path" "link_phandles (node_of t)"] by (auto simp: reader_limit_def)
  ultimately show ?thesis
    using i
    by (intro exI [of _ w'] exI [of _ l] exI [of _ "\<lparr>DEVICE_TREE_BASE = Some f, DEVICE_TREE_ROOT = Some (l, link_phandles (node_of t))\<rparr>"])
       (auto simp: fdt_root_def)
qed

theorem fdt_init_then_read_witness:
  "\<exists>w' l s'. init_static demo_fdt (demo_world, \<lparr>DEVICE_TREE_BASE = None, DEVICE_TREE_ROOT = None\<rparr>) = Some ((l, link_phandles (node_of demo_dt)), w', s')
    \<and> fdt_root s' = Some (l, link_phandles (node_of demo_dt)) \<and> rw_view l = Readers 0"
proof -
  have "world_ok False demo_world" using demo_thread_world(1) by (auto simp: world_ok_def)
  from fdt_init_then_read [OF demo_fdt_encodes(1) refl _ _ demo_fdt_encodes(4) this] demo_fdt_encodes(2,3) show ?thesis
    by (fastforce simp: demo_fdt_def)
qed

end
