(* ===== verification/Arc_Inject.thy ===== *)
theory Arc_Inject
  imports Kernel_Prelude
begin

text \<open>
  \<^verbatim>\<open>arcinject\<close>: reference-counted pointers to a part of an allocation. One allocation is the record of
  its two counters, whether its data has been dropped and whether the box has been freed. Touching a
  freed box, dropping the data twice and reading dropped data are undefined behaviour and are
  \<^const>\<open>None\<close>. The counters are atomic and wrap around.
\<close>

record ArcInner =
  strong :: usize
  weak :: usize
  data_dropped :: bool
  freed :: bool

section \<open>The operations\<close>

definition live :: "ArcInner \<Rightarrow> unit option" where
  "live a = assert_that (\<not> freed a)"

definition arc_inner_new :: ArcInner where
  "arc_inner_new = \<lparr>strong = 0, weak = 0, data_dropped = False, freed = False\<rparr>"

definition arc_new :: ArcInner where
  "arc_new = arc_inner_new\<lparr>strong := strong arc_inner_new + 1\<rparr>"

definition drop_data :: "ArcInner \<Rightarrow> ArcInner option" where
  "drop_data a = do { live a; assert_that (\<not> data_dropped a); Some (a\<lparr>data_dropped := True\<rparr>) }"

definition drop_self :: "ArcInner \<Rightarrow> ArcInner option" where
  "drop_self a = do { live a; Some (a\<lparr>freed := True\<rparr>) }"

definition dec_strong_and_drop :: "ArcInner \<Rightarrow> ArcInner option" where
  "dec_strong_and_drop a = do {
     live a;
     let old = strong a;
     let a = a\<lparr>strong := old - 1\<rparr>;
     if old = 1 then do {
       a \<leftarrow> drop_data a;
       if weak a = 0 then drop_self a else Some a
     }
     else Some a
   }"

definition dec_weak_and_drop :: "ArcInner \<Rightarrow> ArcInner option" where
  "dec_weak_and_drop a = do {
     live a;
     let old = weak a;
     let a = a\<lparr>weak := old - 1\<rparr>;
     if old = 1 then do {
       a \<leftarrow> (if strong a = 0 then drop_data a else Some a);
       drop_self a
     }
     else Some a
   }"

definition deref :: "ArcInner \<Rightarrow> unit option" where
  "deref a = do { live a; assert_that (\<not> data_dropped a) }"

text \<open>\<^verbatim>\<open>ArcInject::new\<close> counts the new handle and evaluates the projection on the data.\<close>

definition inject_new :: "ArcInner \<Rightarrow> ArcInner option" where
  "inject_new a = do {
     live a;
     let a = a\<lparr>strong := strong a + 1\<rparr>;
     deref a;
     Some a
   }"

definition inject_deref :: "ArcInner \<Rightarrow> unit option" where
  "inject_deref a = do { live a; assert_that (\<not> data_dropped a) }"

definition deref_inner :: "ArcInner \<Rightarrow> unit option" where
  "deref_inner a = deref a"

definition weak_inner_data :: "ArcInner \<Rightarrow> ArcInner option" where
  "weak_inner_data a = do { live a; Some (a\<lparr>weak := weak a + 1\<rparr>) }"

definition weak_from :: "ArcInner \<Rightarrow> ArcInner option" where
  "weak_from this = weak_inner_data this"

definition downgrade :: "ArcInner \<Rightarrow> ArcInner option" where
  "downgrade this = weak_from this"

text \<open>
  The compare-and-exchange loop of \<^verbatim>\<open>WeakInject::upgrade\<close>, without interference: the exchange with the
  value just loaded succeeds. The result says whether a strong handle was made.
\<close>

definition upgrade :: "ArcInner \<Rightarrow> (bool \<times> ArcInner) option" where
  "upgrade a = do {
     live a;
     let n = strong a;
     if n = 0 then Some (False, a)
     else do {
       n' \<leftarrow> checked_add n 1;
       Some (True, a\<lparr>strong := n'\<rparr>)
     }
   }"

text \<open>Cloning a handle copies the pointers and does not touch the counters.\<close>

definition clone_inject :: "ArcInner \<Rightarrow> ArcInner" where
  "clone_inject a = a"

definition clone_weak :: "ArcInner \<Rightarrow> ArcInner" where
  "clone_weak a = a"

definition inject_drop :: "ArcInner \<Rightarrow> ArcInner option" where
  "inject_drop a = dec_strong_and_drop a"

definition weak_drop :: "ArcInner \<Rightarrow> ArcInner option" where
  "weak_drop a = dec_weak_and_drop a"

text \<open>
  \<^verbatim>\<open>uninject_alloc\<close> copies the handle's pointer into an \<^verbatim>\<open>Arc\<close> and drops the handle at the end of the
  function.
\<close>

definition uninject_alloc :: "ArcInner \<Rightarrow> ArcInner option" where
  "uninject_alloc a = inject_drop a"

text \<open>
  \<^verbatim>\<open>new_std\<close> reads the pointer of an \<^verbatim>\<open>Arc\<close> of the standard library as a pointer to an \<^verbatim>\<open>ArcInner\<close>, whose layout
  is the same. That library counts all strong handles together as one weak handle: a new box has a
  weak count of one, and the last strong handle gives that one up.
\<close>

definition std_arc_new :: ArcInner where
  "std_arc_new = \<lparr>strong = 1, weak = 1, data_dropped = False, freed = False\<rparr>"

definition std_arc_drop :: "ArcInner \<Rightarrow> ArcInner option" where
  "std_arc_drop a = do {
     live a;
     let old = strong a;
     let a = a\<lparr>strong := old - 1\<rparr>;
     if old \<noteq> 1 then Some a
     else do {
       a \<leftarrow> drop_data a;
       let old = weak a;
       let a = a\<lparr>weak := old - 1\<rparr>;
       if old = 1 then drop_self a else Some a
     }
   }"

definition new_std :: "ArcInner \<Rightarrow> ArcInner option" where
  "new_std a = do {
     live a;
     let a = a\<lparr>strong := strong a + 1\<rparr>;
     deref a;
     Some a
   }"

section \<open>Programs that use the handles\<close>

datatype arc_op = Inject | Downgrade | Upgrade | CloneInject | DropInject | DropWeak | Read

record arc_state =
  inner :: ArcInner
  injects :: nat
  weaks :: nat

definition arc_start :: arc_state where
  "arc_start = \<lparr>inner = arc_new, injects = 0, weaks = 0\<rparr>"

text \<open>The \<^verbatim>\<open>Arc\<close> itself lives to the end; an operation on a handle needs such a handle.\<close>

fun arc_enabled :: "arc_op \<Rightarrow> arc_state \<Rightarrow> bool" where
  "arc_enabled Inject s = True"
| "arc_enabled Downgrade s = (0 < injects s)"
| "arc_enabled Upgrade s = (0 < weaks s)"
| "arc_enabled CloneInject s = (0 < injects s)"
| "arc_enabled DropInject s = (0 < injects s)"
| "arc_enabled DropWeak s = (0 < weaks s)"
| "arc_enabled Read s = True"

fun arc_exec :: "arc_op \<Rightarrow> arc_state \<Rightarrow> arc_state option" where
  "arc_exec Inject s = do { a \<leftarrow> inject_new (inner s); Some (s\<lparr>inner := a, injects := injects s + 1\<rparr>) }"
| "arc_exec Downgrade s = do { a \<leftarrow> downgrade (inner s); Some (s\<lparr>inner := a, weaks := weaks s + 1\<rparr>) }"
| "arc_exec Upgrade s = do {
     (ok, a) \<leftarrow> upgrade (inner s);
     Some (s\<lparr>inner := a, injects := if ok then injects s + 1 else injects s\<rparr>)
   }"
| "arc_exec CloneInject s = Some (s\<lparr>inner := clone_inject (inner s), injects := injects s + 1\<rparr>)"
| "arc_exec DropInject s = do { a \<leftarrow> inject_drop (inner s); Some (s\<lparr>inner := a, injects := injects s - 1\<rparr>) }"
| "arc_exec DropWeak s = do { a \<leftarrow> weak_drop (inner s); Some (s\<lparr>inner := a, weaks := weaks s - 1\<rparr>) }"
| "arc_exec Read s = do { deref (inner s); Some s }"

text \<open>The states that programs reach which neither clone handles nor drop weak ones.\<close>

inductive arc_reachable :: "arc_state \<Rightarrow> bool" where
  arc_init: "arc_reachable arc_start"
| arc_step: "arc_reachable s \<Longrightarrow> arc_enabled op s \<Longrightarrow> op \<noteq> CloneInject \<Longrightarrow> op \<noteq> DropWeak \<Longrightarrow>
     injects s + weaks s + 2 < 2 ^ 64 \<Longrightarrow> arc_exec op s = Some s' \<Longrightarrow> arc_reachable s'"

section \<open>The invariant\<close>

definition arc_inv :: "arc_state \<Rightarrow> bool" where
  "arc_inv s \<longleftrightarrow> unat (strong (inner s)) = injects s + 1 \<and> unat (weak (inner s)) = weaks s
     \<and> \<not> data_dropped (inner s) \<and> \<not> freed (inner s)"

lemma unat_inc: "unat w + 1 < 2 ^ 64 \<Longrightarrow> unat (w + 1 :: usize) = unat w + 1"
  using unat_add_no_overflow [of w 1] by simp

lemma unat_dec: "unat w = Suc n \<Longrightarrow> unat (w - 1 :: usize) = n"
  by (subst unat_sub) (auto simp: word_le_nat_alt)

lemmas arc_op_defs =
  live_def drop_data_def drop_self_def dec_strong_and_drop_def dec_weak_and_drop_def deref_def
  inject_new_def inject_deref_def deref_inner_def weak_inner_data_def weak_from_def downgrade_def upgrade_def inject_drop_def weak_drop_def

lemma arc_inv_exec:
  assumes inv: "arc_inv s" and "arc_enabled op s" "op \<noteq> CloneInject" "op \<noteq> DropWeak"
    and bound: "injects s + weaks s + 2 < 2 ^ 64"
  shows "\<exists>s'. arc_exec op s = Some s' \<and> arc_inv s'"
proof -
  have st: "unat (strong (inner s)) = injects s + 1" "unat (weak (inner s)) = weaks s"
    and ok: "\<not> data_dropped (inner s)" "\<not> freed (inner s)"
    using inv by (simp_all add: arc_inv_def)
  have inc: "unat (strong (inner s) + 1) = injects s + 2" "unat (weak (inner s) + 1) = weaks s + 1"
    using unat_inc [of "strong (inner s)"] unat_inc [of "weak (inner s)"] st bound by simp_all
  show ?thesis
  proof (cases op)
    case Inject
    then show ?thesis using st ok inc by (simp add: arc_op_defs arc_inv_def assert_that_def)
  next
    case Downgrade
    then show ?thesis using st ok inc by (simp add: arc_op_defs arc_inv_def assert_that_def)
  next
    case Upgrade
    moreover have "strong (inner s) \<noteq> 0" using st(1) by auto
    moreover have "checked_add (strong (inner s)) 1 = Some (strong (inner s) + 1)"
      using st bound by (simp add: checked_add_def)
    ultimately show ?thesis using st ok inc by (simp add: arc_op_defs arc_inv_def assert_that_def)
  next
    case DropInject
    then have n: "0 < injects s" using assms(2) by simp
    then have "strong (inner s) \<noteq> 1" using st(1) by auto
    moreover have "unat (strong (inner s) - 1) = injects s"
      using unat_dec [of "strong (inner s)" "injects s"] st(1) by simp
    ultimately show ?thesis using DropInject st ok n by (simp add: arc_op_defs arc_inv_def assert_that_def)
  next
    case Read
    then show ?thesis using inv ok by (simp add: arc_op_defs assert_that_def)
  qed (use assms in simp_all)
qed

lemma arc_reachable_inv: "arc_reachable s \<Longrightarrow> arc_inv s"
proof (induction rule: arc_reachable.induct)
  case arc_init
  then show ?case by (simp add: arc_inv_def arc_start_def arc_new_def arc_inner_new_def)
next
  case (arc_step s op s')
  with arc_inv_exec [of s op] show ?case by auto
qed

section \<open>Properties\<close>

text \<open>
  As long as handles are not cloned and weak handles not dropped, the counters are exact (the
  strong count is one more than the number of strong handles, for the \<^verbatim>\<open>Arc\<close> itself), the box is
  never freed, the data never dropped, and every operation is defined.
\<close>

theorem arc_counts_exact:
  assumes "arc_reachable s" and "arc_enabled op s" and "op \<noteq> CloneInject" and "op \<noteq> DropWeak"
    and "injects s + weaks s + 2 < 2 ^ 64"
  shows "unat (strong (inner s)) = injects s + 1 \<and> unat (weak (inner s)) = weaks s
    \<and> \<not> freed (inner s) \<and> \<not> data_dropped (inner s) \<and> (\<exists>s'. arc_exec op s = Some s' \<and> arc_reachable s')"
proof -
  note inv = arc_reachable_inv [OF assms(1)]
  from arc_inv_exec [OF inv assms(2-5)] obtain s' where s': "arc_exec op s = Some s'" by blast
  with arc_step [OF assms(1-5)] inv show ?thesis by (auto simp: arc_inv_def)
qed

theorem arc_counts_exact_witness: "\<exists>s'. arc_exec Inject arc_start = Some s' \<and> arc_reachable s'"
  using arc_counts_exact [OF arc_init, of Inject] by (simp add: arc_start_def)

text \<open>
  C40. Dropping the last weak handle frees the box even though strong handles are left: in every
  reachable state with one weak handle it leads to a state in which reading the data through the
  surviving handles is undefined behaviour. Cloning a strong handle and dropping both copies frees
  the box under the \<^verbatim>\<open>Arc\<close> that is still alive.
\<close>

theorem arc_use_after_free:
  assumes "arc_reachable s" and "weaks s = 1"
  shows "(\<exists>s'. arc_exec DropWeak s = Some s' \<and> injects s' = injects s \<and> strong (inner s') = strong (inner s)
      \<and> arc_exec Read s' = None)
    \<and> (\<exists>s'. foldM arc_exec [Inject, CloneInject, DropInject, DropInject] arc_start = Some s'
        \<and> arc_exec Read s' = None)"
proof -
  from arc_reachable_inv [OF assms(1)] assms(2) have "unat (weak (inner s)) = unat (1 :: usize)"
    "unat (strong (inner s)) \<noteq> 0" "\<not> freed (inner s)"
    by (simp_all add: arc_inv_def)
  then have "weak (inner s) = 1" "strong (inner s) \<noteq> 0" "\<not> freed (inner s)"
    by (auto simp: word_unat_eq_iff)
  then show ?thesis
    by (simp add: arc_op_defs assert_that_def arc_start_def arc_new_def arc_inner_new_def clone_inject_def)
qed

theorem arc_use_after_free_witness:
  "\<exists>s s'. arc_reachable s \<and> arc_exec DropWeak s = Some s' \<and> arc_exec Read s' = None"
proof -
  let ?s1 = "\<lparr>inner = \<lparr>strong = 2, weak = 0, data_dropped = False, freed = False\<rparr>, injects = 1, weaks = 0\<rparr>"
  let ?s2 = "\<lparr>inner = \<lparr>strong = 2, weak = 1, data_dropped = False, freed = False\<rparr>, injects = 1, weaks = 1\<rparr>"
  have "arc_exec Inject arc_start = Some ?s1"
    by (simp add: arc_op_defs assert_that_def arc_start_def arc_new_def arc_inner_new_def)
  then have s1: "arc_reachable ?s1"
    using arc_step [OF arc_init, of Inject ?s1] by (simp add: arc_start_def)
  have "arc_exec Downgrade ?s1 = Some ?s2" by (simp add: arc_op_defs assert_that_def)
  then have s2: "arc_reachable ?s2"
    using arc_step [OF s1, of Downgrade ?s2] by simp
  from arc_use_after_free [OF this] show ?thesis using s2 by auto
qed

text \<open>
  A handle on an \<^verbatim>\<open>Arc\<close> of the standard library: when the \<^verbatim>\<open>Arc\<close> is dropped last the box is freed; when the
  handle is dropped last its data is dropped but the box is leaked, since its weak count is still one.
\<close>

theorem std_arc_last_handle:
  "(do { a \<leftarrow> new_std std_arc_new; a \<leftarrow> inject_drop a; std_arc_drop a })
      = Some \<lparr>strong = 0, weak = 0, data_dropped = True, freed = True\<rparr>
   \<and> (do { a \<leftarrow> new_std std_arc_new; a \<leftarrow> std_arc_drop a; inject_drop a })
      = Some \<lparr>strong = 0, weak = 1, data_dropped = True, freed = False\<rparr>"
  by (simp add: arc_op_defs new_std_def std_arc_new_def std_arc_drop_def assert_that_def)

end
