(* ===== verification/Notify.thy ===== *)
theory Notify
  imports Kernel_Prelude
begin

text \<open>
  \<^verbatim>\<open>kernel_main/src/local_notify.rs\<close> and \<^verbatim>\<open>kernel_main/src/wait_future.rs\<close>: the two primitives with
  which futures of one hart wait for each other and for interrupt handlers. A waker is a value of type
  \<open>'w\<close>; waking it by reference is recorded. The \<^verbatim>\<open>RefCell\<close> borrows and the guards of the mutexes never
  overlap on one hart, provided that a waker does not call back into the primitive.
\<close>

section \<open>Notify\<close>

record 'w Notify =
  transmit_waker :: "bool \<times> 'w option"
  receive_waker :: "bool \<times> 'w option"
  notified :: "'w list"

definition notify_default :: "'w Notify" where
  "notify_default = \<lparr>transmit_waker = (False, None), receive_waker = (False, None), notified = []\<rparr>"

definition try_wake_tx :: "'w Notify \<Rightarrow> unit option \<times> 'w Notify" where
  "try_wake_tx self =
     (let self = self\<lparr>transmit_waker := (True, snd (transmit_waker self))\<rparr>
      in case snd (transmit_waker self) of
           None \<Rightarrow> (None, self)
         | Some w \<Rightarrow> (Some (), self\<lparr>notified := notified self @ [w]\<rparr>))"

definition wake_tx :: "'w Notify \<Rightarrow> 'w Notify option" where
  "wake_tx self = (case try_wake_tx self of (Some u, self) \<Rightarrow> Some self | (None, self) \<Rightarrow> None)"

definition register_tx :: "'w \<Rightarrow> 'w Notify \<Rightarrow> 'w Notify" where
  "register_tx w self = self\<lparr>transmit_waker := (fst (transmit_waker self), Some w)\<rparr>"

definition try_wake_rx :: "'w Notify \<Rightarrow> unit option \<times> 'w Notify" where
  "try_wake_rx self =
     (let self = self\<lparr>receive_waker := (True, snd (receive_waker self))\<rparr>
      in case snd (receive_waker self) of
           None \<Rightarrow> (None, self)
         | Some w \<Rightarrow> (Some (), self\<lparr>notified := notified self @ [w]\<rparr>))"

definition wake_rx :: "'w Notify \<Rightarrow> 'w Notify option" where
  "wake_rx self = (case try_wake_rx self of (Some u, self) \<Rightarrow> Some self | (None, self) \<Rightarrow> None)"

definition register_rx :: "'w \<Rightarrow> 'w Notify \<Rightarrow> 'w Notify" where
  "register_rx w self =
     (let self = self\<lparr>receive_waker := (fst (receive_waker self), Some w)\<rparr> in snd (try_wake_tx self))"

definition WaitForTxFuture_poll :: "'w \<Rightarrow> 'w Notify \<Rightarrow> unit Poll \<times> 'w Notify" where
  "WaitForTxFuture_poll w self =
     (if fst (receive_waker self)
      then (Ready (), self\<lparr>receive_waker := (False, snd (receive_waker self))\<rparr>)
      else (Pending, register_rx w self))"

definition WaitForRxFuture_poll :: "'w \<Rightarrow> 'w Notify \<Rightarrow> unit Poll \<times> 'w Notify" where
  "WaitForRxFuture_poll w self =
     (if fst (transmit_waker self) then (Ready (), self) else (Pending, register_tx w self))"

section \<open>Waiting for a call\<close>

record ('a, 'w, 's) WaitForFunctionCallFuture =
  someone_waiting :: bool
  ready :: "'a option"
  ready_waker :: "'w option"
  waiting_waker :: "'w option"
  woken_by_call :: "'w list"
  call_env :: 's

definition wait_future_new :: "'s \<Rightarrow> ('a, 'w, 's) WaitForFunctionCallFuture" where
  "wait_future_new e = \<lparr>someone_waiting = False, ready = None, ready_waker = None, waiting_waker = None,
     woken_by_call = [], call_env = e\<rparr>"

definition wait_future_wake :: "'a \<Rightarrow> ('a, 'w, 's) WaitForFunctionCallFuture \<Rightarrow> ('a, 'w, 's) WaitForFunctionCallFuture" where
  "wait_future_wake data self =
     (let self = self\<lparr>ready := Some data\<rparr>
      in case ready_waker self of
           Some e \<Rightarrow> self\<lparr>woken_by_call := woken_by_call self @ [e]\<rparr>
         | None \<Rightarrow> self)"

definition wait_future_poll ::
  "('s \<Rightarrow> 's) \<Rightarrow> 'w \<Rightarrow> ('a, 'w, 's) WaitForFunctionCallFuture \<Rightarrow> 'a Poll \<times> ('a, 'w, 's) WaitForFunctionCallFuture" where
  "wait_future_poll enable w self =
     (case ready self of
        Some data \<Rightarrow> (Ready data, self\<lparr>ready := None\<rparr>)
      | None \<Rightarrow>
          let self = self\<lparr>someone_waiting := True\<rparr>;
              self = (case waiting_waker self of
                        Some e \<Rightarrow> self\<lparr>woken_by_call := woken_by_call self @ [e]\<rparr>
                      | None \<Rightarrow> self);
              self = self\<lparr>ready_waker := Some w\<rparr>
          in (Pending, self\<lparr>call_env := enable (call_env self)\<rparr>))"

section \<open>Sequences of operations\<close>

datatype 'w notify_op = TryWakeTx | TryWakeRx | PollTx 'w | PollRx 'w

fun notify_exec :: "'w notify_op \<Rightarrow> 'w Notify \<Rightarrow> 'w Notify" where
  "notify_exec TryWakeTx n = snd (try_wake_tx n)"
| "notify_exec TryWakeRx n = snd (try_wake_rx n)"
| "notify_exec (PollTx w) n = snd (WaitForTxFuture_poll w n)"
| "notify_exec (PollRx w) n = snd (WaitForRxFuture_poll w n)"

fun is_PollTx :: "'w notify_op \<Rightarrow> bool" where
  "is_PollTx (PollTx w) = True"
| "is_PollTx op = False"

lemmas notify_defs =
  try_wake_tx_def try_wake_rx_def register_tx_def register_rx_def WaitForTxFuture_poll_def WaitForRxFuture_poll_def

text \<open>What one operation that does not poll for the transmitter does to the receiver's half.\<close>

lemma notify_exec_receive:
  assumes "\<not> is_PollTx op"
  shows "snd (receive_waker (notify_exec op n)) = snd (receive_waker n)
    \<and> fst (receive_waker (notify_exec op n)) = (fst (receive_waker n) \<or> op = TryWakeRx)
    \<and> set (notified n) \<subseteq> set (notified (notify_exec op n))
    \<and> (op = TryWakeRx \<longrightarrow> (\<forall>w. snd (receive_waker n) = Some w \<longrightarrow> w \<in> set (notified (notify_exec op n))))"
  using assms by (cases op) (auto simp: notify_defs Let_def split: option.splits)

lemma notify_run_receive:
  assumes "\<forall>op\<in>set ops. \<not> is_PollTx op"
  shows "snd (receive_waker (fold notify_exec ops n)) = snd (receive_waker n)
    \<and> fst (receive_waker (fold notify_exec ops n)) = (fst (receive_waker n) \<or> TryWakeRx \<in> set ops)
    \<and> set (notified n) \<subseteq> set (notified (fold notify_exec ops n))
    \<and> (TryWakeRx \<in> set ops \<longrightarrow> (\<forall>w. snd (receive_waker n) = Some w \<longrightarrow> w \<in> set (notified (fold notify_exec ops n))))"
  using assms
proof (induction ops arbitrary: n)
  case (Cons op ops)
  define m where "m = notify_exec op n"
  have op: "\<not> is_PollTx op" and ops: "\<forall>op\<in>set ops. \<not> is_PollTx op" using Cons.prems by simp_all
  note a = notify_exec_receive [OF op, of n, folded m_def] and b = Cons.IH [OF ops, of m]
  have "snd (receive_waker (fold notify_exec ops m)) = snd (receive_waker n)" using a b by argo
  moreover have "fst (receive_waker (fold notify_exec ops m)) = (fst (receive_waker n) \<or> op = TryWakeRx \<or> TryWakeRx \<in> set ops)"
    using a b by argo
  moreover have "set (notified n) \<subseteq> set (notified (fold notify_exec ops m))" using a b by blast
  moreover have "w \<in> set (notified (fold notify_exec ops m))"
    if "op = TryWakeRx \<or> TryWakeRx \<in> set ops" "snd (receive_waker n) = Some w" for w
    using a b that by (metis subsetD)
  ultimately show ?case by (auto simp flip: m_def)
qed simp

lemma notify_transmit_sticky:
  "fst (transmit_waker n) \<Longrightarrow> fst (transmit_waker (fold notify_exec ops n))"
proof (induction ops arbitrary: n)
  case (Cons op ops)
  have "fst (transmit_waker (notify_exec op n))"
    using Cons.prems by (cases op) (auto simp: notify_defs Let_def split: option.splits)
  then show ?case using Cons.IH by simp
qed simp

section \<open>Properties\<close>

text \<open>
  C30. No notification is lost: if a poll for the transmitter was pending and then, in any order with
  other operations but no further such poll, the receiver is woken at least once, the waker of that poll
  has been woken and the next poll is ready, once; without such a wake the next poll is pending again.
  The other direction never closes: once the transmitter's flag is set, every poll for the receiver is
  ready forever.
\<close>

theorem notify_no_lost_notification:
  assumes "WaitForTxFuture_poll w n = (Pending, n1)" and "\<forall>op\<in>set ops. \<not> is_PollTx op"
    and "n2 = fold notify_exec ops n1"
  shows "(TryWakeRx \<in> set ops \<longrightarrow> w \<in> set (notified n2)
        \<and> (\<exists>n3. WaitForTxFuture_poll v n2 = (Ready (), n3) \<and> fst (WaitForTxFuture_poll v n3) = Pending))
    \<and> (TryWakeRx \<notin> set ops \<longrightarrow> fst (WaitForTxFuture_poll v n2) = Pending)
    \<and> fst (WaitForRxFuture_poll v (fold notify_exec ops' n2)) = Ready ()"
proof -
  have n1: "fst (receive_waker n1) = False" "snd (receive_waker n1) = Some w" "fst (transmit_waker n1)"
    using assms(1) by (auto simp: notify_defs Let_def split: if_splits option.splits)
  have "fst (transmit_waker (fold notify_exec ops' n2))"
    unfolding assms(3) by (intro notify_transmit_sticky n1(3))
  then show ?thesis
    using notify_run_receive [OF assms(2), of n1] n1 unfolding assms(3) [symmetric]
    by (auto simp: WaitForTxFuture_poll_def WaitForRxFuture_poll_def)
qed

theorem notify_no_lost_notification_witness:
  "\<exists>n3. WaitForTxFuture_poll (8 :: nat)
      (fold notify_exec [PollRx 1, TryWakeRx, TryWakeTx] (snd (WaitForTxFuture_poll 7 notify_default))) = (Ready (), n3)"
proof -
  let ?n = "snd (WaitForTxFuture_poll (7 :: nat) notify_default)"
  have a: "WaitForTxFuture_poll 7 notify_default = (Pending, ?n)"
    by (simp add: WaitForTxFuture_poll_def notify_default_def)
  have b: "\<forall>op\<in>set [PollRx 1, TryWakeRx, TryWakeTx]. \<not> is_PollTx op" by simp
  have "TryWakeRx \<in> set [PollRx (1 :: nat), TryWakeRx, TryWakeTx]" by simp
  with notify_no_lost_notification [OF a b refl, of 8 "[]"] show ?thesis by blast
qed

lemma wait_future_wakes:
  assumes "ready_waker f = Some w"
  shows "ready_waker (fold wait_future_wake ds f) = Some w
    \<and> woken_by_call (fold wait_future_wake ds f) = woken_by_call f @ replicate (length ds) w"
  using assms
proof (induction ds arbitrary: f)
  case (Cons d ds)
  have "ready_waker (wait_future_wake d f) = Some w" "woken_by_call (wait_future_wake d f) = woken_by_call f @ [w]"
    using Cons.prems by (simp_all add: wait_future_wake_def Let_def)
  with Cons.IH [of "wait_future_wake d f"] show ?case by simp
qed simp

lemma wait_future_ready:
  assumes "ds \<noteq> []" shows "ready (fold wait_future_wake ds f) = Some (last ds)"
proof -
  from assms obtain xs d where "ds = xs @ [d]" by (cases ds rule: rev_cases) auto
  then show ?thesis by (simp add: wait_future_wake_def Let_def split: option.split)
qed

text \<open>
  The future that waits for a call: after a pending poll, each call wakes the waker of that poll; the
  next poll takes the data of the last call (the earlier ones are overwritten), and the one after it is
  pending. A call with nobody waiting is kept for the next poll.
\<close>

theorem wait_future_delivers_last:
  assumes "wait_future_poll enable w f = (Pending, f1)" and "ds \<noteq> []"
  shows "woken_by_call (fold wait_future_wake ds f1) = woken_by_call f1 @ replicate (length ds) w
    \<and> (\<exists>f2. wait_future_poll enable v (fold wait_future_wake ds f1) = (Ready (last ds), f2)
         \<and> fst (wait_future_poll enable v f2) = Pending)
    \<and> fst (wait_future_poll enable v (fold wait_future_wake ds g)) = Ready (last ds)"
proof -
  have "ready_waker f1 = Some w"
    using assms(1) by (auto simp: wait_future_poll_def Let_def split: option.splits)
  with wait_future_wakes [of f1 w ds] show ?thesis
    by (simp add: wait_future_poll_def wait_future_ready [OF assms(2)] Let_def split: option.split)
qed

theorem wait_future_delivers_last_witness:
  "\<exists>f2. wait_future_poll Suc (3 :: nat) (fold wait_future_wake [1, 2 :: int] (snd (wait_future_poll Suc (4 :: nat) (wait_future_new 0))))
      = (Ready 2, f2)"
proof -
  have "wait_future_poll Suc (4 :: nat) (wait_future_new 0) = (Pending, snd (wait_future_poll Suc (4 :: nat) (wait_future_new 0 :: (int, nat, nat) WaitForFunctionCallFuture)))"
    by (simp add: wait_future_poll_def wait_future_new_def Let_def)
  from wait_future_delivers_last [OF this, of "[1, 2]" 3 "wait_future_new 0"] show ?thesis by auto
qed

end
