(* ===== verification/Hart_Locals.thy ===== *)
theory Hart_Locals
  imports Boot_Kernel Notify
begin

text \<open>
  The data of a hart (\<^verbatim>\<open>HartLocals\<close> in \<^verbatim>\<open>kernel_main/src/main.rs\<close>) and how each hart comes to it: the first hart
  creates the shared executor in \<^verbatim>\<open>async_main\<close>, every hart stores its locals behind the trap frame that its
  \<^verbatim>\<open>sscratch\<close> register points to. The handles of the executors are pointers, the types \<open>'l\<close> and \<open>'g\<close>.
\<close>

record ('l, 'g, 'w) HartLocals =
  local_executor :: "'l option"
  executor :: "'g option"
  trap_notify :: "'w Notify"
  timer_happened_notify :: "'w Notify"
  timer_scheduled_notify :: "'w Notify"
  timer_queue :: "(u64 \<times> 'w Notify) list"

definition hart_locals_default :: "('l, 'g, 'w) HartLocals" where
  "hart_locals_default = \<lparr>local_executor = None, executor = None, trap_notify = notify_default,
     timer_happened_notify = notify_default, timer_scheduled_notify = notify_default, timer_queue = []\<rparr>"

text \<open>The harts, numbered by their place in the list, the boxes of the locals and the shared executor.\<close>

record ('l, 'g, 'w) hart_system =
  harts :: "Hart list"
  locals_store :: "usize \<rightharpoonup> ('l, 'g, 'w) HartLocals"
  GLOBAL_EXECUTOR :: "'g option"

definition HartLocals_current :: "Hart \<Rightarrow> (usize \<rightharpoonup> ('l, 'g, 'w) HartLocals) \<Rightarrow> ('l, 'g, 'w) HartLocals option" where
  "HartLocals_current h boxes = do {
     frame \<leftarrow> current_frame h;
     assert_that (hart_locals frame \<noteq> 0);
     boxes (hart_locals frame)
   }"

text \<open>What the allocator and the linker give to the set-up of one hart.\<close>

record 'l setup_args =
  set_trap_vector :: usize
  set_locals :: usize
  set_stack_end :: usize
  set_frame :: usize
  set_hartid :: usize
  set_local_executor :: 'l

text \<open>\<^verbatim>\<open>setup_hart_state_and_metadata\<close> with the locals; the shared executor must be there.\<close>

definition setup_hart_metadata ::
  "'l setup_args \<Rightarrow> nat \<Rightarrow> ('l, 'g, 'w) hart_system \<Rightarrow> ('l, 'g, 'w) hart_system option" where
  "setup_hart_metadata a i s = do {
     handle \<leftarrow> GLOBAL_EXECUTOR s;
     let hart_locals = hart_locals_default\<lparr>local_executor := Some (set_local_executor a), executor := Some handle\<rparr>;
     assert_that (i < length (harts s));
     let h = setup_hart_state_and_metadata (set_trap_vector a) (set_locals a) (set_stack_end a) (set_frame a)
               (set_hartid a) (harts s ! i);
     Some (s\<lparr>harts := (harts s)[i := h], locals_store := (locals_store s)(set_locals a \<mapsto> hart_locals)\<rparr>)
   }"

text \<open>The first hart, up to the loop that starts the others; the other harts in \<^verbatim>\<open>setup_hart\<close>.\<close>

definition async_main_setup ::
  "'g \<Rightarrow> 'l setup_args \<Rightarrow> nat \<Rightarrow> ('l, 'g, 'w) hart_system \<Rightarrow> ('l, 'g, 'w) hart_system option" where
  "async_main_setup handle a i s = setup_hart_metadata a i (s\<lparr>GLOBAL_EXECUTOR := Some handle\<rparr>)"

definition start_system ::
  "'g \<Rightarrow> 'l setup_args \<Rightarrow> 'l setup_args list \<Rightarrow> ('l, 'g, 'w) hart_system \<Rightarrow> ('l, 'g, 'w) hart_system option" where
  "start_system handle a as s = do {
     s \<leftarrow> async_main_setup handle a 0 s;
     foldM (\<lambda>(i, a). setup_hart_metadata a i) (zip [1..<Suc (length as)] as) s
   }"

section \<open>Every hart finds its own locals\<close>

text \<open>The boxes that the allocator gives out do not overlap and are not null.\<close>

definition set_args_ok :: "'l setup_args list \<Rightarrow> bool" where
  "set_args_ok as \<longleftrightarrow> distinct (map set_locals as) \<and> (\<forall>a\<in>set as. set_locals a \<noteq> 0 \<and> set_frame a \<noteq> 0)"

definition locals_of :: "'g \<Rightarrow> 'l setup_args \<Rightarrow> ('l, 'g, 'w) HartLocals" where
  "locals_of handle a = hart_locals_default\<lparr>local_executor := Some (set_local_executor a), executor := Some handle\<rparr>"

definition hart_ready :: "'g \<Rightarrow> 'l setup_args \<Rightarrow> Hart \<Rightarrow> (usize \<rightharpoonup> ('l, 'g, 'w) HartLocals) \<Rightarrow> bool" where
  "hart_ready handle a h boxes \<longleftrightarrow> set_locals a \<noteq> 0 \<and> boxes (set_locals a) = Some (locals_of handle a)
     \<and> (\<exists>frame. current_frame h = Some frame \<and> hart_locals frame = set_locals a \<and> hartid frame = set_hartid a)"

definition system_ready :: "'g \<Rightarrow> 'l setup_args list \<Rightarrow> ('l, 'g, 'w) hart_system \<Rightarrow> bool" where
  "system_ready handle as s \<longleftrightarrow> GLOBAL_EXECUTOR s = Some handle
     \<and> (\<forall>i<length as. hart_ready handle (as ! i) (harts s ! i) (locals_store s))"

lemma hart_ready_current:
  "hart_ready handle a h boxes \<Longrightarrow> HartLocals_current h boxes = Some (locals_of handle a) \<and> load_hartid h = Some (set_hartid a)"
  by (auto simp: hart_ready_def HartLocals_current_def load_hartid_def)

lemma setup_frame:
  assumes "frame_addr \<noteq> 0"
  shows "current_frame (setup_hart_state_and_metadata tv la se frame_addr hid h) = Some
    ((setup_hart_trap_frame hid la)\<lparr>tf_pid := 1, interrupt_stack := se, tf_satp := satp h, kernel_satp := satp h\<rparr>)"
  using assms
  by (simp add: setup_hart_state_and_metadata_def current_frame_def read_sscratch_def write_sscratch_def Let_def
      read_satp_def write_stvec_def write_sstatus_def)

lemma setup_frame_fields [simp]:
  "hartid (setup_hart_trap_frame hid la) = hid" "hart_locals (setup_hart_trap_frame hid la) = la"
  by (simp_all add: setup_hart_trap_frame_def Let_def tf_set_interrupt_context_def)

lemma setup_hart_ready:
  assumes ready: "system_ready handle as s" and args: "set_args_ok (as @ [a])" and len: "length as < length (harts s)"
  shows "\<exists>s'. setup_hart_metadata a (length as) s = Some s' \<and> system_ready handle (as @ [a]) s'
    \<and> length (harts s') = length (harts s)"
proof -
  let ?h = "setup_hart_state_and_metadata (set_trap_vector a) (set_locals a) (set_stack_end a) (set_frame a)
    (set_hartid a) (harts s ! length as)"
  let ?s = "s\<lparr>harts := (harts s)[length as := ?h], locals_store := (locals_store s)(set_locals a \<mapsto> locals_of handle a)\<rparr>"
  have a: "set_locals a \<noteq> 0" "set_frame a \<noteq> 0" "set_locals a \<notin> set (map set_locals as)"
    using args by (auto simp: set_args_ok_def)
  have run: "setup_hart_metadata a (length as) s = Some ?s"
    using ready len by (simp add: setup_hart_metadata_def system_ready_def locals_of_def Let_def)
  have "hart_ready handle ((as @ [a]) ! i) (harts ?s ! i) (locals_store ?s)" if i: "i < length (as @ [a])" for i
  proof (cases "i = length as")
    case True
    then show ?thesis using a len by (simp add: hart_ready_def setup_frame)
  next
    case False
    then have "i < length as" using i by simp
    moreover from this have "set_locals (as ! i) \<noteq> set_locals a" using a(3) by (metis length_map nth_map nth_mem)
    ultimately show ?thesis using ready by (auto simp: system_ready_def hart_ready_def nth_append)
  qed
  then have "system_ready handle (as @ [a]) ?s" using ready by (simp add: system_ready_def)
  with run show ?thesis by (intro exI [of _ ?s]) simp
qed

lemma setup_all_ready:
  "system_ready handle as0 s \<Longrightarrow> set_args_ok (as0 @ as) \<Longrightarrow> length as0 + length as \<le> length (harts s) \<Longrightarrow>
   \<exists>s'. foldM (\<lambda>(i, a). setup_hart_metadata a i) (zip [length as0..<length as0 + length as] as) s = Some s'
     \<and> system_ready handle (as0 @ as) s'"
proof (induction "as" arbitrary: as0 s)
  case Nil
  then show ?case by simp
next
  case (Cons a "as")
  have "set_args_ok (as0 @ [a])" using Cons.prems(2) by (auto simp: set_args_ok_def)
  from setup_hart_ready [OF Cons.prems(1) this] Cons.prems(3) obtain s1 where
    s1: "setup_hart_metadata a (length as0) s = Some s1" "system_ready handle (as0 @ [a]) s1"
    "length (harts s1) = length (harts s)" by auto
  from Cons.IH [OF s1(2)] Cons.prems s1(3) obtain s' where
    "foldM (\<lambda>(i, a). setup_hart_metadata a i) (zip [length (as0 @ [a])..<length (as0 @ [a]) + length as] as) s1 = Some s'"
    "system_ready handle ((as0 @ [a]) @ as) s'" by auto
  moreover have "[length as0..<length as0 + length (a # as)] = length as0 # [length (as0 @ [a])..<length (as0 @ [a]) + length as]"
    by (simp add: upt_conv_Cons del: upt_Suc)
  ultimately show ?case using s1(1) by simp
qed

text \<open>
  C23. When the first hart has created the shared executor and set itself up, and the other harts set
  themselves up one after the other, none of them panics for want of the shared executor; afterwards
  \<^verbatim>\<open>HartLocals::current()\<close> gives every hart its own locals, with its own executor and the shared one, and
  the hart knows its own number.
\<close>

theorem harts_find_their_locals:
  assumes "set_args_ok (a # as)" and "Suc (length as) \<le> length (harts s)"
  shows "\<exists>s'. start_system handle a as s = Some s'
    \<and> (\<forall>i \<le> length as. HartLocals_current (harts s' ! i) (locals_store s') = Some (locals_of handle ((a # as) ! i))
         \<and> load_hartid (harts s' ! i) = Some (set_hartid ((a # as) ! i)))"
proof -
  have "system_ready handle [] (s\<lparr>GLOBAL_EXECUTOR := Some handle\<rparr>)" by (simp add: system_ready_def)
  moreover have "harts s \<noteq> []" "set_args_ok ([] @ [a])" using assms by (auto simp: set_args_ok_def)
  ultimately obtain s1 where
    s1: "async_main_setup handle a 0 s = Some s1" "system_ready handle [a] s1" "length (harts s1) = length (harts s)"
    using setup_hart_ready [of handle "[]" "s\<lparr>GLOBAL_EXECUTOR := Some handle\<rparr>" a] by (auto simp: async_main_setup_def)
  from setup_all_ready [OF s1(2), of "as"] assms s1(3) obtain s' where
    "foldM (\<lambda>(i, a). setup_hart_metadata a i) (zip [1..<Suc (length as)] as) s1 = Some s'" "system_ready handle (a # as) s'"
    by auto
  with s1(1) show ?thesis
    by (intro exI [of _ s']) (auto simp: start_system_def system_ready_def less_Suc_eq_le dest!: hart_ready_current)
qed

section \<open>Shared locks on a hart that has been set up\<close>

text \<open>
  C33. The trap frame of every hart is created in interrupt context (and \<^verbatim>\<open>clear_interrupt_context\<close> is
  called nowhere). So on a hart that has been set up the shared locks do not disable interrupts: taking and releasing a
  free shared mutex leaves the interrupt-enable register and the lock count as they are.
\<close>

theorem setup_hart_shared_locks_keep_interrupts:
  assumes "frame_addr \<noteq> 0" and "\<not> locked l"
    and "hart w = setup_hart_state_and_metadata trap_vector locals_addr stack_end frame_addr hart_id h"
  shows "in_interrupt_context (hart w) = Some True
    \<and> shared_lock (w, l) = Some (w, l\<lparr>locked := True\<rparr>)
    \<and> (\<exists>l'. shared_unlock (w, l\<lparr>locked := True\<rparr>) = Some (w, l') \<and> \<not> locked l')"
proof -
  have "is_interrupt_context (setup_hart_trap_frame hart_id locals_addr)"
    by (simp add: is_interrupt_context_def setup_hart_trap_frame_def Let_def tf_set_interrupt_context_def bit_or_iff
        flip: and_1_iff)
  then have "in_interrupt_context (hart w) = Some True"
    using setup_frame [OF assms(1)] assms(1)
    by (simp add: assms(3) in_interrupt_context_def is_interrupt_context_def)
  then show ?thesis
    using assms(2) by (simp add: shared_lock_def shared_unlock_def lock_and_disable_interrupts_def
        unlock_and_enable_interrupts_if_necessary_def spin_lock_free spin_unlock_def Let_def)
qed

text \<open>Two harts, with boxes at different addresses.\<close>

definition demo_setup :: "usize \<Rightarrow> nat setup_args" where
  "demo_setup i = \<lparr>set_trap_vector = 0x400, set_locals = 0x10000 + 0x1000 * i, set_stack_end = 0x20000 + 0x1000 * i,
     set_frame = 0x30000 + 0x1000 * i, set_hartid = i, set_local_executor = unat i\<rparr>"

definition demo_harts :: "(nat, nat, unit) hart_system" where
  "demo_harts = \<lparr>harts = [hart demo_world, hart demo_world], locals_store = Map.empty, GLOBAL_EXECUTOR = None\<rparr>"

theorem harts_find_their_locals_witness:
  "\<exists>s'. start_system 77 (demo_setup 0) [demo_setup 1] demo_harts = Some s'
    \<and> HartLocals_current (harts s' ! 1) (locals_store s') = Some (locals_of 77 (demo_setup 1))
    \<and> load_hartid (harts s' ! 1) = Some 1"
proof -
  have "set_args_ok [demo_setup 0, demo_setup 1]" "Suc (length [demo_setup 1]) \<le> length (harts demo_harts)"
    by (simp_all add: set_args_ok_def demo_setup_def demo_harts_def)
  from harts_find_their_locals [OF this, of 77] obtain s' where s': "start_system 77 (demo_setup 0) [demo_setup 1] demo_harts = Some s'"
    "\<forall>i \<le> length [demo_setup 1]. HartLocals_current (harts s' ! i) (locals_store s') = Some (locals_of 77 ([demo_setup 0, demo_setup 1] ! i))
         \<and> load_hartid (harts s' ! i) = Some (set_hartid ([demo_setup 0, demo_setup 1] ! i))" by blast
  from s'(2) [THEN spec [of _ 1]] s'(1) show ?thesis by (auto simp: demo_setup_def)
qed

theorem setup_hart_shared_locks_keep_interrupts_witness:
  "shared_lock (demo_world\<lparr>hart := setup_hart_state_and_metadata 0x400 0x10000 0x20000 0x30000 3 (hart demo_world)\<rparr>, spinlock_INIT)
    = Some (demo_world\<lparr>hart := setup_hart_state_and_metadata 0x400 0x10000 0x20000 0x30000 3 (hart demo_world)\<rparr>,
        spinlock_INIT\<lparr>locked := True\<rparr>)"
  using setup_hart_shared_locks_keep_interrupts [of "0x30000" spinlock_INIT
      "demo_world\<lparr>hart := setup_hart_state_and_metadata 0x400 0x10000 0x20000 0x30000 3 (hart demo_world)\<rparr>" "0x400" "0x10000" "0x20000" 3 "hart demo_world"]
  by (simp add: spinlock_INIT_def)

end
