(* ===== verification/Send_Executor.thy ===== *)
theory Send_Executor
  imports Executor_Properties
begin

text \<open>
  The executor that harts share (\<^verbatim>\<open>send_executor.rs\<close>). Its parts are behind mutexes of the \<^verbatim>\<open>spin\<close> crate; the
  model keeps the set of mutexes that are held. Locking one that is held already by the hart itself
  spins forever, which is \<^const>\<open>None\<close>. The guard of \<^verbatim>\<open>self.executor.lock()\<close> lives until the end of its
  statement; that of \<^verbatim>\<open>for i in self.queue.lock().drain(..)\<close> until the end of the loop. The behaviour of
  the tasks is the parameter of the local executor.
\<close>

datatype send_lock = ExecutorLock | WakersLock | WakeQueueLock | TaskQueueLock

record ('t, 'w, 'g) SendExecutor =
  send_tasks :: "'t option list"
  send_wakers :: "'w list"
  send_wake_queue :: "nat list"
  send_task_queue :: "'t list"
  held :: "send_lock set"
  send_woken :: "'w list"
  send_env :: 'g

section \<open>The operations\<close>

definition acquire :: "send_lock \<Rightarrow> ('t, 'w, 'g) SendExecutor \<Rightarrow> ('t, 'w, 'g) SendExecutor option" where
  "acquire l s = do { assert_that (l \<notin> held s); Some (s\<lparr>held := insert l (held s)\<rparr>) }"

definition release :: "send_lock \<Rightarrow> ('t, 'w, 'g) SendExecutor \<Rightarrow> ('t, 'w, 'g) SendExecutor" where
  "release l s = s\<lparr>held := held s - {l}\<rparr>"

definition send_wake :: "nat \<Rightarrow> ('t, 'w, 'g) SendExecutor \<Rightarrow> ('t, 'w, 'g) SendExecutor option" where
  "send_wake index s = do {
     s \<leftarrow> acquire WakeQueueLock s;
     let s = release WakeQueueLock (s\<lparr>send_wake_queue := send_wake_queue s @ [index]\<rparr>);
     s \<leftarrow> acquire WakersLock s;
     Some (release WakersLock (s\<lparr>send_woken := send_woken s @ send_wakers s, send_wakers := []\<rparr>))
   }"

definition send_spawn :: "'t \<Rightarrow> ('t, 'w, 'g) SendExecutor \<Rightarrow> ('t, 'w, 'g) SendExecutor option" where
  "send_spawn task s = do {
     s \<leftarrow> acquire TaskQueueLock s;
     Some (release TaskQueueLock (s\<lparr>send_task_queue := send_task_queue s @ [task]\<rparr>))
   }"

fun send_effect :: "'t effect \<Rightarrow> ('t, 'w, 'g) SendExecutor \<Rightarrow> ('t, 'w, 'g) SendExecutor option" where
  "send_effect (Wake index) s = send_wake index s"
| "send_effect (Spawn task) s = send_spawn task s"

definition send_poll_future ::
  "('t, 'g) behaviour \<Rightarrow> nat \<Rightarrow> ('t, 'w, 'g) SendExecutor \<Rightarrow> ('t, 'w, 'g) SendExecutor option" where
  "send_poll_future beh index s =
     (if index < length (send_tasks s) then
        case send_tasks s ! index of
          None \<Rightarrow> Some s
        | Some task \<Rightarrow>
            let (r, task', effects, g) = beh index task (send_env s)
            in do {
              s \<leftarrow> foldM send_effect effects (s\<lparr>send_env := g\<rparr>);
              Some (s\<lparr>send_tasks := (send_tasks s)[index := if r = Ready () then None else Some task']\<rparr>)
            }
      else Some s)"

definition send_check_if_done :: "('t, 'w, 'g) SendExecutor \<Rightarrow> bool" where
  "send_check_if_done s \<longleftrightarrow> \<not> list_ex (\<lambda>t. t \<noteq> None) (send_tasks s)"

definition send_wake_pending ::
  "('t, 'g) behaviour \<Rightarrow> ('t, 'w, 'g) SendExecutor \<Rightarrow> (bool \<times> ('t, 'w, 'g) SendExecutor) option" where
  "send_wake_pending beh s = do {
     s \<leftarrow> acquire WakeQueueLock s;
     let q = send_wake_queue s;
     let s = release WakeQueueLock (s\<lparr>send_wake_queue := []\<rparr>);
     s \<leftarrow> foldM (send_poll_future beh) q s;
     Some (q = [], s)
   }"

definition send_poll_all ::
  "('t, 'g) behaviour \<Rightarrow> ('t, 'w, 'g) SendExecutor \<Rightarrow> ('t, 'w, 'g) SendExecutor option" where
  "send_poll_all beh s = foldM (send_poll_future beh) [0..<length (send_tasks s)] s"

definition send_push_task ::
  "('t, 'g) behaviour \<Rightarrow> 't \<Rightarrow> ('t, 'w, 'g) SendExecutor \<Rightarrow> (nat \<times> ('t, 'w, 'g) SendExecutor) option" where
  "send_push_task beh task s = do {
     let (index, s) =
       (case first_free (send_tasks s) of
          Some slot \<Rightarrow> (slot, s\<lparr>send_tasks := (send_tasks s)[slot := Some task]\<rparr>)
        | None \<Rightarrow> (length (send_tasks s), s\<lparr>send_tasks := send_tasks s @ [Some task]\<rparr>));
     s \<leftarrow> send_poll_future beh index s;
     Some (index, s)
   }"

definition send_executor_poll ::
  "'w \<Rightarrow> ('t, 'w, 'g) SendExecutor \<Rightarrow> (unit Poll \<times> ('t, 'w, 'g) SendExecutor) option" where
  "send_executor_poll context_waker s = do {
     s \<leftarrow> acquire WakersLock s;
     let s = release WakersLock (s\<lparr>send_wakers := send_wakers s @ [context_waker]\<rparr>);
     Some (if send_check_if_done s then Pending else Ready (), s)
   }"

definition send_drain_queue ::
  "('t, 'g) behaviour \<Rightarrow> ('t, 'w, 'g) SendExecutor \<Rightarrow> ('t, 'w, 'g) SendExecutor option" where
  "send_drain_queue beh s = do {
     s \<leftarrow> acquire TaskQueueLock s;
     s \<leftarrow> foldM (\<lambda>t s. do {
              s \<leftarrow> acquire ExecutorLock s;
              (_, s) \<leftarrow> send_push_task beh t s;
              Some (release ExecutorLock s)
            }) (send_task_queue s) (s\<lparr>send_task_queue := []\<rparr>);
     Some (release TaskQueueLock s)
   }"

definition send_handle_poll ::
  "('t, 'g) behaviour \<Rightarrow> 'w \<Rightarrow> ('t, 'w, 'g) SendExecutor \<Rightarrow> (unit Poll \<times> ('t, 'w, 'g) SendExecutor) option" where
  "send_handle_poll beh context_waker s = do {
     s \<leftarrow> acquire ExecutorLock s;
     s \<leftarrow> send_poll_all beh s;
     let s = release ExecutorLock s;
     s \<leftarrow> send_drain_queue beh s;
     s \<leftarrow> acquire ExecutorLock s;
     (r, s) \<leftarrow> send_executor_poll context_waker s;
     let s = release ExecutorLock s;
     s \<leftarrow> acquire ExecutorLock s;
     (is_empty, s) \<leftarrow> send_wake_pending beh s;
     let s = release ExecutorLock s;
     if \<not> is_empty then do {
       s \<leftarrow> send_drain_queue beh s;
       Some (Pending, s)
     }
     else Some (r, s)
   }"

definition send_executor_new :: "'g \<Rightarrow> ('t, 'w, 'g) SendExecutor" where
  "send_executor_new g = \<lparr>send_tasks = [], send_wakers = [], send_wake_queue = [], send_task_queue = [],
     held = {}, send_woken = [], send_env = g\<rparr>"

section \<open>Refinement of the local executor\<close>

definition local_of :: "('t, 'w, 'g) SendExecutor \<Rightarrow> ('t, 'w, 'g) LocalExecutor" where
  "local_of s = \<lparr>tasks = send_tasks s, outer_wakers = send_wakers s, wake_queue = send_wake_queue s,
     task_queue = send_task_queue s, queue_borrowed = (TaskQueueLock \<in> held s),
     outer_woken = send_woken s, shared_env = send_env s\<rparr>"

text \<open>With the locks \<open>H\<close> held, \<open>f\<close> does what \<open>g\<close> does on the local executor, and gives back the locks it took.\<close>

definition simulates ::
  "send_lock set \<Rightarrow> (('t, 'w, 'g) SendExecutor \<Rightarrow> ('t, 'w, 'g) SendExecutor option)
     \<Rightarrow> (('t, 'w, 'g) LocalExecutor \<Rightarrow> ('t, 'w, 'g) LocalExecutor option) \<Rightarrow> bool" where
  "simulates H f g \<longleftrightarrow> (\<forall>s. held s = H \<longrightarrow>
     (case f s of
        None \<Rightarrow> g (local_of s) = None
      | Some s' \<Rightarrow> held s' = H \<and> g (local_of s) = Some (local_of s')))"

lemma local_of_simps [simp]:
  "tasks (local_of s) = send_tasks s" "outer_wakers (local_of s) = send_wakers s"
  "wake_queue (local_of s) = send_wake_queue s" "task_queue (local_of s) = send_task_queue s"
  "queue_borrowed (local_of s) = (TaskQueueLock \<in> held s)" "outer_woken (local_of s) = send_woken s"
  "shared_env (local_of s) = send_env s"
  by (simp_all add: local_of_def)

lemma simulatesD:
  assumes "simulates H f g" "held s = H"
  shows "f s = None \<Longrightarrow> g (local_of s) = None"
    and "f s = Some s' \<Longrightarrow> held s' = H \<and> g (local_of s) = Some (local_of s')"
  using assms by (auto simp: simulates_def)

lemma simulates_foldM:
  fixes f :: "'x \<Rightarrow> ('t, 'w, 'g) SendExecutor \<Rightarrow> ('t, 'w, 'g) SendExecutor option"
  assumes "\<And>x. simulates H (f x) (g x)"
  shows "simulates H (foldM f xs) (foldM g xs)"
proof (induction xs)
  case Nil
  show ?case by (simp add: simulates_def)
next
  case (Cons x xs)
  show ?case
    unfolding simulates_def
  proof (intro allI impI)
    fix s :: "('t, 'w, 'g) SendExecutor"
    assume s: "held s = H"
    show "case foldM f (x # xs) s of None \<Rightarrow> foldM g (x # xs) (local_of s) = None
        | Some s' \<Rightarrow> held s' = H \<and> foldM g (x # xs) (local_of s) = Some (local_of s')"
      using simulatesD [OF assms s, of x] simulatesD [OF Cons.IH]
      by (cases "f x s") (auto split: option.splits)
  qed
qed

text \<open>While tasks run, only the executor and the queue of spawned tasks can be locked.\<close>

abbreviation outer_locks :: "send_lock set \<Rightarrow> bool" where
  "outer_locks H \<equiv> H \<subseteq> {ExecutorLock, TaskQueueLock}"

lemma simulates_effect:
  assumes "outer_locks H" shows "simulates H (send_effect e) (apply_effect e)"
  using assms
  by (cases e)
    (auto simp: simulates_def send_wake_def send_spawn_def spawn_def rc_wake_by_ref_def acquire_def release_def
      assert_that_def local_of_def split: option.splits)

lemma simulates_poll_future:
  fixes beh :: "('t, 'g) behaviour"
  assumes "outer_locks H"
  shows "simulates H (send_poll_future beh i :: ('t, 'w, 'g) SendExecutor \<Rightarrow> _) (poll_future beh i)"
  unfolding simulates_def
proof (intro allI impI)
  fix s :: "('t, 'w, 'g) SendExecutor"
  assume s: "held s = H"
  let ?Goal = "case send_poll_future beh i s of None \<Rightarrow> poll_future beh i (local_of s) = None
    | Some s' \<Rightarrow> held s' = H \<and> poll_future beh i (local_of s) = Some (local_of s')"
  show ?Goal
  proof (cases "i < length (send_tasks s) \<and> send_tasks s ! i \<noteq> None")
    case True
    then obtain t where t: "i < length (send_tasks s)" "send_tasks s ! i = Some t" by auto
    obtain r t' es g where b: "beh i t (send_env s) = (r, t', es, g)" by (cases "beh i t (send_env s)")
    have env: "(local_of s)\<lparr>shared_env := g\<rparr> = local_of (s\<lparr>send_env := g\<rparr>)" by (simp add: local_of_def)
    have "simulates H (foldM send_effect es) (foldM apply_effect es)"
      by (rule simulates_foldM) (rule simulates_effect [OF assms])
    note sim = simulatesD [OF this, of "s\<lparr>send_env := g\<rparr>"]
    have upd: "(local_of s)\<lparr>tasks := ts\<rparr> = local_of (s\<lparr>send_tasks := ts\<rparr>)" for s :: "('t, 'w, 'g) SendExecutor" and ts
      by (simp add: local_of_def)
    show ?thesis
    proof (cases "foldM send_effect es (s\<lparr>send_env := g\<rparr>)")
      case None
      with sim(1) t b s show ?thesis by (simp add: send_poll_future_def poll_future_def env)
    next
      case (Some s')
      from sim(2) [OF _ Some] t b s Some show ?thesis
        by (simp add: send_poll_future_def poll_future_def env upd)
    qed
  next
    case False
    then show ?thesis
      using s by (auto simp: send_poll_future_def poll_future_def split: option.splits)
  qed
qed

lemma local_of_locks [simp]:
  "local_of (release ExecutorLock s) = local_of s"
  "acquire ExecutorLock s = Some s' \<Longrightarrow> local_of s' = local_of s"
  by (auto simp: local_of_def release_def acquire_def bind_eq_Some_conv)

text \<open>A step that runs under the lock of the executor.\<close>

lemma simulates_locked:
  fixes f :: "('t, 'w, 'g) SendExecutor \<Rightarrow> ('t, 'w, 'g) SendExecutor option"
  assumes "simulates (insert ExecutorLock H) f g" and "ExecutorLock \<notin> H"
  shows "simulates H (\<lambda>s. do { s \<leftarrow> acquire ExecutorLock s; s \<leftarrow> f s; Some (release ExecutorLock s) }) g"
  unfolding simulates_def
proof (intro allI impI)
  fix s :: "('t, 'w, 'g) SendExecutor"
  assume s: "held s = H"
  let ?s = "s\<lparr>held := insert ExecutorLock H\<rparr>"
  have a: "acquire ExecutorLock s = Some ?s" using s assms(2) by (simp add: acquire_def)
  then have l: "local_of ?s = local_of s" by simp
  have h: "held ?s = insert ExecutorLock H" by simp
  show "case do { s \<leftarrow> acquire ExecutorLock s; s \<leftarrow> f s; Some (release ExecutorLock s) } of
      None \<Rightarrow> g (local_of s) = None | Some s' \<Rightarrow> held s' = H \<and> g (local_of s) = Some (local_of s')"
    using simulatesD [OF assms(1) h] a l assms(2)
    by (cases "f ?s") (auto simp: release_def local_of_def)
qed

lemma simulates_push_task:
  fixes beh :: "('t, 'g) behaviour"
  assumes "outer_locks H"
  shows "simulates H (\<lambda>s :: ('t, 'w, 'g) SendExecutor. map_option snd (send_push_task beh t s))
    (\<lambda>s. map_option snd (push_task beh t s))"
  unfolding simulates_def
proof (intro allI impI)
  fix s :: "('t, 'w, 'g) SendExecutor"
  assume s: "held s = H"
  have upd: "(local_of s)\<lparr>tasks := ts\<rparr> = local_of (s\<lparr>send_tasks := ts\<rparr>)" for ts by (simp add: local_of_def)
  have h: "held (s\<lparr>send_tasks := ts\<rparr>) = H" for ts using s by simp
  note sim = simulatesD [OF simulates_poll_future [OF assms, of beh] h]
  show "case map_option snd (send_push_task beh t s) of
      None \<Rightarrow> map_option snd (push_task beh t (local_of s)) = None
    | Some s' \<Rightarrow> held s' = H \<and> map_option snd (push_task beh t (local_of s)) = Some (local_of s')"
    using sim
    by (auto simp: send_push_task_def push_task_def upd map_option_bind Let_def
        split: option.splits bind_splits)
qed

lemma acquire_task_queue: "held s = {} \<Longrightarrow> acquire TaskQueueLock s = Some (s\<lparr>held := {TaskQueueLock}\<rparr>)"
  by (simp add: acquire_def)

lemma simulates_drain:
  fixes beh :: "('t, 'g) behaviour"
  shows "simulates {} (send_drain_queue beh :: ('t, 'w, 'g) SendExecutor \<Rightarrow> _) (drain_task_queue beh)"
  unfolding simulates_def
proof (intro allI impI)
  fix s :: "('t, 'w, 'g) SendExecutor"
  assume s: "held s = {}"
  let ?f = "\<lambda>t s :: ('t, 'w, 'g) SendExecutor. do {
     s \<leftarrow> acquire ExecutorLock s;
     (_, s) \<leftarrow> send_push_task beh t s;
     Some (release ExecutorLock s)
   }"
  let ?s = "s\<lparr>held := {TaskQueueLock}, send_task_queue := []\<rparr>"
  have f: "?f t = (\<lambda>s. do { s \<leftarrow> acquire ExecutorLock s; s \<leftarrow> map_option snd (send_push_task beh t s);
      Some (release ExecutorLock s) })" for t
    by (auto simp: fun_eq_iff split: bind_splits)
  have one: "simulates {TaskQueueLock} (?f t) (\<lambda>s. map_option snd (push_task beh t s))" for t
    unfolding f by (intro simulates_locked simulates_push_task) simp_all
  have "simulates {TaskQueueLock} (foldM ?f q) (foldM (\<lambda>t s. map_option snd (push_task beh t s)) q)" for q
    by (rule simulates_foldM) (rule one)
  note sim = simulatesD [OF this, of ?s "send_task_queue s"]
  have start: "(local_of s)\<lparr>task_queue := [], queue_borrowed := True\<rparr> = local_of ?s" by (simp add: local_of_def)
  have fin: "held a = {TaskQueueLock} \<Longrightarrow> (local_of a)\<lparr>queue_borrowed := False\<rparr> = local_of (a\<lparr>held := {}\<rparr>)"
    for a :: "('t, 'w, 'g) SendExecutor"
    by (simp add: local_of_def)
  show "case send_drain_queue beh s of None \<Rightarrow> drain_task_queue beh (local_of s) = None
    | Some s' \<Rightarrow> held s' = {} \<and> drain_task_queue beh (local_of s) = Some (local_of s')"
  proof (cases "foldM ?f (send_task_queue s) ?s")
    case None
    with sim(1) s show ?thesis
      by (simp add: send_drain_queue_def drain_task_queue_def acquire_task_queue start)
  next
    case (Some a)
    from sim(2) [OF _ Some] have "held a = {TaskQueueLock}"
      "foldM (\<lambda>t s. map_option snd (push_task beh t s)) (send_task_queue s) (local_of ?s) = Some (local_of a)"
      by simp_all
    with s Some show ?thesis
      by (simp add: send_drain_queue_def drain_task_queue_def acquire_task_queue release_def start fin)
  qed
qed

lemma simulates_poll_list:
  fixes beh :: "('t, 'g) behaviour"
  assumes "outer_locks H"
  shows "simulates H (foldM (send_poll_future beh) q :: ('t, 'w, 'g) SendExecutor \<Rightarrow> _) (foldM (poll_future beh) q)"
  by (rule simulates_foldM) (rule simulates_poll_future [OF assms])

lemma acquire_executor: "held s = {} \<Longrightarrow> acquire ExecutorLock s = Some (s\<lparr>held := {ExecutorLock}\<rparr>)"
  by (simp add: acquire_def)

lemma release_executor [simp]: "held s = {ExecutorLock} \<Longrightarrow> held (release ExecutorLock s) = {}"
  by (simp add: release_def)

lemma local_of_held_executor [simp]: "held s = {} \<Longrightarrow> local_of (s\<lparr>held := {ExecutorLock}\<rparr>) = local_of s"
  by (simp add: local_of_def)

text \<open>The phases of a poll: the tasks, and from the registration of the waker to the wake queue.\<close>

definition send_first :: "('t, 'g) behaviour \<Rightarrow> ('t, 'w, 'g) SendExecutor \<Rightarrow> ('t, 'w, 'g) SendExecutor option" where
  "send_first beh s = do { s \<leftarrow> acquire ExecutorLock s; s \<leftarrow> send_poll_all beh s; Some (release ExecutorLock s) }"

definition send_second ::
  "('t, 'g) behaviour \<Rightarrow> 'w \<Rightarrow> ('t, 'w, 'g) SendExecutor \<Rightarrow> (unit Poll \<times> bool \<times> ('t, 'w, 'g) SendExecutor) option" where
  "send_second beh w s = do {
     s \<leftarrow> acquire ExecutorLock s;
     (r, s) \<leftarrow> send_executor_poll w s;
     let s = release ExecutorLock s;
     s \<leftarrow> acquire ExecutorLock s;
     (is_empty, s) \<leftarrow> send_wake_pending beh s;
     Some (r, is_empty, release ExecutorLock s)
   }"

definition local_second ::
  "('t, 'g) behaviour \<Rightarrow> 'w \<Rightarrow> ('t, 'w, 'g) LocalExecutor \<Rightarrow> (unit Poll \<times> bool \<times> ('t, 'w, 'g) LocalExecutor) option" where
  "local_second beh w self = (let (r, self) = executor_poll w self in do {
     (is_empty, self) \<leftarrow> wake_pending beh self;
     Some (r, is_empty, self)
   })"

lemma send_wakes_step:
  fixes beh :: "('t, 'g) behaviour" and s :: "('t, 'w, 'g) SendExecutor" and w :: 'w
  assumes "held s = {}"
  shows "(send_second beh w s = None \<and> local_second beh w (local_of s) = None)
    \<or> (\<exists>r e s'. send_second beh w s = Some (r, e, s') \<and> held s' = {}
         \<and> local_second beh w (local_of s) = Some (r, e, local_of s'))"
proof -
  let ?s = "s\<lparr>send_wakers := send_wakers s @ [w], send_wake_queue := [], held := {ExecutorLock}\<rparr>"
  have h: "held ?s = {ExecutorLock}" by simp
  have l: "(local_of s)\<lparr>outer_wakers := send_wakers s @ [w], wake_queue := []\<rparr> = local_of ?s"
    using assms(1) by (simp add: local_of_def)
  let ?r = "if send_check_if_done s then Pending else Ready ()"
  have d: "check_if_done ((local_of s)\<lparr>outer_wakers := send_wakers s @ [w]\<rparr>) = send_check_if_done s"
    "send_check_if_done (s\<lparr>send_wakers := ws, held := H\<rparr>) = send_check_if_done s" for H ws
    by (simp_all add: check_if_done_def send_check_if_done_def)
  let ?q = "send_wake_queue s"
  have fin: "send_second beh w s = map_option (\<lambda>s'. (?r, ?q = [], release ExecutorLock s')) (foldM (send_poll_future beh) ?q ?s)"
    using assms(1)
    by (cases "foldM (send_poll_future beh) ?q ?s")
      (simp_all add: send_second_def send_executor_poll_def send_wake_pending_def acquire_def release_def Let_def d)
  have fin': "local_second beh w (local_of s) = map_option (\<lambda>s'. (?r, ?q = [], s')) (foldM (poll_future beh) ?q (local_of ?s))"
    by (cases "foldM (poll_future beh) ?q (local_of ?s)")
      (simp_all add: local_second_def executor_poll_def wake_pending_def Let_def d l)
  note sim = simulatesD [OF simulates_poll_list [of "{ExecutorLock}" beh ?q] h]
  show ?thesis
  proof (cases "foldM (send_poll_future beh) ?q ?s")
    case None
    with sim(1) fin fin' show ?thesis by simp
  next
    case (Some s')
    with sim(2) [OF _ Some] fin fin' show ?thesis by simp
  qed
qed

lemma simulates_first:
  fixes beh :: "('t, 'g) behaviour"
  shows "simulates {} (send_first beh :: ('t, 'w, 'g) SendExecutor \<Rightarrow> _) (poll_all beh)"
  unfolding send_first_def
proof (rule simulates_locked)
  show "simulates {ExecutorLock} (send_poll_all beh :: ('t, 'w, 'g) SendExecutor \<Rightarrow> _) (poll_all beh)"
    using simulates_poll_list [of "{ExecutorLock}" beh, unfolded simulates_def]
    unfolding simulates_def send_poll_all_def poll_all_def local_of_simps by blast
qed simp

lemma send_handle_poll_phases:
  "send_handle_poll beh w s = do {
     s \<leftarrow> send_first beh s;
     s \<leftarrow> send_drain_queue beh s;
     (r, is_empty, s) \<leftarrow> send_second beh w s;
     if \<not> is_empty then do { s \<leftarrow> send_drain_queue beh s; Some (Pending, s) } else Some (r, s)
   }"
  unfolding send_handle_poll_def send_first_def send_second_def by (simp add: Let_def split_def cong: if_cong)

lemma handle_poll_phases:
  "handle_poll beh w self = do {
     self \<leftarrow> poll_all beh self;
     self \<leftarrow> drain_task_queue beh self;
     (r, is_empty, self) \<leftarrow> local_second beh w self;
     if \<not> is_empty then do { self \<leftarrow> drain_task_queue beh self; Some (Pending, self) } else Some (r, self)
   }"
  unfolding handle_poll_def local_second_def by (simp add: Let_def split_def cong: if_cong)

text \<open>
  C17. The shared executor refines the local one: a poll of its handle on one hart, with no mutex held,
  returns exactly when a poll of the local executor's handle does on the same tasks and queues, with
  the same result and the same state; it gives every mutex back, and the only way for it to hang
  is the one in which the local executor panics.
\<close>

theorem send_executor_refines_local:
  assumes "held s = {}"
  shows "map_option (\<lambda>(r, s). (r, local_of s)) (send_handle_poll beh w s) = handle_poll beh w (local_of s)
    \<and> (\<forall>r s'. send_handle_poll beh w s = Some (r, s') \<longrightarrow> held s' = {})"
proof (cases "send_first beh s")
  case None
  with simulatesD(1) [OF simulates_first assms, of beh] show ?thesis
    unfolding send_handle_poll_phases handle_poll_phases by simp
next
  case (Some s1)
  note s1 = Some simulatesD(2) [OF simulates_first assms Some]
  show ?thesis
  proof (cases "send_drain_queue beh s1")
    case None
    with simulatesD(1) [OF simulates_drain, of s1 beh] s1 show ?thesis
      unfolding send_handle_poll_phases handle_poll_phases by simp
  next
    case (Some s2)
    note s2 = Some simulatesD(2) [OF simulates_drain s1(2) [THEN conjunct1] Some]
    from send_wakes_step [OF s2(2) [THEN conjunct1], of beh w] show ?thesis
    proof (elim disjE conjE exE)
      assume "send_second beh w s2 = None" "local_second beh w (local_of s2) = None"
      with s1 s2 show ?thesis unfolding send_handle_poll_phases handle_poll_phases by simp
    next
      fix r e s3
      assume s3: "send_second beh w s2 = Some (r, e, s3)" "held s3 = {}"
        "local_second beh w (local_of s2) = Some (r, e, local_of s3)"
      show ?thesis
      proof (cases "send_drain_queue beh s3")
        case None
        with s1 s2 s3 simulatesD(1) [OF simulates_drain s3(2), of beh] show ?thesis
          unfolding send_handle_poll_phases handle_poll_phases by simp
      next
        case (Some s4)
        with s1 s2 s3 simulatesD(2) [OF simulates_drain s3(2) Some] show ?thesis
          unfolding send_handle_poll_phases handle_poll_phases by simp
      qed
    qed
  qed
qed

theorem send_executor_refines_local_witness:
  "\<exists>s'. map_option (\<lambda>(r, s). (r, local_of s)) (send_handle_poll countdown () ((send_executor_new 0)\<lparr>send_task_queue := [3]\<rparr>))
      = Some (Pending, s') \<and> tasks s' = [Some 1]"
proof -
  let ?s = "(send_executor_new 0)\<lparr>send_task_queue := [3]\<rparr> :: (nat, unit, nat) SendExecutor"
  have "held ?s = {}" by (simp add: send_executor_new_def)
  moreover have "local_of ?s = (executor_new 0)\<lparr>task_queue := [3]\<rparr>"
    by (simp add: local_of_def send_executor_new_def executor_new_def)
  moreover have "\<exists>s'. handle_poll countdown () ((executor_new 0)\<lparr>task_queue := [3]\<rparr>) = Some (Pending, s')
      \<and> tasks s' = [Some 1]"
    by (simp add: executor_run_defs)
  ultimately show ?thesis
    using send_executor_refines_local [of ?s countdown "()", THEN conjunct1] by metis
qed

end
