(* ===== verification/Send_Interleaving.thy ===== *)
theory Send_Interleaving
  imports Send_Executor
begin

text \<open>
  The shared executor (\<^verbatim>\<open>send_executor.rs\<close>) on several harts at once. The functions of the theory Send_Executor are taken apart
  into operations between which other harts may run: taking and releasing a mutex of the \<^verbatim>\<open>spin\<close> crate, and the accesses under it. A hart
  is the list of the operations that it still has to do; doing one may put more in front, the way a call does. Taking a mutex that
  anybody holds does not happen until it is free. Harts that drive the executor with the loop of \<^verbatim>\<open>run_neverending_future\<close> have a flag
  each; other clients call \<^verbatim>\<open>wake\<close> and \<^verbatim>\<open>spawn\<close>.
\<close>

section \<open>Operations\<close>

datatype ('t, 'w) sop =
    Acquire send_lock
  | Release send_lock
  | EnqueueWake nat
  | WakeOuter
  | EnqueueTask 't
  | PollAll
  | PollFuture nat
  | FinishPoll nat "'t option"
  | DrainTasks
  | PushTask 't
  | Register 'w
  | TakeWakes

definition wake_ops :: "nat \<Rightarrow> ('t, 'w) sop list" where
  "wake_ops index = [Acquire WakeQueueLock, EnqueueWake index, Release WakeQueueLock, Acquire WakersLock, WakeOuter, Release WakersLock]"

definition spawn_ops :: "'t \<Rightarrow> ('t, 'w) sop list" where
  "spawn_ops task = [Acquire TaskQueueLock, EnqueueTask task, Release TaskQueueLock]"

fun effect_ops :: "'t effect \<Rightarrow> ('t, 'w) sop list" where
  "effect_ops (Wake index) = wake_ops index"
| "effect_ops (Spawn task) = spawn_ops task"

definition drain_ops :: "('t, 'w) sop list" where
  "drain_ops = [Acquire TaskQueueLock, DrainTasks, Release TaskQueueLock]"

definition push_ops :: "'t \<Rightarrow> ('t, 'w) sop list" where
  "push_ops t = [Acquire ExecutorLock, PushTask t, Release ExecutorLock]"

text \<open>\<^verbatim>\<open>SendExecutorHandle::poll\<close>; what follows \<^verbatim>\<open>wake_pending\<close> depends on what it finds.\<close>

definition handle_poll_ops :: "'w \<Rightarrow> ('t, 'w) sop list" where
  "handle_poll_ops context_waker =
     [Acquire ExecutorLock, PollAll, Release ExecutorLock] @ drain_ops
     @ [Acquire ExecutorLock, Acquire WakersLock, Register context_waker, Release WakersLock, Release ExecutorLock]
     @ [Acquire ExecutorLock, Acquire WakeQueueLock, TakeWakes]"

text \<open>One operation: what it puts in front of the rest, and the executor after it.\<close>

fun sop_run :: "('t, 'g) behaviour \<Rightarrow> ('t, 'w) sop \<Rightarrow> ('t, 'w, 'g) SendExecutor \<Rightarrow> (('t, 'w) sop list \<times> ('t, 'w, 'g) SendExecutor) option" where
  "sop_run beh (Acquire l) s = map_option (\<lambda>s. ([], s)) (acquire l s)"
| "sop_run beh (Release l) s = Some ([], release l s)"
| "sop_run beh (EnqueueWake index) s = Some ([], s\<lparr>send_wake_queue := send_wake_queue s @ [index]\<rparr>)"
| "sop_run beh WakeOuter s = Some (case send_wakers s of
       [] \<Rightarrow> ([], s)
     | w # ws \<Rightarrow> ([WakeOuter], s\<lparr>send_wakers := ws, send_woken := send_woken s @ [w]\<rparr>))"
| "sop_run beh (EnqueueTask task) s = Some ([], s\<lparr>send_task_queue := send_task_queue s @ [task]\<rparr>)"
| "sop_run beh PollAll s = Some (map PollFuture [0..<length (send_tasks s)], s)"
| "sop_run beh (PollFuture index) s =
     (if index < length (send_tasks s) then
        case send_tasks s ! index of
          None \<Rightarrow> Some ([], s)
        | Some task \<Rightarrow>
            let (r, task', effects, g) = beh index task (send_env s)
            in Some (concat (map effect_ops effects) @ [FinishPoll index (if r = Ready () then None else Some task')], s\<lparr>send_env := g\<rparr>)
      else Some ([], s))"
| "sop_run beh (FinishPoll index task) s = Some ([], s\<lparr>send_tasks := (send_tasks s)[index := task]\<rparr>)"
| "sop_run beh DrainTasks s = Some (concat (map push_ops (send_task_queue s)), s\<lparr>send_task_queue := []\<rparr>)"
| "sop_run beh (PushTask task) s =
     (let (index, s) =
       (case first_free (send_tasks s) of
          Some slot \<Rightarrow> (slot, s\<lparr>send_tasks := (send_tasks s)[slot := Some task]\<rparr>)
        | None \<Rightarrow> (length (send_tasks s), s\<lparr>send_tasks := send_tasks s @ [Some task]\<rparr>))
      in Some ([PollFuture index], s))"
| "sop_run beh (Register w) s = Some ([], s\<lparr>send_wakers := send_wakers s @ [w]\<rparr>)"
| "sop_run beh TakeWakes s =
     (let q = send_wake_queue s
      in Some ([Release WakeQueueLock] @ map PollFuture q @ [Release ExecutorLock] @ (if q = [] then [] else drain_ops),
           s\<lparr>send_wake_queue := []\<rparr>))"

section \<open>One hart alone\<close>

inductive alone :: "('t, 'g) behaviour \<Rightarrow> ('t, 'w) sop list \<Rightarrow> ('t, 'w, 'g) SendExecutor \<Rightarrow> ('t, 'w) sop list \<Rightarrow> ('t, 'w, 'g) SendExecutor \<Rightarrow> bool"
  for beh where
  alone_refl: "alone beh c s c s"
| alone_step: "sop_run beh op s = Some (c', s') \<Longrightarrow> alone beh (c' @ c) s' d t \<Longrightarrow> alone beh (op # c) s d t"

lemma alone_trans: "alone beh c s d t \<Longrightarrow> alone beh d t e u \<Longrightarrow> alone beh c s e u"
  by (induction rule: alone.induct) (auto intro: alone_step)

text \<open>The operations \<open>c\<close> do what \<open>f\<close> does, whatever comes after them.\<close>

definition performs ::
  "('t, 'g) behaviour \<Rightarrow> ('t, 'w) sop list \<Rightarrow> (('t, 'w, 'g) SendExecutor \<Rightarrow> ('t, 'w, 'g) SendExecutor option) \<Rightarrow> bool" where
  "performs beh c f \<longleftrightarrow> (\<forall>s s' d. f s = Some s' \<longrightarrow> alone beh (c @ d) s d s')"

lemma performs_Nil: "performs beh [] Some"
  by (simp add: performs_def alone_refl)

lemma performs_append:
  assumes "performs beh c f" and "performs beh d g"
  shows "performs beh (c @ d) (\<lambda>s. Option.bind (f s) g)"
  unfolding performs_def
proof (intro allI impI)
  fix s s' e
  assume "Option.bind (f s) g = Some s'"
  then obtain t where "f s = Some t" "g t = Some s'" by (auto simp: bind_eq_Some_conv)
  then have "alone beh (c @ (d @ e)) s (d @ e) t" "alone beh (d @ e) t e s'" using assms by (auto simp: performs_def)
  then show "alone beh ((c @ d) @ e) s e s'" using alone_trans by fastforce
qed

lemma performs_op:
  assumes "\<And>s s'. f s = Some s' \<Longrightarrow> sop_run beh op s = Some ([], s')"
  shows "performs beh [op] f"
  using assms by (auto simp: performs_def intro!: alone_step alone_refl)

lemma performs_cong: "performs beh c f \<Longrightarrow> (\<And>s s'. g s = Some s' \<Longrightarrow> f s = Some s') \<Longrightarrow> performs beh c g"
  by (simp add: performs_def)

lemma performs_foldM: "(\<And>x. performs beh (c x) (f x)) \<Longrightarrow> performs beh (concat (map c xs)) (foldM f xs)"
proof (induction xs)
  case Nil
  show ?case by (simp add: performs_def alone_refl)
next
  case (Cons x xs)
  show ?case
    unfolding list.map concat.simps
    by (rule performs_cong [OF performs_append [OF Cons.prems Cons.IH [OF Cons.prems]]]) simp
qed

lemma performs_acquire: "performs beh [Acquire l] (acquire l)"
  by (rule performs_op) simp

lemma performs_release: "performs beh [Release l] (\<lambda>s. Some (release l s))"
  by (rule performs_op) simp

text \<open>An operation that puts \<open>c\<close> in front.\<close>

lemma performs_call:
  assumes "\<And>s s'. f s = Some s' \<Longrightarrow> \<exists>c t g. sop_run beh op s = Some (c, t) \<and> performs beh c g \<and> g t = Some s'"
  shows "performs beh [op] f"
  unfolding performs_def
proof (intro allI impI)
  fix s s' d
  assume "f s = Some s'"
  from assms [OF this] obtain c t g where "sop_run beh op s = Some (c, t)" "performs beh c g" "g t = Some s'" by blast
  then show "alone beh ([op] @ d) s d s'" by (auto simp: performs_def intro: alone_step)
qed

lemma wake_outer_all: "alone beh (WakeOuter # d) s d (s\<lparr>send_woken := send_woken s @ send_wakers s, send_wakers := []\<rparr>)"
proof (induction "send_wakers s" arbitrary: s)
  case Nil
  then have e: "s\<lparr>send_woken := send_woken s @ send_wakers s, send_wakers := []\<rparr> = s" by simp
  from Nil show ?case unfolding e by (intro alone_step [of beh WakeOuter s "[]" s]) (simp_all add: alone_refl flip: Nil)
next
  case (Cons w ws)
  let ?s = "s\<lparr>send_wakers := ws, send_woken := send_woken s @ [w]\<rparr>"
  have "alone beh ([WakeOuter] @ d) ?s d (?s\<lparr>send_woken := send_woken ?s @ send_wakers ?s, send_wakers := []\<rparr>)"
    using Cons.hyps(1) [of ?s] by simp
  moreover have w: "send_wakers s = w # ws" using Cons.hyps(2) by simp
  moreover from w have "sop_run beh WakeOuter s = Some ([WakeOuter], ?s)" by simp
  ultimately show ?case by (intro alone_step [of beh WakeOuter s "[WakeOuter]" ?s]) simp_all
qed

lemma performs_wake_outer: "performs beh [WakeOuter] (\<lambda>s. Some (s\<lparr>send_woken := send_woken s @ send_wakers s, send_wakers := []\<rparr>))"
  using wake_outer_all by (auto simp: performs_def)

lemma performs_wake: "performs beh (wake_ops index) (send_wake index)"
proof -
  have e: "performs beh [EnqueueWake index] (\<lambda>s. Some (s\<lparr>send_wake_queue := send_wake_queue s @ [index]\<rparr>))" by (rule performs_op) simp
  note ops = performs_append [OF performs_acquire performs_append [OF e performs_append [OF performs_release
    performs_append [OF performs_acquire performs_append [OF performs_wake_outer performs_release]]]], of WakeQueueLock WakeQueueLock WakersLock WakersLock]
  show ?thesis
    using performs_cong [OF ops, of "send_wake index"] by (simp add: wake_ops_def send_wake_def Let_def)
qed

lemma performs_spawn: "performs beh (spawn_ops task) (send_spawn task)"
proof -
  have e: "performs beh [EnqueueTask task] (\<lambda>s. Some (s\<lparr>send_task_queue := send_task_queue s @ [task]\<rparr>))" by (rule performs_op) simp
  note ops = performs_append [OF performs_acquire performs_append [OF e performs_release], of TaskQueueLock TaskQueueLock]
  show ?thesis using performs_cong [OF ops, of "send_spawn task"] by (simp add: spawn_ops_def send_spawn_def)
qed

lemma performs_effect: "performs beh (effect_ops e) (send_effect e)"
proof (cases e)
  case (Wake index)
  show ?thesis unfolding Wake effect_ops.simps by (rule performs_cong [OF performs_wake]) simp
next
  case (Spawn task)
  show ?thesis unfolding Spawn effect_ops.simps by (rule performs_cong [OF performs_spawn]) simp
qed

lemma performs_poll_future: "performs beh [PollFuture index] (send_poll_future beh index)"
proof (rule performs_call)
  fix s s'
  assume p: "send_poll_future beh index s = Some s'"
  show "\<exists>c t g. sop_run beh (PollFuture index) s = Some (c, t) \<and> performs beh c g \<and> g t = Some s'"
  proof (cases "index < length (send_tasks s) \<and> send_tasks s ! index \<noteq> None")
    case True
    then obtain task where t: "index < length (send_tasks s)" "send_tasks s ! index = Some task" by auto
    obtain r task' es g where b: "beh index task (send_env s) = (r, task', es, g)" by (cases "beh index task (send_env s)")
    let ?new = "if r = Ready () then None else Some task'"
    have "performs beh [FinishPoll index ?new] (\<lambda>s. Some (s\<lparr>send_tasks := (send_tasks s)[index := ?new]\<rparr>))" by (rule performs_op) simp
    note ops = performs_append [OF performs_foldM [where c = effect_ops and f = send_effect and xs = es, OF performs_effect] this]
    have "sop_run beh (PollFuture index) s = Some (concat (map effect_ops es) @ [FinishPoll index ?new], s\<lparr>send_env := g\<rparr>)"
      using t b by simp
    moreover have "Option.bind (foldM send_effect es (s\<lparr>send_env := g\<rparr>)) (\<lambda>s. Some (s\<lparr>send_tasks := (send_tasks s)[index := ?new]\<rparr>)) = Some s'"
      using p t b by (simp add: send_poll_future_def)
    ultimately show ?thesis using ops by blast
  next
    case False
    then have "s' = s" using p by (auto simp: send_poll_future_def split: if_splits option.splits)
    then show ?thesis using False performs_Nil by (intro exI [of _ "[]"] exI [of _ s] exI [of _ Some]) auto
  qed
qed

lemma performs_polls: "performs beh (map PollFuture is) (foldM (send_poll_future beh) is)"
proof -
  have "map PollFuture is = concat (map (\<lambda>i. [PollFuture i]) is)" by (induction "is") simp_all
  then show ?thesis using performs_foldM [where c = "\<lambda>i. [PollFuture i]", OF performs_poll_future] by metis
qed

lemma performs_poll_all: "performs beh [PollAll] (send_poll_all beh)"
proof (rule performs_call)
  fix s s'
  assume "send_poll_all beh s = Some s'"
  then show "\<exists>c t g. sop_run beh PollAll s = Some (c, t) \<and> performs beh c g \<and> g t = Some s'"
    by (intro exI [of _ "map PollFuture [0..<length (send_tasks s)]"] exI [of _ s] exI [of _ "foldM (send_poll_future beh) [0..<length (send_tasks s)]"])
       (simp add: performs_polls send_poll_all_def)
qed

lemma performs_push_task: "performs beh [PushTask task] (\<lambda>s. map_option snd (send_push_task beh task s))"
proof (rule performs_call)
  fix s s'
  assume p: "map_option snd (send_push_task beh task s) = Some s'"
  let ?r = "case first_free (send_tasks s) of
      Some slot \<Rightarrow> (slot, s\<lparr>send_tasks := (send_tasks s)[slot := Some task]\<rparr>)
    | None \<Rightarrow> (length (send_tasks s), s\<lparr>send_tasks := send_tasks s @ [Some task]\<rparr>)"
  have "sop_run beh (PushTask task) s = Some ([PollFuture (fst ?r)], snd ?r)" by (cases ?r) simp
  moreover have "send_poll_future beh (fst ?r) (snd ?r) = Some s'"
    using p by (cases ?r) (auto simp: send_push_task_def bind_eq_Some_conv)
  ultimately show "\<exists>c t g. sop_run beh (PushTask task) s = Some (c, t) \<and> performs beh c g \<and> g t = Some s'"
    using performs_poll_future by blast
qed

lemma performs_push: "performs beh (push_ops t) (\<lambda>s. do { s \<leftarrow> acquire ExecutorLock s; (_, s) \<leftarrow> send_push_task beh t s; Some (release ExecutorLock s) })"
proof -
  note ops = performs_append [OF performs_acquire [of beh ExecutorLock] performs_append [OF performs_push_task [of beh t] performs_release [of beh ExecutorLock]]]
  show ?thesis
    unfolding push_ops_def by (rule performs_cong [OF ops [simplified]]) (auto simp: bind_eq_Some_conv)
qed

lemma performs_drain: "performs beh drain_ops (send_drain_queue beh)"
proof -
  let ?f = "\<lambda>t s. do { s \<leftarrow> acquire ExecutorLock s; (_, s) \<leftarrow> send_push_task beh t s; Some (release ExecutorLock s) }"
  have "performs beh [DrainTasks] (\<lambda>s. foldM ?f (send_task_queue s) (s\<lparr>send_task_queue := []\<rparr>))"
  proof (rule performs_call)
    fix s s'
    assume "foldM ?f (send_task_queue s) (s\<lparr>send_task_queue := []\<rparr>) = Some s'"
    then show "\<exists>c t g. sop_run beh DrainTasks s = Some (c, t) \<and> performs beh c g \<and> g t = Some s'"
      by (intro exI [of _ "concat (map push_ops (send_task_queue s))"] exI [of _ "s\<lparr>send_task_queue := []\<rparr>"] exI [of _ "foldM ?f (send_task_queue s)"])
         (simp add: performs_foldM [where c = push_ops, OF performs_push])
  qed
  note ops = performs_append [OF performs_acquire performs_append [OF this performs_release], of TaskQueueLock TaskQueueLock]
  show ?thesis using performs_cong [OF ops, of "send_drain_queue beh"] by (simp add: drain_ops_def send_drain_queue_def)
qed

text \<open>The end of a poll, from the moment when the wake queue is locked.\<close>

definition after_wakes :: "('t, 'g) behaviour \<Rightarrow> ('t, 'w, 'g) SendExecutor \<Rightarrow> ('t, 'w, 'g) SendExecutor option" where
  "after_wakes beh s = do {
     let q = send_wake_queue s;
     let s = release WakeQueueLock (s\<lparr>send_wake_queue := []\<rparr>);
     s \<leftarrow> foldM (send_poll_future beh) q s;
     let s = release ExecutorLock s;
     if q = [] then Some s else send_drain_queue beh s
   }"

lemma performs_take_wakes: "performs beh [TakeWakes] (after_wakes beh)"
proof (rule performs_call)
  fix s s'
  assume "after_wakes beh s = Some s'"
  let ?q = "send_wake_queue s"
  have r: "performs beh (if ?q = [] then [] else drain_ops) (if ?q = [] then Some else send_drain_queue beh)"
    by (simp add: performs_Nil performs_drain)
  note ops = performs_append [OF performs_release [of beh WakeQueueLock] performs_append [OF performs_polls [of beh ?q]
      performs_append [OF performs_release [of beh ExecutorLock] r]]]
  moreover have "sop_run beh TakeWakes s = Some ([Release WakeQueueLock] @ map PollFuture ?q @ [Release ExecutorLock]
      @ (if ?q = [] then [] else drain_ops), s\<lparr>send_wake_queue := []\<rparr>)"
    by (simp only: sop_run.simps Let_def)
  moreover have "Option.bind (Some (release WakeQueueLock (s\<lparr>send_wake_queue := []\<rparr>))) (\<lambda>s. Option.bind (foldM (send_poll_future beh) ?q s)
      (\<lambda>s. Option.bind (Some (release ExecutorLock s)) (if ?q = [] then Some else send_drain_queue beh))) = Some s'"
    using \<open>after_wakes beh s = Some s'\<close> by (auto simp: after_wakes_def Let_def split: if_splits)
  ultimately show "\<exists>c t g. sop_run beh TakeWakes s = Some (c, t) \<and> performs beh c g \<and> g t = Some s'" by blast
qed

text \<open>One hart alone does what \<open>send_handle_poll\<close> says.\<close>

lemma alone_handle_poll:
  assumes "send_handle_poll beh w s = Some (r, s')"
  shows "alone beh (handle_poll_ops w) s [] s'"
proof -
  have reg: "performs beh [Register w] (\<lambda>s. Some (s\<lparr>send_wakers := send_wakers s @ [w]\<rparr>))" by (rule performs_op) simp
  note ex = performs_acquire [of beh ExecutorLock] performs_release [of beh ExecutorLock]
  note ops = performs_append [OF performs_append [OF ex(1) performs_append [OF performs_poll_all ex(2)]]
      performs_append [OF performs_drain performs_append [OF performs_append [OF ex(1) performs_append [OF performs_acquire [of beh WakersLock]
        performs_append [OF reg performs_append [OF performs_release [of beh WakersLock] ex(2)]]]]
      performs_append [OF ex(1) performs_append [OF performs_acquire [of beh WakeQueueLock] performs_take_wakes]]]]]
  from assms have "\<exists>s''. alone beh (handle_poll_ops w) s [] s'' \<and> s'' = s'"
    using ops [unfolded performs_def, rule_format, of s s' "[]"]
    by (auto simp: handle_poll_ops_def send_handle_poll_def send_wake_pending_def send_executor_poll_def after_wakes_def Let_def bind_eq_Some_conv
        split: if_splits)
  then show ?thesis by blast
qed

section \<open>Several harts\<close>

text \<open>
  The first harts, one for each flag, run \<^verbatim>\<open>run_neverending_future\<close> on a handle, and the waker of hart \<open>h\<close> sets its flag; the others
  are clients.
\<close>

record ('t, 'g) send_system =
  exec_of :: "('t, nat, 'g) SendExecutor"
  flags :: "bool list"
  codes :: "('t, nat) sop list list"

definition woken_by :: "('t, nat) sop \<Rightarrow> ('t, nat, 'g) SendExecutor \<Rightarrow> nat list" where
  "woken_by op s = (case op of WakeOuter \<Rightarrow> take 1 (send_wakers s) | _ \<Rightarrow> [])"

inductive send_step :: "('t, 'g) behaviour \<Rightarrow> ('t, 'g) send_system \<Rightarrow> ('t, 'g) send_system \<Rightarrow> bool" for beh where
  send_run: "k < length (codes s) \<Longrightarrow> codes s ! k = op # c \<Longrightarrow> sop_run beh op (exec_of s) = Some (c', e) \<Longrightarrow>
     send_step beh s \<lparr>exec_of = e, flags = fold (\<lambda>w fl. fl[w := True]) (woken_by op (exec_of s)) (flags s), codes = (codes s)[k := c' @ c]\<rparr>"
| send_poll: "h < length (flags s) \<Longrightarrow> flags s ! h \<Longrightarrow> codes s ! h = [] \<Longrightarrow>
     send_step beh s (s\<lparr>flags := (flags s)[h := False], codes := (codes s)[h := handle_poll_ops h]\<rparr>)"
| send_call: "length (flags s) \<le> k \<Longrightarrow> k < length (codes s) \<Longrightarrow> codes s ! k = [] \<Longrightarrow> c = effect_ops e \<Longrightarrow>
     send_step beh s (s\<lparr>codes := (codes s)[k := c]\<rparr>)"

definition send_start :: "nat \<Rightarrow> nat \<Rightarrow> 't list \<Rightarrow> 'g \<Rightarrow> ('t, 'g) send_system" where
  "send_start n m ts g = \<lparr>exec_of = (send_executor_new g)\<lparr>send_task_queue := ts\<rparr>, flags = replicate n True, codes = replicate (n + m) []\<rparr>"

section \<open>No wake-up is lost between harts\<close>

text \<open>The order of operations that the wake-ups rest on: an index is queued before the wakers are woken, a waker registered before the queue is taken.\<close>

fun ordered :: "('t, 'w) sop list \<Rightarrow> bool" where
  "ordered [] \<longleftrightarrow> True"
| "ordered (EnqueueWake i # c) \<longleftrightarrow> WakeOuter \<in> set c \<and> ordered c"
| "ordered (Register w # c) \<longleftrightarrow> TakeWakes \<in> set c \<and> ordered c"
| "ordered (_ # c) \<longleftrightarrow> ordered c"

text \<open>Operations that come from tasks: they register no waker and do not take the queue.\<close>

definition inner_ops :: "('t, 'w) sop list \<Rightarrow> bool" where
  "inner_ops c \<longleftrightarrow> ordered c \<and> TakeWakes \<notin> set c \<and> (\<forall>w. Register w \<notin> set c)"

lemma ordered_append: "ordered c \<Longrightarrow> ordered d \<Longrightarrow> ordered (c @ d)"
  by (induction c rule: ordered.induct) auto

lemma inner_append: "inner_ops c \<Longrightarrow> inner_ops d \<Longrightarrow> inner_ops (c @ d)"
  by (simp add: inner_ops_def ordered_append)

lemma inner_concat: "(\<And>c. c \<in> set cs \<Longrightarrow> inner_ops c) \<Longrightarrow> inner_ops (concat cs)"
proof (induction cs)
  case Nil
  show ?case by (simp add: inner_ops_def)
next
  case (Cons c cs)
  then show ?case by (simp add: inner_append)
qed

lemma inner_simple: "inner_ops (effect_ops e)" "inner_ops drain_ops" "inner_ops (push_ops t)"
  by (cases e) (simp_all add: inner_ops_def wake_ops_def spawn_ops_def drain_ops_def push_ops_def)

lemma inner_single: "inner_ops []" "inner_ops [FinishPoll i t]" "inner_ops [Release l]"
  by (simp_all add: inner_ops_def)

lemma inner_polls: "inner_ops (map PollFuture is)"
  by (induction "is") (auto simp: inner_ops_def)

lemma inner_run: "sop_run beh op s = Some (c, s') \<Longrightarrow> inner_ops c"
proof (induction beh op s rule: sop_run.induct)
  case (7 beh index s)
  then show ?case
    by (auto simp: inner_single inner_simple split: if_splits option.splits prod.splits intro!: inner_append inner_concat)
next
  case (9 beh s)
  then show ?case by (auto intro!: inner_concat simp: inner_simple)
next
  case (12 beh s)
  have "c = [Release WakeQueueLock] @ map PollFuture (send_wake_queue s) @ [Release ExecutorLock]
      @ (if send_wake_queue s = [] then [] else drain_ops)"
    using 12 by (simp only: sop_run.simps Let_def) simp
  then show ?case by (simp only:) (intro inner_append inner_polls, auto simp: inner_simple inner_single)
qed (auto simp: inner_ops_def inner_polls [unfolded inner_ops_def] split: list.splits option.splits prod.splits)

text \<open>
  Every hart without its flag has its waker registered or is about to register it, and an index in the wake queue has somebody who will wake
  the wakers, a flag that is set, or a hart that will take the queue.
\<close>

definition covered :: "('t, 'g) send_system \<Rightarrow> bool" where
  "covered s \<longleftrightarrow> (\<exists>k<length (codes s). WakeOuter \<in> set (codes s ! k)) \<or> (\<exists>h<length (flags s). flags s ! h)
     \<or> (\<exists>h<length (flags s). TakeWakes \<in> set (codes s ! h))"

definition send_inv :: "nat \<Rightarrow> nat \<Rightarrow> ('t, 'g) send_system \<Rightarrow> bool" where
  "send_inv n m s \<longleftrightarrow> length (flags s) = n \<and> length (codes s) = n + m \<and> (\<forall>k<n + m. ordered (codes s ! k))
     \<and> (\<forall>h<n. flags s ! h \<or> h \<in> set (send_wakers (exec_of s)) \<or> Register h \<in> set (codes s ! h))
     \<and> (send_wake_queue (exec_of s) \<noteq> [] \<longrightarrow> covered s)"

lemma ordered_tl: "ordered (op # c) \<Longrightarrow> ordered c"
  by (cases op) auto

lemma register_takes: "ordered c \<Longrightarrow> Register w \<in> set c \<Longrightarrow> TakeWakes \<in> set c"
  by (induction c rule: ordered.induct) auto

lemma ordered_handle_poll: "ordered (handle_poll_ops w)" "Register w \<in> set (handle_poll_ops w)" "TakeWakes \<in> set (handle_poll_ops w)"
  by (simp_all add: handle_poll_ops_def drain_ops_def)

lemma sop_queue:
  assumes "sop_run beh op s = Some (c', e)"
  shows "send_wake_queue e \<noteq> [] \<Longrightarrow> send_wake_queue s \<noteq> [] \<or> (\<exists>i. op = EnqueueWake i)"
    and "op = TakeWakes \<Longrightarrow> send_wake_queue e = []"
    and "op \<noteq> WakeOuter \<Longrightarrow> set (send_wakers s) \<subseteq> set (send_wakers e)"
    and "op = Register w \<Longrightarrow> w \<in> set (send_wakers e)"
  using assms
  by (cases op; auto simp: acquire_def release_def Let_def bind_eq_Some_conv split: if_splits option.splits prod.splits list.splits)+

lemma send_inv_start: "0 < n \<Longrightarrow> send_inv n m (send_start n m ts g)"
  by (auto simp: send_inv_def send_start_def send_executor_new_def)

text \<open>One operation of hart \<open>k\<close>, split into what concerns the flags and wakers and what concerns the queue.\<close>

lemma covered_mono:
  assumes "covered s" and "length (flags s') = length (flags s)" and "length (codes s') = length (codes s)"
    and "\<And>h. flags s ! h \<Longrightarrow> flags s' ! h"
    and "\<And>k. k < length (codes s) \<Longrightarrow> WakeOuter \<in> set (codes s ! k) \<Longrightarrow> WakeOuter \<in> set (codes s' ! k)"
    and "\<And>k. k < length (flags s) \<Longrightarrow> TakeWakes \<in> set (codes s ! k) \<Longrightarrow> TakeWakes \<in> set (codes s' ! k)"
  shows "covered s'"
  using assms unfolding covered_def by metis

lemma registered_run:
  assumes inv: "send_inv n m s" and k: "k < length (codes s)" "codes s ! k = op # c"
    and run: "sop_run beh op (exec_of s) = Some (c', e)" and h: "h < n"
  shows "fold (\<lambda>w fl. fl[w := True]) (woken_by op (exec_of s)) (flags s) ! h \<or> h \<in> set (send_wakers e)
    \<or> Register h \<in> set ((codes s)[k := c' @ c] ! h)"
proof -
  have len: "length (flags s) = n" "h < length (codes s)" using inv h by (auto simp: send_inv_def)
  have old: "flags s ! h \<or> h \<in> set (send_wakers (exec_of s)) \<or> Register h \<in> set (codes s ! h)" using inv h by (auto simp: send_inv_def)
  have reg: "Register h \<in> set ((codes s)[k := c' @ c] ! h)" if "Register h \<in> set (codes s ! h)" "op \<noteq> Register h"
    using that k len(2) by (cases "h = k") auto
  show ?thesis
  proof (cases "op = WakeOuter")
    case True
    show ?thesis
    proof (cases "send_wakers (exec_of s)")
      case Nil
      then show ?thesis using True old reg by (simp add: woken_by_def) blast
    next
      case (Cons w ws)
      then have e: "send_wakers e = ws" using True run by auto
      show ?thesis
        using True Cons e old reg h len(1) by (cases "h = w") (auto simp: woken_by_def nth_list_update)
    qed
  next
    case False
    then have "woken_by op (exec_of s) = []" by (cases op) (simp_all add: woken_by_def)
    then show ?thesis
      using old reg sop_queue(3) [OF run False] sop_queue(4) [OF run, of h] by (cases "op = Register h") auto
  qed
qed

lemma length_set_flags: "length (fold (\<lambda>w fl. fl[w := True]) ws fl) = length fl"
  by (induction ws arbitrary: fl) simp_all

lemma covered_run:
  assumes inv: "send_inv n m s" "0 < n" and k: "k < length (codes s)" "codes s ! k = op # c"
    and run: "sop_run beh op (exec_of s) = Some (c', e)" and q: "send_wake_queue e \<noteq> []"
  shows "covered \<lparr>exec_of = e, flags = fold (\<lambda>w fl. fl[w := True]) (woken_by op (exec_of s)) (flags s), codes = (codes s)[k := c' @ c]\<rparr>"
    (is "covered ?s")
proof -
  have ord: "ordered (op # c)" using inv k by (metis send_inv_def)
  have codes: "codes ?s ! j = (if j = k then c' @ c else codes s ! j)" if "j < length (codes s)" for j using that k(1) by simp
  have len: "length (flags s) = n" "length (codes s) = n + m" "length (flags ?s) = n"
    using inv by (auto simp: send_inv_def length_set_flags)
  consider (enqueue) i where "op = EnqueueWake i" | (wake) "op = WakeOuter" "send_wakers (exec_of s) \<noteq> []"
    | (none) "op = WakeOuter" "send_wakers (exec_of s) = []" | (other) "op \<noteq> WakeOuter" "\<nexists>i. op = EnqueueWake i" by blast
  then show ?thesis
  proof cases
    case enqueue
    then have "WakeOuter \<in> set (codes ?s ! k)" using ord codes k(1) by simp
    then show ?thesis using k(1) unfolding covered_def by auto
  next
    case wake
    then have "WakeOuter \<in> set c'" using run by (auto split: list.splits)
    then show ?thesis using k(1) unfolding covered_def by auto
  next
    case none
    have "flags s ! 0 \<or> Register 0 \<in> set (codes s ! 0)" using inv none by (auto simp: send_inv_def)
    moreover have "ordered (codes s ! 0)" using inv by (auto simp: send_inv_def)
    ultimately have "flags s ! 0 \<or> TakeWakes \<in> set (codes s ! 0)" using register_takes [of "codes s ! 0" 0] by auto
    moreover have "flags ?s = flags s" using none by (simp add: woken_by_def)
    moreover have "TakeWakes \<in> set (codes ?s ! 0)" if "TakeWakes \<in> set (codes s ! 0)"
      using that codes [of 0] none(1) k inv(2) len by (cases "k = 0") auto
    ultimately have "flags ?s ! 0 \<or> TakeWakes \<in> set (codes ?s ! 0)" by auto
    then show ?thesis using inv(2) len unfolding covered_def by auto
  next
    case other
    then have "woken_by op (exec_of s) = []" by (cases op) (simp_all add: woken_by_def)
    moreover have "covered s" using inv(1) sop_queue(1) [OF run q] other by (auto simp: send_inv_def)
    moreover have "op \<noteq> TakeWakes" using sop_queue(2) [OF run] q by blast
    ultimately have kept: "x \<in> set (codes ?s ! j)" if "j < length (codes s)" "x \<in> set (codes s ! j)" "x \<noteq> op" for x j
      using that k codes [OF that(1)] by (cases "j = k") simp_all
    show ?thesis
    proof (rule covered_mono [OF \<open>covered s\<close>])
      show "length (flags ?s) = length (flags s)" "length (codes ?s) = length (codes s)" using len by (simp_all add: length_set_flags)
      show "flags ?s ! h" if "flags s ! h" for h using that \<open>woken_by op (exec_of s) = []\<close> by simp
      show "WakeOuter \<in> set (codes ?s ! j)" if "j < length (codes s)" "WakeOuter \<in> set (codes s ! j)" for j
        using kept [OF that] other(1) by blast
      show "TakeWakes \<in> set (codes ?s ! j)" if "j < length (flags s)" "TakeWakes \<in> set (codes s ! j)" for j
        using kept [OF _ that(2)] that(1) len \<open>op \<noteq> TakeWakes\<close> by fastforce
    qed
  qed
qed

lemma send_inv_step: "send_step beh s s' \<Longrightarrow> send_inv n m s \<Longrightarrow> 0 < n \<Longrightarrow> send_inv n m s'"
proof (induction rule: send_step.induct)
  case (send_run k s op c c' e)
  let ?s = "\<lparr>exec_of = e, flags = fold (\<lambda>w fl. fl[w := True]) (woken_by op (exec_of s)) (flags s), codes = (codes s)[k := c' @ c]\<rparr>"
  have "length (flags ?s) = n"
    using send_run by (simp add: send_inv_def length_set_flags)
  moreover have "ordered (op # c)" using send_run(1,2,4) by (metis send_inv_def)
  then have "ordered (c' @ c)"
    using inner_run [OF send_run(3)] ordered_tl [of op c] by (auto simp: inner_ops_def intro: ordered_append)
  then have "\<forall>j<n + m. ordered (codes ?s ! j)" using send_run by (auto simp: send_inv_def nth_list_update)
  ultimately show ?case
    using registered_run [OF send_run(4,1-3)] covered_run [OF send_run(4,5,1-3)] send_run(4) unfolding send_inv_def by simp
next
  case (send_poll h s)
  let ?s = "s\<lparr>flags := (flags s)[h := False], codes := (codes s)[h := handle_poll_ops h]\<rparr>"
  have "TakeWakes \<in> set (codes ?s ! h)" using send_poll ordered_handle_poll by (simp add: send_inv_def)
  then have "covered ?s" using send_poll(1) unfolding covered_def by auto
  then show ?case using send_poll by (auto simp: send_inv_def nth_list_update ordered_handle_poll)
next
  case (send_call s k c ef)
  have "covered (s\<lparr>codes := (codes s)[k := c]\<rparr>)" if "covered s"
    using that send_call(2,3) by (intro covered_mono [OF that]) (auto simp: nth_list_update)
  then show ?case
    using send_call inner_simple(1) [of ef] by (auto simp: send_inv_def nth_list_update inner_ops_def)
qed

lemma send_inv_reachable: "(send_step beh)\<^sup>*\<^sup>* (send_start n m ts g) s \<Longrightarrow> 0 < n \<Longrightarrow> send_inv n m s"
  by (induction rule: rtranclp_induct) (auto intro: send_inv_start send_inv_step)

text \<open>
  C14. Harts that drive the shared executor and clients that wake and spawn, in any interleaving of their critical sections: a task in the
  wake queue is never forgotten. As long as one is there, some hart has its flag set and will poll, or is in a poll that has yet to take
  the queue, or somebody is about to wake the registered wakers; when nobody is in the middle of anything, some flag is set. And a
  hart that runs alone does what the sequential model of the poll says.
\<close>

theorem send_executor_wakes_across_harts:
  assumes "(send_step beh)\<^sup>*\<^sup>* (send_start n m ts g) s" and "0 < n" and "send_wake_queue (exec_of s) \<noteq> []"
  shows "covered s \<and> ((\<forall>k<n + m. codes s ! k = []) \<longrightarrow> (\<exists>h<n. flags s ! h \<and>
      send_step beh s (s\<lparr>flags := (flags s)[h := False], codes := (codes s)[h := handle_poll_ops h]\<rparr>)))
    \<and> (send_handle_poll beh w e = Some (r, e') \<longrightarrow> alone beh (handle_poll_ops w) e [] e')"
proof -
  have inv: "send_inv n m s" using assms(1,2) by (rule send_inv_reachable)
  then have c: "covered s" using assms(3) by (simp add: send_inv_def)
  have "\<exists>h<n. flags s ! h \<and> send_step beh s (s\<lparr>flags := (flags s)[h := False], codes := (codes s)[h := handle_poll_ops h]\<rparr>)"
    if "\<forall>k<n + m. codes s ! k = []"
    using c inv that by (auto simp: covered_def send_inv_def intro!: send_step.send_poll)
  with c show ?thesis by (intro conjI impI alone_handle_poll) blast+
qed

section \<open>Deadlock\<close>

text \<open>A schedule: which hart does its next operation, or begins to poll when it has none.\<close>

fun send_schedule :: "('t, 'g) behaviour \<Rightarrow> nat list \<Rightarrow> ('t, 'g) send_system \<Rightarrow> ('t, 'g) send_system option" where
  "send_schedule beh [] s = Some s"
| "send_schedule beh (k # ks) s =
     (if k < length (codes s) then
        case codes s ! k of
          [] \<Rightarrow> if k < length (flags s) \<and> flags s ! k
                then send_schedule beh ks (s\<lparr>flags := (flags s)[k := False], codes := (codes s)[k := handle_poll_ops k]\<rparr>) else None
        | op # c \<Rightarrow> do {
            (c', e) \<leftarrow> sop_run beh op (exec_of s);
            send_schedule beh ks \<lparr>exec_of = e, flags = fold (\<lambda>w fl. fl[w := True]) (woken_by op (exec_of s)) (flags s), codes = (codes s)[k := c' @ c]\<rparr>
          }
      else None)"

lemma send_schedule_steps: "send_schedule beh ks s = Some s' \<Longrightarrow> (send_step beh)\<^sup>*\<^sup>* s s'"
proof (induction beh ks s rule: send_schedule.induct)
  case (2 beh k ks s)
  show ?case
  proof (cases "codes s ! k")
    case Nil
    with 2 show ?thesis by (auto split: if_splits intro: converse_rtranclp_into_rtranclp send_step.send_poll)
  next
    case (Cons op c)
    with 2 show ?thesis by (auto split: if_splits bind_splits intro: converse_rtranclp_into_rtranclp send_step.send_run)
  qed
qed simp

text \<open>A task that wakes itself: after a whole round of one hart, its index is in the queue again and the flag of the hart is set.\<close>

definition rewaking :: "(nat, unit) behaviour" where
  "rewaking index task g = (Pending, task, [Wake index], g)"

definition round_done :: "(nat, unit) send_system \<Rightarrow> bool" where
  "round_done s \<longleftrightarrow> send_wake_queue (exec_of s) = [0] \<and> codes s = [[]]"

lemma rewaking_round:
  "(case send_schedule rewaking (replicate 40 0) (send_start 1 0 [0] ()) of None \<Rightarrow> False | Some s \<Rightarrow> round_done s)"
  "send_handle_poll rewaking (0::nat) (send_executor_new ()) \<noteq> None"
  by code_simp+

theorem send_executor_wakes_across_harts_witness:
  "(\<exists>s. (send_step rewaking)\<^sup>*\<^sup>* (send_start 1 0 [0] ()) s \<and> send_wake_queue (exec_of s) = [0] \<and> flags s ! 0
     \<and> send_step rewaking s (s\<lparr>flags := (flags s)[0 := False], codes := (codes s)[0 := handle_poll_ops 0]\<rparr>))
   \<and> (\<exists>e' r. send_handle_poll rewaking (0::nat) (send_executor_new ()) = Some (r, e') \<and> alone rewaking (handle_poll_ops (0::nat)) (send_executor_new ()) [] e')"
proof -
  obtain s where "send_schedule rewaking (replicate 40 0) (send_start 1 0 [0] ()) = Some s" and d: "round_done s"
    using rewaking_round(1) by (auto split: option.splits)
  then have s: "(send_step rewaking)\<^sup>*\<^sup>* (send_start 1 0 [0] ()) s" by (intro send_schedule_steps)
  from d have q: "send_wake_queue (exec_of s) \<noteq> []" "\<forall>k<1 + 0. codes s ! k = []" by (simp_all add: round_done_def)
  obtain r e' where e: "send_handle_poll rewaking (0::nat) (send_executor_new ()) = Some (r, e')"
    using rewaking_round(2) by auto
  from send_executor_wakes_across_harts [OF s _ q(1), of "0::nat" "send_executor_new ()" r e'] q(2) e s d show ?thesis
    by (auto simp: round_done_def)
qed

text \<open>A task that spawns another one whenever it is polled again.\<close>

definition spawning :: "(nat, unit) behaviour" where
  "spawning index task g = (Pending, 1, if task = 0 then [] else [Spawn 0], g)"

text \<open>Hart 0 drains two new tasks and has pushed the first; then hart 1 polls it.\<close>

definition deadlock_schedule :: "nat list" where
  "deadlock_schedule = replicate 11 0 @ replicate 4 1"

definition deadlocked :: "(nat, unit) send_system \<Rightarrow> bool" where
  "deadlocked s \<longleftrightarrow> ExecutorLock \<in> held (exec_of s) \<and> TaskQueueLock \<in> held (exec_of s) \<and> length (flags s) = 2 \<and> length (codes s) = 2
    \<and> (case codes s of [Acquire ExecutorLock # c, Acquire TaskQueueLock # d] \<Rightarrow> True | _ \<Rightarrow> False)"

lemma deadlock_evaluated:
  "(case send_schedule spawning deadlock_schedule (send_start 2 0 [0, 0] ()) of None \<Rightarrow> False | Some s \<Rightarrow> deadlocked s)"
  by code_simp

lemma deadlock_reached:
  obtains s c d where "send_schedule spawning deadlock_schedule (send_start 2 0 [0, 0] ()) = Some s"
    and "ExecutorLock \<in> held (exec_of s)" "TaskQueueLock \<in> held (exec_of s)" "length (flags s) = 2"
    and "codes s = [Acquire ExecutorLock # c, Acquire TaskQueueLock # d]"
  using deadlock_evaluated by (auto simp: deadlocked_def split: option.splits list.splits sop.splits send_lock.splits)

text \<open>
  C37. Two harts that drive the shared executor can block each other for ever: one that moves spawned tasks into the executor holds the mutex of
  their queue while it takes that of the executor, the other, which polls tasks, holds the mutex of the executor while a task spawns and takes that of
  the queue. Two tasks, of which the first spawns when it is polled again, are enough; no step is possible any more, although both harts are
  in the middle of a poll.
\<close>

theorem send_executor_deadlock:
  "\<exists>s. (send_step spawning)\<^sup>*\<^sup>* (send_start 2 0 [0, 0] ()) s \<and> (\<forall>s'. \<not> send_step spawning s s')
    \<and> ExecutorLock \<in> held (exec_of s) \<and> TaskQueueLock \<in> held (exec_of s)
    \<and> (\<exists>c d. codes s = [Acquire ExecutorLock # c, Acquire TaskQueueLock # d])"
proof -
  obtain s c d where s: "send_schedule spawning deadlock_schedule (send_start 2 0 [0, 0] ()) = Some s"
    and h: "ExecutorLock \<in> held (exec_of s)" "TaskQueueLock \<in> held (exec_of s)" "length (flags s) = 2"
    and c: "codes s = [Acquire ExecutorLock # c, Acquire TaskQueueLock # d]" by (rule deadlock_reached)
  have "\<not> send_step spawning s s'" for s'
  proof
    assume "send_step spawning s s'"
    then show False
    proof cases
      case (send_run k op d' c' e)
      then have "k = 0 \<or> k = 1" using c by auto
      then have "op = Acquire ExecutorLock \<or> op = Acquire TaskQueueLock" using send_run c by auto
      then show False using send_run h by (auto simp: acquire_def)
    next
      case (send_poll i)
      then have "i = 0 \<or> i = 1" using h(3) by auto
      then show False using send_poll c by auto
    next
      case (send_call k d' ef)
      then show False using h(3) c by simp
    qed
  qed
  with send_schedule_steps [OF s] h c show ?thesis by blast
qed

end
