(* ===== verification/Io.thy ===== *)
theory Io
  imports Kernel_Prelude
begin

text \<open>
  \<^verbatim>\<open>kernel_io/src/lib.rs\<close>: the provided methods of the trait \<^verbatim>\<open>Read\<close>. The required method \<^verbatim>\<open>read\<close> is a
  parameter: from the length of the buffer it is given and its state it gives an error or a count,
  the bytes it wrote at the start of the buffer, and its new state. The suspension points of the
  \<^verbatim>\<open>async\<close> methods do not change what they compute. Lengths are natural numbers; a vector of more than
  \<^verbatim>\<open>isize::MAX\<close> bytes cannot be made, and the attempt panics. The error kind of
  \<^verbatim>\<open>kernel_syscall_abi\<close>, of which only one value is made here, and the check of the string encoding are
  parameters too.
\<close>

type_synonym bytes = "u8 list"
type_synonym ('e, 's) reader = "nat \<Rightarrow> 's \<Rightarrow> ('e + nat) \<times> bytes \<times> 's"

definition isize_MAX :: nat where
  "isize_MAX = 2 ^ 63 - 1"

definition resize :: "nat \<Rightarrow> bytes \<Rightarrow> bytes option" where
  "resize n v = do { assert_that (n \<le> isize_MAX); Some (take n v @ replicate (n - length v) 0) }"

text \<open>A call of \<^verbatim>\<open>read\<close> on a buffer: it can change the buffer but not its length.\<close>

definition call_read :: "('e, 's) reader \<Rightarrow> bytes \<Rightarrow> 's \<Rightarrow> ('e + nat) \<times> bytes \<times> 's" where
  "call_read read buf s = (let (r, bs, s) = read (length buf) s
     in (r, take (length buf) (bs @ drop (length bs) buf), s))"

lemma call_read_length [simp]: "length (fst (snd (call_read read buf s))) = length buf"
  by (simp add: call_read_def split_def Let_def)

text \<open>Each method returns the result, the buffer and the state of the reader.\<close>

fun read_vectored_loop :: "('e, 's) reader \<Rightarrow> nat \<Rightarrow> bytes list \<Rightarrow> 's \<Rightarrow> ('e + nat) \<times> bytes list \<times> 's" where
  "read_vectored_loop read n [] s = (Inr n, [], s)"
| "read_vectored_loop read n (b # bs) s =
     (case call_read read b s of
        (Inl e, b, s) \<Rightarrow> (Inl e, b # bs, s)
      | (Inr k, b, s) \<Rightarrow> let (r, bs, s) = read_vectored_loop read (n + k) bs s in (r, b # bs, s))"

definition read_vectored :: "('e, 's) reader \<Rightarrow> bytes list \<Rightarrow> 's \<Rightarrow> ('e + nat) \<times> bytes list \<times> 's" where
  "read_vectored read bufs s = read_vectored_loop read 0 bufs s"

partial_function (option) read_to_end_loop ::
  "('e, 's) reader \<Rightarrow> nat \<Rightarrow> bytes \<Rightarrow> 's \<Rightarrow> (('e + nat) \<times> bytes \<times> 's) option" where
  "read_to_end_loop read n buf s = do {
     buf \<leftarrow> resize (n + 512) buf;
     let (r, here, s) = call_read read (drop n buf) s;
     let buf = take n buf @ here;
     (case r of
        Inl e \<Rightarrow> Some (Inl e, buf, s)
      | Inr k \<Rightarrow>
          if k = 0 then do { buf \<leftarrow> resize n buf; Some (Inr n, buf, s) }
          else read_to_end_loop read (n + k) buf s)
   }"

definition read_to_end :: "('e, 's) reader \<Rightarrow> bytes \<Rightarrow> 's \<Rightarrow> (('e + nat) \<times> bytes \<times> 's) option" where
  "read_to_end read buf s = read_to_end_loop read 0 buf s"

definition read_to_end_new :: "('e, 's) reader \<Rightarrow> 's \<Rightarrow> (('e + (nat \<times> bytes)) \<times> 's) option" where
  "read_to_end_new read s = do {
     (r, v, s) \<leftarrow> read_to_end read [] s;
     Some (map_sum id (\<lambda>n. (n, v)) r, s)
   }"

text \<open>
  \<^verbatim>\<open>read_exact\<close>: the slice shrinks by the count of each call; a count beyond its length panics. The result is
  the outer \<^verbatim>\<open>Result\<close> around the reader's own.
\<close>

function read_exact :: "'x \<Rightarrow> ('e, 's) reader \<Rightarrow> bytes \<Rightarrow> 's \<Rightarrow> (('x + ('e + unit)) \<times> bytes \<times> 's) option" where
  "read_exact eof read buf s =
     (if buf = [] then Some (Inr (Inr ()), [], s)
      else let (r, buf', s) = call_read read buf s in
        case r of
          Inl e \<Rightarrow> Some (Inr (Inl e), buf', s)
        | Inr n \<Rightarrow>
            if n = 0 then Some (Inl eof, buf', s)
            else if n > length buf' then None
            else do {
              (r, rest, s) \<leftarrow> read_exact eof read (drop n buf') s;
              Some (r, take n buf' @ rest, s)
            })"
  by pat_completeness auto

termination
proof (relation "measure (\<lambda>(eof, read, buf, s). length buf)", goal_cases)
  case (2 eof read buf s p r q buf' s' n)
  have "length buf' = length buf"
    using call_read_length [of read buf s] 2 by (metis fst_conv snd_conv)
  with 2 show ?case by simp
qed simp

declare read_exact.simps [simp del]

definition read_to_end_exact ::
  "'x \<Rightarrow> ('e, 's) reader \<Rightarrow> nat \<Rightarrow> 's \<Rightarrow> (('x + ('e + bytes)) \<times> 's) option" where
  "read_to_end_exact eof read len s = do {
     v \<leftarrow> resize len [];
     (r, v, s) \<leftarrow> read_exact eof read v s;
     Some (map_sum id (map_sum id (\<lambda>_. v)) r, s)
   }"

text \<open>\<open>from_utf8\<close> gives the error of an ill-formed string, converted to the outer error type.\<close>

definition read_to_string ::
  "(bytes \<Rightarrow> 'x + string) \<Rightarrow> ('e, 's) reader \<Rightarrow> string \<Rightarrow> 's \<Rightarrow> (('x + ('e + nat)) \<times> string \<times> 's) option" where
  "read_to_string from_utf8 read buf s = do {
     (r, vec, s) \<leftarrow> read_to_end read [] s;
     (case r of
        Inl e \<Rightarrow> Some (Inr (Inl e), buf, s)
      | Inr n \<Rightarrow>
          (case from_utf8 vec of
             Inl x \<Rightarrow> Some (Inl x, buf, s)
           | Inr str \<Rightarrow> Some (Inr (Inr n), buf @ str, s)))
   }"

definition read_to_string_new ::
  "(bytes \<Rightarrow> 'x + string) \<Rightarrow> ('e, 's) reader \<Rightarrow> 's \<Rightarrow> (('x + ('e + (nat \<times> string))) \<times> 's) option" where
  "read_to_string_new from_utf8 read s = do {
     (r, v, s) \<leftarrow> read_to_string from_utf8 read [] s;
     Some (map_sum id (map_sum id (\<lambda>n. (n, v))) r, s)
   }"

section \<open>Readers of a finite stream\<close>

text \<open>
  \<open>content s\<close> is what is still to be read: a call with room for at least one byte delivers a prefix of it,
  of any length but not empty unless the stream is at its end.
\<close>

definition stream_reader :: "('e, 's) reader \<Rightarrow> ('s \<Rightarrow> bytes) \<Rightarrow> bool" where
  "stream_reader read content \<longleftrightarrow> (\<forall>len s. 0 < len \<longrightarrow>
     (\<exists>n s'. read len s = (Inr n, take n (content s), s') \<and> content s' = drop n (content s)
        \<and> n \<le> len \<and> n \<le> length (content s) \<and> (n = 0 \<longrightarrow> content s = [])))"

lemma stream_readE:
  assumes "stream_reader read content" and "buf \<noteq> []"
  obtains n s' where "call_read read buf s = (Inr n, take n (content s) @ drop n buf, s')"
    "content s' = drop n (content s)" "n \<le> length buf" "n \<le> length (content s)" "n = 0 \<longrightarrow> content s = []"
proof -
  have "0 < length buf" using assms(2) by simp
  with assms(1) obtain n s' where "read (length buf) s = (Inr n, take n (content s), s')"
    "content s' = drop n (content s)" "n \<le> length buf" "n \<le> length (content s)" "n = 0 \<longrightarrow> content s = []"
    unfolding stream_reader_def by meson
  then show ?thesis by (intro that [of n s']) (simp_all add: call_read_def)
qed

text \<open>
  C31. On a finite stream, whatever the sizes of the pieces in which it arrives, \<^verbatim>\<open>read_to_end\<close> ends, returns the
  number of bytes of the stream and leaves exactly these bytes in the vector; what the vector held
  before is lost.
\<close>

theorem read_to_end_reads_stream:
  assumes "stream_reader read content" and "length (content s) + 512 \<le> isize_MAX"
  shows "\<exists>s'. read_to_end read buf s = Some (Inr (length (content s)), content s, s') \<and> content s' = []"
proof -
  have "\<exists>s'. read_to_end_loop read n b s = Some (Inr (n + length (content s)), take n b @ content s, s') \<and> content s' = []"
    if "n \<le> length b" "n + length (content s) + 512 \<le> isize_MAX" for n b s
    using that
  proof (induction "length (content s)" arbitrary: n b s rule: less_induct)
    case less
    let ?b = "take (n + 512) b @ replicate (n + 512 - length b) 0"
    have b: "resize (n + 512) b = Some ?b" "take n ?b = take n b" "drop n ?b \<noteq> []" "length (take n b) = n"
      using less.prems by (auto simp: resize_def min_def)
    from stream_readE [OF assms(1) b(3), of s] obtain k s' where
      k: "call_read read (drop n ?b) s = (Inr k, take k (content s) @ drop k (drop n ?b), s')"
      "content s' = drop k (content s)" "k \<le> length (content s)" "k = 0 \<longrightarrow> content s = []" by metis
    show ?case
    proof (cases "k = 0")
      case True
      have "resize n (take n b @ take k (content s) @ drop k (drop n ?b)) = Some (take n b)"
        using less.prems b(4) True by (auto simp: resize_def)
      then show ?thesis
        using True k b by (subst read_to_end_loop.simps) (simp add: Let_def)
    next
      case False
      let ?b' = "take n b @ take k (content s) @ drop k (drop n ?b)"
      have "length (content s') < length (content s)" using k False by simp
      moreover have "n + k \<le> length ?b'" using b(4) k(3) by simp
      moreover have "n + k + length (content s') + 512 \<le> isize_MAX" using less.prems(2) k by simp
      ultimately obtain s'' where "read_to_end_loop read (n + k) ?b' s'
          = Some (Inr (n + k + length (content s')), take (n + k) ?b' @ content s', s'')" "content s'' = []"
        using less.hyps by blast
      moreover have "take (n + k) ?b' @ content s' = take n b @ content s"
        using b(4) k(2,3) by simp
      ultimately show ?thesis
        using False k b by (subst read_to_end_loop.simps) (simp add: Let_def)
    qed
  qed
  from this [of 0 buf s] assms(2) show ?thesis by (simp add: read_to_end_def)
qed

text \<open>A stream that arrives in pieces of at most three bytes.\<close>

definition piecewise :: "(unit, bytes) reader" where
  "piecewise len s = (let n = min 3 (min len (length s)) in (Inr n, take n s, drop n s))"

lemma piecewise_stream: "stream_reader piecewise (\<lambda>s. s)"
  by (auto simp: stream_reader_def piecewise_def Let_def min_def split: if_splits)

theorem read_to_end_reads_stream_witness:
  "\<exists>s'. read_to_end piecewise [9, 9] [1, 2, 3, 4, 5] = Some (Inr 5, [1, 2, 3, 4, 5], s') \<and> s' = []"
  using read_to_end_reads_stream [OF piecewise_stream, of "[1, 2, 3, 4, 5]" "[9, 9]"] by (simp add: isize_MAX_def)

text \<open>
  On a finite stream \<^verbatim>\<open>read_exact\<close> always returns: with enough bytes left it fills the buffer with the next
  ones and leaves the rest of the stream; otherwise it reports the end of the stream, which is then used
  up, with the buffer filled as far as there were bytes.
\<close>

theorem read_exact_fills_buffer:
  assumes "stream_reader read content"
  shows "(length buf \<le> length (content s) \<longrightarrow>
      (\<exists>s'. read_exact eof read buf s = Some (Inr (Inr ()), take (length buf) (content s), s')
         \<and> content s' = drop (length buf) (content s)))
    \<and> (length (content s) < length buf \<longrightarrow>
      (\<exists>s'. read_exact eof read buf s = Some (Inl eof, content s @ drop (length (content s)) buf, s')
         \<and> content s' = []))"
proof (induction "length buf" arbitrary: buf s rule: less_induct)
  case less
  show ?case
  proof (cases "buf = []")
    case True
    then show ?thesis by (simp add: read_exact.simps)
  next
    case False
    from stream_readE [OF assms False, of s] obtain n s' where
      n: "call_read read buf s = (Inr n, take n (content s) @ drop n buf, s')"
      "content s' = drop n (content s)" "n \<le> length buf" "n \<le> length (content s)" "n = 0 \<longrightarrow> content s = []"
      by metis
    show ?thesis
    proof (cases "n = 0")
      case True
      then show ?thesis using n False by (simp add: read_exact.simps [of eof read buf])
    next
      case False
      have run: "read_exact eof read buf s = do {
          (r, rest, t) \<leftarrow> read_exact eof read (drop n buf) s';
          Some (r, take n (content s) @ rest, t) }"
        using n False \<open>buf \<noteq> []\<close> by (simp add: read_exact.simps [of eof read buf])
      have "length (drop n buf) < length buf" using False \<open>buf \<noteq> []\<close> by simp
      note IH = less.hyps [OF this, of s']
      show ?thesis
      proof (intro conjI impI)
        assume "length buf \<le> length (content s)"
        with IH n(2-4) obtain s'' where "read_exact eof read (drop n buf) s'
            = Some (Inr (Inr ()), take (length buf - n) (drop n (content s)), s'')"
          "content s'' = drop (length buf - n) (drop n (content s))" by auto
        then show "\<exists>s'. read_exact eof read buf s = Some (Inr (Inr ()), take (length buf) (content s), s')
            \<and> content s' = drop (length buf) (content s)"
          using n(3) by (simp add: run flip: take_add)
      next
        assume "length (content s) < length buf"
        with IH n(2-4) obtain s'' where "read_exact eof read (drop n buf) s'
            = Some (Inl eof, drop n (content s) @ drop (length (content s) - n) (drop n buf), s'')" "content s'' = []"
          by auto
        then show "\<exists>s'. read_exact eof read buf s = Some (Inl eof, content s @ drop (length (content s)) buf, s')
            \<and> content s' = []"
          using n(4) by (simp add: run)
      qed
    qed
  qed
qed

theorem read_exact_fills_buffer_witness:
  "\<exists>s'. read_exact () piecewise [0, 0, 0, 0] [1, 2, 3, 4, 5] = Some (Inr (Inr ()), [1, 2, 3, 4], s') \<and> s' = [5]"
  using read_exact_fills_buffer [OF piecewise_stream, of "[0, 0, 0, 0]" "[1, 2, 3, 4, 5]" "()"] by simp

end
