(* ===== verification/Refcounts.thy ===== *)
theory Refcounts
  imports Kernel_Prelude
begin

text \<open>
  Reference counting. \<^verbatim>\<open>kernel_send_generic\<close> has a trait for it with one implementation over \<^verbatim>\<open>Rc\<close>
  (\<^verbatim>\<open>single_threaded.rs\<close>); \<^verbatim>\<open>kernel_lock/src/lock/mod.rs\<close> has another over \<^verbatim>\<open>Arc\<close>. Both only forward
  to the standard library. This is what they and the waker of the local executor (\<^verbatim>\<open>non_send_waker.rs\<close>), which keeps a box of this kind
  through raw pointers, use of \<^verbatim>\<open>Rc\<close>: a store of boxes with a strong count, a weak count
  and the value, which is dropped with the last strong handle; the box goes with the last handle of either
  kind. Using a handle whose box is gone is undefined behaviour, and a count that would not fit into a \<^verbatim>\<open>usize\<close> aborts; both are
  \<^const>\<open>None\<close>. The address that the allocator gives a new box is an argument.
\<close>

record 'a rc_box =
  rc_strong :: nat
  rc_weak :: nat
  rc_data :: "'a option"

type_synonym 'a rc_store = "nat \<rightharpoonup> 'a rc_box"

datatype weak_handle = Dangling | WeakTo nat

text \<open>The weak count of the box includes one for all strong handles together.\<close>

definition weak_fits :: "'a rc_box \<Rightarrow> bool" where
  "weak_fits b \<longleftrightarrow> rc_weak b + (if rc_strong b = 0 then 0 else 1) + 1 < 2 ^ 64"

definition strong_fits :: "'a rc_box \<Rightarrow> bool" where
  "strong_fits b \<longleftrightarrow> rc_strong b + 1 < 2 ^ 64"

section \<open>The operations\<close>

definition refcount_new :: "nat \<Rightarrow> 'a \<Rightarrow> 'a rc_store \<Rightarrow> 'a rc_store" where
  "refcount_new a internal st = st(a \<mapsto> \<lparr>rc_strong = 1, rc_weak = 0, rc_data = Some internal\<rparr>)"

definition refcount_deref :: "nat \<Rightarrow> 'a rc_store \<Rightarrow> 'a option" where
  "refcount_deref a st = do { b \<leftarrow> st a; rc_data b }"

definition refcount_clone :: "nat \<Rightarrow> 'a rc_store \<Rightarrow> 'a rc_store option" where
  "refcount_clone a st = do {
     b \<leftarrow> st a;
     assert_that (0 < rc_strong b \<and> strong_fits b);
     Some (st(a \<mapsto> b\<lparr>rc_strong := rc_strong b + 1\<rparr>))
   }"

text \<open>A box without handles is deallocated.\<close>

definition put_box :: "nat \<Rightarrow> 'a rc_box \<Rightarrow> 'a rc_store \<Rightarrow> 'a rc_store" where
  "put_box a b st = (if rc_strong b = 0 \<and> rc_weak b = 0 then st(a := None) else st(a \<mapsto> b))"

definition refcount_drop :: "nat \<Rightarrow> 'a rc_store \<Rightarrow> 'a rc_store option" where
  "refcount_drop a st = do {
     b \<leftarrow> st a;
     assert_that (0 < rc_strong b);
     let b = b\<lparr>rc_strong := rc_strong b - 1\<rparr>;
     Some (put_box a (if rc_strong b = 0 then b\<lparr>rc_data := None\<rparr> else b) st)
   }"

definition refcount_downgrade :: "nat \<Rightarrow> 'a rc_store \<Rightarrow> (weak_handle \<times> 'a rc_store) option" where
  "refcount_downgrade a st = do {
     b \<leftarrow> st a;
     assert_that (0 < rc_strong b \<and> weak_fits b);
     Some (WeakTo a, st(a \<mapsto> b\<lparr>rc_weak := rc_weak b + 1\<rparr>))
   }"

definition weak_default :: weak_handle where
  "weak_default = Dangling"

fun weak_clone :: "weak_handle \<Rightarrow> 'a rc_store \<Rightarrow> 'a rc_store option" where
  "weak_clone Dangling st = Some st"
| "weak_clone (WeakTo a) st = do {
     b \<leftarrow> st a;
     assert_that (0 < rc_weak b \<and> weak_fits b);
     Some (st(a \<mapsto> b\<lparr>rc_weak := rc_weak b + 1\<rparr>))
   }"

fun weak_upgrade :: "weak_handle \<Rightarrow> 'a rc_store \<Rightarrow> (nat option \<times> 'a rc_store) option" where
  "weak_upgrade Dangling st = Some (None, st)"
| "weak_upgrade (WeakTo a) st = do {
     b \<leftarrow> st a;
     if rc_strong b = 0 then Some (None, st)
     else do {
       assert_that (strong_fits b);
       Some (Some a, st(a \<mapsto> b\<lparr>rc_strong := rc_strong b + 1\<rparr>))
     }
   }"

end
