(* ===== verification/Local_Waker.thy ===== *)
theory Local_Waker
  imports Refcounts Executor
begin

text \<open>
  \<^verbatim>\<open>kernel_executor/src/non_send_waker.rs\<close>: the waker that the local executor hands to a task is a raw
  pointer to a reference-counted \<^verbatim>\<open>LocalWaker\<close>, whose value here is the index of the task. The four
  functions of the vtable turn the pointer into a counted handle and back; waking goes to the executor.
  The executor is alive while its tasks are polled; a waker that outlives it is not modelled.
\<close>

text \<open>\<^verbatim>\<open>Rc::from_raw\<close>: the handle that a raw pointer stands for, whose count is the pointer's own.\<close>

definition get_waker_rc :: "nat \<Rightarrow> nat rc_store \<Rightarrow> nat option" where
  "get_waker_rc data st = do {
     b \<leftarrow> st data;
     assert_that (0 < rc_strong b);
     Some data
   }"

text \<open>\<^verbatim>\<open>rc_wake\<close> of the trait consumes the handle.\<close>

definition rc_wake ::
  "nat \<Rightarrow> nat rc_store \<times> ('t, 'w, 'g) LocalExecutor \<Rightarrow> (nat rc_store \<times> ('t, 'w, 'g) LocalExecutor) option" where
  "rc_wake w = (\<lambda>(st, self). do {
     index \<leftarrow> refcount_deref w st;
     let self = rc_wake_by_ref index self;
     st \<leftarrow> refcount_drop w st;
     Some (st, self)
   })"

definition into_waker :: "nat \<Rightarrow> nat \<Rightarrow> nat rc_store \<Rightarrow> nat rc_store" where
  "into_waker ptr index st = refcount_new ptr index st"

definition waker_clone :: "nat \<Rightarrow> nat rc_store \<Rightarrow> nat rc_store option" where
  "waker_clone ptr st = refcount_clone ptr st"

definition waker_wake_by_ref ::
  "nat \<Rightarrow> nat rc_store \<times> ('t, 'w, 'g) LocalExecutor \<Rightarrow> (nat rc_store \<times> ('t, 'w, 'g) LocalExecutor) option" where
  "waker_wake_by_ref ptr = (\<lambda>(st, self). do {
     w \<leftarrow> get_waker_rc ptr st;
     index \<leftarrow> refcount_deref w st;
     Some (st, rc_wake_by_ref index self)
   })"

definition waker_wake ::
  "nat \<Rightarrow> nat rc_store \<times> ('t, 'w, 'g) LocalExecutor \<Rightarrow> (nat rc_store \<times> ('t, 'w, 'g) LocalExecutor) option" where
  "waker_wake ptr = (\<lambda>(st, self). do {
     w \<leftarrow> get_waker_rc ptr st;
     rc_wake w (st, self)
   })"

definition waker_drop :: "nat \<Rightarrow> nat rc_store \<Rightarrow> nat rc_store option" where
  "waker_drop ptr st = do { w \<leftarrow> get_waker_rc ptr st; refcount_drop w st }"

section \<open>The life of a waker\<close>

datatype waker_call = CloneWaker | WakeWaker | WakeByRef | DropWaker

fun waker_exec :: "nat \<Rightarrow> waker_call \<Rightarrow> nat rc_store \<times> ('t, 'w, 'g) LocalExecutor
    \<Rightarrow> (nat rc_store \<times> ('t, 'w, 'g) LocalExecutor) option" where
  "waker_exec ptr CloneWaker (st, self) = map_option (\<lambda>st. (st, self)) (waker_clone ptr st)"
| "waker_exec ptr WakeWaker s = waker_wake ptr s"
| "waker_exec ptr WakeByRef s = waker_wake_by_ref ptr s"
| "waker_exec ptr DropWaker (st, self) = map_option (\<lambda>st. (st, self)) (waker_drop ptr st)"

text \<open>
  How many wakers are left after the calls, if each call is made on a waker that is there and there are never more than a \<^verbatim>\<open>usize\<close> can count.
\<close>

fun wakers_left :: "nat \<Rightarrow> waker_call list \<Rightarrow> nat option" where
  "wakers_left n [] = Some n"
| "wakers_left 0 (c # cs) = None"
| "wakers_left (Suc n) (CloneWaker # cs) = (if Suc (Suc n) < 2 ^ 64 then wakers_left (Suc (Suc n)) cs else None)"
| "wakers_left (Suc n) (WakeByRef # cs) = wakers_left (Suc n) cs"
| "wakers_left (Suc n) (WakeWaker # cs) = wakers_left n cs"
| "wakers_left (Suc n) (DropWaker # cs) = wakers_left n cs"

definition wakes :: "waker_call list \<Rightarrow> nat" where
  "wakes cs = length (filter (\<lambda>c. c = WakeWaker \<or> c = WakeByRef) cs)"

lemma wakes_simps [simp]:
  "wakes [] = 0" "wakes (CloneWaker # cs) = wakes cs" "wakes (WakeWaker # cs) = Suc (wakes cs)"
  "wakes (WakeByRef # cs) = Suc (wakes cs)" "wakes (DropWaker # cs) = wakes cs"
  by (simp_all add: wakes_def)

text \<open>The box of a waker with \<open>n\<close> clones; with none it has been freed.\<close>

definition waker_box :: "nat \<Rightarrow> nat \<Rightarrow> nat rc_box option" where
  "waker_box index n = (if n = 0 then None else Some \<lparr>rc_strong = n, rc_weak = 0, rc_data = Some index\<rparr>)"

lemmas waker_defs =
  waker_clone_def waker_wake_def waker_wake_by_ref_def waker_drop_def refcount_clone_def refcount_drop_def
  refcount_deref_def put_box_def waker_box_def get_waker_rc_def rc_wake_def strong_fits_def

lemma waker_exec_box:
  assumes "st ptr = waker_box index (Suc n)"
  shows "Suc (Suc n) < 2 ^ 64 \<Longrightarrow> waker_exec ptr CloneWaker (st, self) = Some (st(ptr := waker_box index (Suc (Suc n))), self)"
    and "waker_exec ptr WakeByRef (st, self) = Some (st, rc_wake_by_ref index self)"
    and "waker_exec ptr WakeWaker (st, self) = Some (st(ptr := waker_box index n), rc_wake_by_ref index self)"
    and "waker_exec ptr DropWaker (st, self) = Some (st(ptr := waker_box index n), self)"
  using assms by (simp_all add: waker_defs Let_def)

lemma waker_run:
  assumes "wakers_left n cs = Some m" and "st ptr = waker_box index n"
  shows "\<exists>self'. foldM (waker_exec ptr) cs (st, self) = Some (st(ptr := waker_box index m), self')
    \<and> wake_queue self' = wake_queue self @ replicate (wakes cs) index
    \<and> tasks self' = tasks self
    \<and> (if wakes cs = 0 then self' = self
       else outer_wakers self' = [] \<and> outer_woken self' = outer_woken self @ outer_wakers self)"
  using assms
proof (induction n cs arbitrary: st self rule: wakers_left.induct)
  case (1 n)
  then show ?case by (auto simp: fun_upd_idem)
next
  case (3 n cs)
  have "foldM (waker_exec ptr) (CloneWaker # cs) (st, self) = foldM (waker_exec ptr) cs (st(ptr := waker_box index (Suc (Suc n))), self)"
    using waker_exec_box [of st ptr, OF "3.prems"(2), of self] "3.prems"(1) by (simp del: waker_exec.simps split: if_splits)
  with "3.IH" [of "st(ptr := waker_box index (Suc (Suc n)))" "self"] "3.prems" show ?case
    by (auto simp: rc_wake_by_ref_def fun_upd_same simp del: waker_exec.simps foldM.simps fun_upd_apply split: if_splits)
next
  case (4 n cs)
  have "foldM (waker_exec ptr) (WakeByRef # cs) (st, self) = foldM (waker_exec ptr) cs (st, rc_wake_by_ref index self)"
    using waker_exec_box [of st ptr, OF "4.prems"(2), of self] by (simp del: waker_exec.simps)
  with "4.IH" [of "st" "rc_wake_by_ref index self"] "4.prems" show ?case
    by (auto simp: rc_wake_by_ref_def fun_upd_same simp del: waker_exec.simps foldM.simps fun_upd_apply split: if_splits)
next
  case (5 n cs)
  have "foldM (waker_exec ptr) (WakeWaker # cs) (st, self) = foldM (waker_exec ptr) cs (st(ptr := waker_box index n), rc_wake_by_ref index self)"
    using waker_exec_box [of st ptr, OF "5.prems"(2), of self] by (simp del: waker_exec.simps)
  with "5.IH" [of "st(ptr := waker_box index n)" "rc_wake_by_ref index self"] "5.prems" show ?case
    by (auto simp: rc_wake_by_ref_def fun_upd_same simp del: waker_exec.simps foldM.simps fun_upd_apply split: if_splits)
next
  case (6 n cs)
  have "foldM (waker_exec ptr) (DropWaker # cs) (st, self) = foldM (waker_exec ptr) cs (st(ptr := waker_box index n), self)"
    using waker_exec_box [of st ptr, OF "6.prems"(2), of self] by (simp del: waker_exec.simps)
  with "6.IH" [of "st(ptr := waker_box index n)" "self"] "6.prems" show ?case
    by (auto simp: rc_wake_by_ref_def fun_upd_same simp del: waker_exec.simps foldM.simps fun_upd_apply split: if_splits)
qed simp

text \<open>
  C28. A waker and its clones, used in any order and never more at a time than a \<^verbatim>\<open>usize\<close> can count: no call touches a freed waker, each wake puts the index of
  the task into the wake queue of the executor exactly once and the first one wakes everything that waits for
  the executor; the counted block is freed exactly with the last clone, and no other block changes.
\<close>

theorem local_waker_lifecycle:
  assumes "wakers_left 1 cs = Some m"
  shows "\<exists>st' self'. foldM (waker_exec ptr) cs (into_waker ptr index st, self) = Some (st', self')
    \<and> wake_queue self' = wake_queue self @ replicate (wakes cs) index
    \<and> (wakes cs \<noteq> 0 \<longrightarrow> outer_wakers self' = [] \<and> outer_woken self' = outer_woken self @ outer_wakers self)
    \<and> (st' ptr = None \<longleftrightarrow> m = 0) \<and> (\<forall>p. p \<noteq> ptr \<longrightarrow> st' p = st p)"
proof -
  have "into_waker ptr index st ptr = waker_box index 1"
    by (simp add: into_waker_def refcount_new_def waker_box_def)
  from waker_run [where st = "into_waker ptr index st" and ptr = ptr, OF assms this, of self] show ?thesis
    by (auto simp: into_waker_def refcount_new_def waker_box_def split: if_splits)
qed

theorem local_waker_lifecycle_witness:
  "\<exists>st' self'. foldM (waker_exec 5) [CloneWaker, WakeByRef, DropWaker, WakeWaker]
      (into_waker 5 3 Map.empty, executor_new () :: (nat, nat, unit) LocalExecutor) = Some (st', self')
    \<and> wake_queue self' = [3, 3] \<and> st' 5 = None"
proof -
  have "wakers_left 1 [CloneWaker, WakeByRef, DropWaker, WakeWaker] = Some 0"
    by (simp add: One_nat_def)
  from local_waker_lifecycle [OF this, of 5 3 Map.empty "executor_new ()"] show ?thesis
    by (auto simp: executor_new_def)
qed

end
