(* ===== verification/Thread_Locality.thy ===== *)
theory Thread_Locality
  imports Spin_Locks
begin

text \<open>
  The locks of \<^verbatim>\<open>kernel_send_generic\<close> (\<^verbatim>\<open>lib.rs\<close>, \<^verbatim>\<open>single_threaded.rs\<close>) and \<^verbatim>\<open>kernel_lock/src/lock/mod.rs\<close>: code
  that is generic in a \<^verbatim>\<open>ThreadLocality\<close> uses the traits \<^verbatim>\<open>Locking\<close> and \<^verbatim>\<open>RwLocking\<close>, which are \<^verbatim>\<open>RefCell\<close>s on
  one thread and spin locks between threads. The traits are locales here; a guard that goes out of scope is
  the operation \<open>drop_read\<close> or \<open>drop_write\<close>, and its \<^verbatim>\<open>Deref\<close> and \<^verbatim>\<open>DerefMut\<close> read and replace the value.
\<close>

section \<open>The cells\<close>

text \<open>The borrow flag of \<^verbatim>\<open>RefCell\<close>: the number of readers, or \<open>-1\<close> for a writer.\<close>

record 'a RefCell =
  borrow_flag :: usize
  cell_value :: 'a

definition refcell_borrow :: "'a RefCell \<Rightarrow> 'a RefCell option" where
  "refcell_borrow c = do {
     let b = borrow_flag c + 1;
     assert_that (0 < sint b);
     Some (c\<lparr>borrow_flag := b\<rparr>)
   }"

definition refcell_borrow_mut :: "'a RefCell \<Rightarrow> 'a RefCell option" where
  "refcell_borrow_mut c = do {
     assert_that (borrow_flag c = 0);
     Some (c\<lparr>borrow_flag := - 1\<rparr>)
   }"

definition ref_drop :: "'a RefCell \<Rightarrow> 'a RefCell" where
  "ref_drop c = c\<lparr>borrow_flag := borrow_flag c - 1\<rparr>"

definition refmut_drop :: "'a RefCell \<Rightarrow> 'a RefCell" where
  "refmut_drop c = c\<lparr>borrow_flag := borrow_flag c + 1\<rparr>"

text \<open>\<^verbatim>\<open>ThreadRwLocking\<close>\<close>

definition thread_new :: "'a \<Rightarrow> 'a RefCell" where
  "thread_new internal = \<lparr>borrow_flag = 0, cell_value = internal\<rparr>"

definition thread_write :: "'a RefCell \<Rightarrow> 'a RefCell option" where
  "thread_write self = refcell_borrow_mut self"

definition thread_read :: "'a RefCell \<Rightarrow> 'a RefCell option" where
  "thread_read self = refcell_borrow self"

text \<open>\<^verbatim>\<open>AtomicRwLocking\<close> and \<^verbatim>\<open>AtomicLocking\<close>: the raw lock and the value it protects.\<close>

record 'a AtomicRwLocking =
  raw_rw :: RawSpinRwLock
  rw_data :: 'a

definition atomic_rw_new :: "'a \<Rightarrow> 'a AtomicRwLocking" where
  "atomic_rw_new internal = \<lparr>raw_rw = spin_rwlock_INIT, rw_data = internal\<rparr>"

definition atomic_write :: "'a AtomicRwLocking \<Rightarrow> 'a AtomicRwLocking option" where
  "atomic_write self = map_option (\<lambda>l. self\<lparr>raw_rw := l\<rparr>) (spin_lock_exclusive (raw_rw self))"

definition atomic_read :: "'a AtomicRwLocking \<Rightarrow> 'a AtomicRwLocking option" where
  "atomic_read self = map_option (\<lambda>l. self\<lparr>raw_rw := l\<rparr>) (spin_lock_shared (raw_rw self))"

definition atomic_drop_read :: "'a AtomicRwLocking \<Rightarrow> 'a AtomicRwLocking" where
  "atomic_drop_read self = self\<lparr>raw_rw := spin_unlock_shared (raw_rw self)\<rparr>"

definition atomic_drop_write :: "'a AtomicRwLocking \<Rightarrow> 'a AtomicRwLocking" where
  "atomic_drop_write self = self\<lparr>raw_rw := spin_unlock_exclusive (raw_rw self)\<rparr>"

record 'a AtomicLocking =
  raw_mx :: RawSpinlock
  mx_data :: 'a

definition atomic_mx_new :: "'a \<Rightarrow> 'a AtomicLocking" where
  "atomic_mx_new internal = \<lparr>raw_mx = spinlock_INIT, mx_data = internal\<rparr>"

definition atomic_lock :: "'a AtomicLocking \<Rightarrow> 'a AtomicLocking option" where
  "atomic_lock self = map_option (\<lambda>l. self\<lparr>raw_mx := l\<rparr>) (spin_lock (raw_mx self))"

definition atomic_drop_lock :: "'a AtomicLocking \<Rightarrow> 'a AtomicLocking" where
  "atomic_drop_lock self = self\<lparr>raw_mx := spin_unlock (raw_mx self)\<rparr>"

text \<open>\<^verbatim>\<open>SimpleLockWrapper\<close>: a reader-writer lock used only for writing.\<close>

definition wrapper_new :: "('a \<Rightarrow> 's) \<Rightarrow> 'a \<Rightarrow> 's" where
  "wrapper_new rw_new internal = rw_new internal"

definition wrapper_lock :: "('s \<Rightarrow> 's option) \<Rightarrow> 's \<Rightarrow> 's option" where
  "wrapper_lock rw_write self = rw_write self"

section \<open>Programs that use a lock\<close>

datatype 'a guard_op = Acquire | Release | AcquireRead | ReleaseRead | Get | Set 'a

text \<open>
  The abstract lock: the guards that are out and the value. A request that has to wait for the program itself
  never returns. Guards that are not out cannot be used, which the type system of the source guarantees:
  \<open>guarded\<close> says that a program keeps to it.
\<close>

type_synonym 'a guard_state = "rw_state \<times> 'a"

fun guard_spec :: "'a guard_op \<Rightarrow> 'a guard_state \<Rightarrow> ('a option \<times> 'a guard_state) option" where
  "guard_spec Acquire (g, v) = (if g = Readers 0 then Some (None, Writer, v) else None)"
| "guard_spec Release (g, v) = Some (None, Readers 0, v)"
| "guard_spec AcquireRead (g, v) =
     (case g of Readers n \<Rightarrow> if n < reader_limit then Some (None, Readers (Suc n), v) else None | Writer \<Rightarrow> None)"
| "guard_spec ReleaseRead (g, v) = (case g of Readers n \<Rightarrow> Some (None, Readers (n - 1), v) | Writer \<Rightarrow> None)"
| "guard_spec Get (g, v) = Some (Some v, g, v)"
| "guard_spec (Set x) (g, v) = Some (None, g, x)"

fun guard_legal :: "'a guard_op \<Rightarrow> 'a guard_state \<Rightarrow> bool" where
  "guard_legal Acquire (g, v) = True"
| "guard_legal Release (g, v) = (g = Writer)"
| "guard_legal AcquireRead (g, v) = True"
| "guard_legal ReleaseRead (g, v) = (case g of Readers n \<Rightarrow> 0 < n | Writer \<Rightarrow> False)"
| "guard_legal Get (g, v) = (g \<noteq> Readers 0)"
| "guard_legal (Set x) (g, v) = (g = Writer)"

fun guarded :: "'a guard_op list \<Rightarrow> 'a guard_state \<Rightarrow> bool" where
  "guarded [] s = True"
| "guarded (c # cs) s \<longleftrightarrow> guard_legal c s \<and> (case guard_spec c s of None \<Rightarrow> True | Some (r, s') \<Rightarrow> guarded cs s')"

fun guard_exec ::
  "('s \<Rightarrow> 's option) \<Rightarrow> ('s \<Rightarrow> 's) \<Rightarrow> ('s \<Rightarrow> 's option) \<Rightarrow> ('s \<Rightarrow> 's) \<Rightarrow> ('s \<Rightarrow> 'a) \<Rightarrow> ('a \<Rightarrow> 's \<Rightarrow> 's)
     \<Rightarrow> 'a guard_op \<Rightarrow> 's \<Rightarrow> ('a option \<times> 's) option" where
  "guard_exec wr dw rd dr get put Acquire s = map_option (Pair None) (wr s)"
| "guard_exec wr dw rd dr get put Release s = Some (None, dw s)"
| "guard_exec wr dw rd dr get put AcquireRead s = map_option (Pair None) (rd s)"
| "guard_exec wr dw rd dr get put ReleaseRead s = Some (None, dr s)"
| "guard_exec wr dw rd dr get put Get s = Some (Some (get s), s)"
| "guard_exec wr dw rd dr get put (Set x) s = Some (None, put x s)"

text \<open>A lock that agrees with the abstract one on every legal call agrees on every guarded program.\<close>

lemma guarded_run_agrees:
  assumes step: "\<And>c s. ok s \<Longrightarrow> legal c \<Longrightarrow> guard_legal c (view s) \<Longrightarrow>
      (case guard_spec c (view s) of None \<Rightarrow> exec c s = None
       | Some (r, a) \<Rightarrow> \<exists>s'. exec c s = Some (r, s') \<and> view s' = a \<and> ok s')"
    and "ok s" and "guarded cs (view s)" and "\<forall>c\<in>set cs. legal c"
  shows "map_option (\<lambda>(rs, s). (rs, view s)) (run_calls exec cs s) = run_calls guard_spec cs (view s)"
  using assms(2-4)
proof (induction cs arbitrary: s)
  case (Cons c cs)
  then have st: "case guard_spec c (view s) of None \<Rightarrow> exec c s = None
       | Some (r, a) \<Rightarrow> \<exists>s'. exec c s = Some (r, s') \<and> view s' = a \<and> ok s'"
    by (intro step) auto
  show ?case
  proof (cases "guard_spec c (view s)")
    case None
    with st show ?thesis by simp
  next
    case (Some p)
    obtain r a where p: "p = (r, a)" by (cases p)
    with st Some obtain s' where s': "exec c s = Some (r, s')" "view s' = a" "ok s'" by auto
    with Cons.prems Some p have g: "guarded cs (view s')" by simp
    have "map_option (\<lambda>(rs, s). (rs, view s)) (run_calls exec cs s') = run_calls guard_spec cs (view s')"
      using Cons.IH [OF s'(3) g] Cons.prems(3) by simp
    from this [symmetric] Some p s' show ?thesis
      by (cases "run_calls exec cs s'") auto
  qed
qed simp

section \<open>The traits\<close>

fun is_read_op :: "'a guard_op \<Rightarrow> bool" where
  "is_read_op AcquireRead = True"
| "is_read_op ReleaseRead = True"
| "is_read_op op = False"

locale Locking =
  fixes view :: "'s \<Rightarrow> 'a guard_state" and ok :: "'s \<Rightarrow> bool"
    and lk_new :: "'a \<Rightarrow> 's" and lk_lock :: "'s \<Rightarrow> 's option" and lk_drop :: "'s \<Rightarrow> 's"
    and lk_get :: "'s \<Rightarrow> 'a" and lk_put :: "'a \<Rightarrow> 's \<Rightarrow> 's"
  assumes lk_new_ok: "ok (lk_new v) \<and> view (lk_new v) = (Readers 0, v)"
    and lk_lock_free: "ok s \<Longrightarrow> view s = (Readers 0, v) \<Longrightarrow> \<exists>s'. lk_lock s = Some s' \<and> view s' = (Writer, v) \<and> ok s'"
    and lk_lock_busy: "ok s \<Longrightarrow> fst (view s) \<noteq> Readers 0 \<Longrightarrow> lk_lock s = None"
    and lk_drop_ok: "ok s \<Longrightarrow> view s = (Writer, v) \<Longrightarrow> view (lk_drop s) = (Readers 0, v) \<and> ok (lk_drop s)"
    and lk_get_ok: "ok s \<Longrightarrow> lk_get s = snd (view s)"
    and lk_put_ok: "ok s \<Longrightarrow> view s = (Writer, v) \<Longrightarrow> view (lk_put x s) = (Writer, x) \<and> ok (lk_put x s)"
begin

lemma lk_step:
  assumes "ok s" "\<not> is_read_op c" "guard_legal c (view s)"
  shows "case guard_spec c (view s) of
      None \<Rightarrow> guard_exec lk_lock lk_drop rd dr lk_get lk_put c s = None
    | Some (r, a) \<Rightarrow> \<exists>s'. guard_exec lk_lock lk_drop rd dr lk_get lk_put c s = Some (r, s') \<and> view s' = a \<and> ok s'"
proof -
  obtain g v where v: "view s = (g, v)" by (cases "view s")
  show ?thesis
    using assms v lk_lock_free [OF assms(1)] lk_lock_busy [OF assms(1)] lk_drop_ok [OF assms(1)]
      lk_get_ok [OF assms(1)] lk_put_ok [OF assms(1)]
    by (cases c) (auto split: option.splits)
qed

lemma lk_program:
  assumes "guarded cs (Readers 0, v)" "\<forall>c\<in>set cs. \<not> is_read_op c"
  shows "map_option fst (run_calls (guard_exec lk_lock lk_drop rd dr lk_get lk_put) cs (lk_new v))
    = map_option fst (run_calls guard_spec cs (Readers 0, v))"
proof -
  from lk_new_ok have n: "ok (lk_new v)" "view (lk_new v) = (Readers 0, v)" by simp_all
  have "map_option (\<lambda>(rs, s). (rs, view s)) (run_calls (guard_exec lk_lock lk_drop rd dr lk_get lk_put) cs (lk_new v))
      = run_calls guard_spec cs (view (lk_new v))"
    by (rule guarded_run_agrees [where ok = ok and legal = "\<lambda>c. \<not> is_read_op c"])
      (use assms n lk_step in auto)
  from this [symmetric] n(2) show ?thesis by (simp add: option.map_comp comp_def split_def)
qed

end

locale RwLocking =
  fixes view :: "'s \<Rightarrow> 'a guard_state" and ok :: "'s \<Rightarrow> bool"
    and rw_new :: "'a \<Rightarrow> 's" and rw_write :: "'s \<Rightarrow> 's option" and rw_drop_write :: "'s \<Rightarrow> 's"
    and rw_read :: "'s \<Rightarrow> 's option" and rw_drop_read :: "'s \<Rightarrow> 's"
    and rw_get :: "'s \<Rightarrow> 'a" and rw_put :: "'a \<Rightarrow> 's \<Rightarrow> 's"
  assumes rw_new_ok: "ok (rw_new v) \<and> view (rw_new v) = (Readers 0, v)"
    and rw_write_free: "ok s \<Longrightarrow> view s = (Readers 0, v) \<Longrightarrow> \<exists>s'. rw_write s = Some s' \<and> view s' = (Writer, v) \<and> ok s'"
    and rw_write_busy: "ok s \<Longrightarrow> fst (view s) \<noteq> Readers 0 \<Longrightarrow> rw_write s = None"
    and rw_drop_write_ok: "ok s \<Longrightarrow> view s = (Writer, v) \<Longrightarrow>
      view (rw_drop_write s) = (Readers 0, v) \<and> ok (rw_drop_write s)"
    and rw_read_free: "ok s \<Longrightarrow> view s = (Readers n, v) \<Longrightarrow> n < reader_limit \<Longrightarrow>
      \<exists>s'. rw_read s = Some s' \<and> view s' = (Readers (Suc n), v) \<and> ok s'"
    and rw_read_full: "ok s \<Longrightarrow> view s = (Readers n, v) \<Longrightarrow> \<not> n < reader_limit \<Longrightarrow> rw_read s = None"
    and rw_read_busy: "ok s \<Longrightarrow> fst (view s) = Writer \<Longrightarrow> rw_read s = None"
    and rw_drop_read_ok: "ok s \<Longrightarrow> view s = (Readers (Suc n), v) \<Longrightarrow>
      view (rw_drop_read s) = (Readers n, v) \<and> ok (rw_drop_read s)"
    and rw_get_ok: "ok s \<Longrightarrow> rw_get s = snd (view s)"
    and rw_put_ok: "ok s \<Longrightarrow> view s = (Writer, v) \<Longrightarrow> view (rw_put x s) = (Writer, x) \<and> ok (rw_put x s)"
begin

lemma rw_guard_step:
  assumes "ok s" "guard_legal c (view s)"
  shows "case guard_spec c (view s) of
      None \<Rightarrow> guard_exec rw_write rw_drop_write rw_read rw_drop_read rw_get rw_put c s = None
    | Some (r, a) \<Rightarrow> \<exists>s'. guard_exec rw_write rw_drop_write rw_read rw_drop_read rw_get rw_put c s = Some (r, s')
        \<and> view s' = a \<and> ok s'"
proof -
  obtain g v where v: "view s = (g, v)" by (cases "view s")
  show ?thesis
  proof (cases c)
    case AcquireRead
    then show ?thesis
      using v rw_read_free [OF assms(1)] rw_read_full [OF assms(1)] rw_read_busy [OF assms(1)]
      by (cases g) auto
  next
    case ReleaseRead
    with assms(2) v obtain n where "g = Readers (Suc n)"
      by (cases g) (auto simp: gr0_conv_Suc)
    with v ReleaseRead rw_drop_read_ok [OF assms(1)] show ?thesis by simp
  qed (use assms v rw_write_free [OF assms(1)] rw_write_busy [OF assms(1)] rw_drop_write_ok [OF assms(1)]
      rw_get_ok [OF assms(1)] rw_put_ok [OF assms(1)] in \<open>auto split: option.splits\<close>)
qed

lemma rw_program:
  assumes "guarded cs (Readers 0, v)"
  shows "map_option fst (run_calls (guard_exec rw_write rw_drop_write rw_read rw_drop_read rw_get rw_put) cs (rw_new v))
    = map_option fst (run_calls guard_spec cs (Readers 0, v))"
proof -
  from rw_new_ok have n: "ok (rw_new v)" "view (rw_new v) = (Readers 0, v)" by simp_all
  have "map_option (\<lambda>(rs, s). (rs, view s))
      (run_calls (guard_exec rw_write rw_drop_write rw_read rw_drop_read rw_get rw_put) cs (rw_new v))
      = run_calls guard_spec cs (view (rw_new v))"
    by (rule guarded_run_agrees [where ok = ok and legal = "\<lambda>_. True"]) (use assms n rw_guard_step in auto)
  from this [symmetric] n(2) show ?thesis by (simp add: option.map_comp comp_def split_def)
qed

end

text \<open>\<^verbatim>\<open>SimpleLockWrapper\<close> turns every \<^verbatim>\<open>RwLocking\<close> into a \<^verbatim>\<open>Locking\<close>.\<close>

sublocale RwLocking \<subseteq> wrapper: Locking view ok "wrapper_new rw_new" "wrapper_lock rw_write" rw_drop_write rw_get rw_put
  by unfold_locales
    (auto simp: wrapper_new_def wrapper_lock_def rw_new_ok rw_write_busy rw_drop_write_ok rw_get_ok rw_put_ok
      dest: rw_write_free)

section \<open>The implementations\<close>

lemma sint_positive: "0 < sint (w :: usize) \<longleftrightarrow> 0 < unat w \<and> unat w < 2 ^ 63"
proof -
  have "bit w 63 \<longleftrightarrow> bit (unat w) 63" by (simp add: bit_unsigned_iff)
  also have "\<dots> \<longleftrightarrow> odd (unat w div 2 ^ 63)" by (simp add: bit_iff_odd)
  also have "\<dots> \<longleftrightarrow> 2 ^ 63 \<le> unat w"
  proof -
    have "unat w div 2 ^ 63 < 2" using unat_usize_less [of w] by (simp add: div_less_iff_less_mult)
    then have "unat w div 2 ^ 63 = 0 \<or> unat w div 2 ^ 63 = 1" by auto
    then show ?thesis by (auto simp: div_eq_0_iff)
  qed
  finally have b: "bit w 63 \<longleftrightarrow> 2 ^ 63 \<le> unat w" .
  show ?thesis
  proof (cases "bit w 63")
    case True
    then have "sint w < 0" using bit_last_iff [of w] by simp
    with True b show ?thesis by simp
  next
    case False
    have "unat w < 2 ^ 63" using False b by simp
    then have "uint w < int (2 ^ 63)" by (simp only: uint_nat of_nat_less_iff)
    then have "take_bit 63 (uint w) = uint w"
      by (intro take_bit_int_eq_self) simp_all
    moreover have "sint w = take_bit 63 (uint w)"
      using False by (simp add: sint_uint signed_take_bit_eq_if_positive bit_uint_iff)
    ultimately have "sint w = int (unat w)" by simp
    then have "0 < sint w \<longleftrightarrow> 0 < unat w" by (simp only: of_nat_0_less_iff)
    with False b show ?thesis by (simp only: not_le simp_thms)
  qed
qed

definition refcell_view :: "'a RefCell \<Rightarrow> 'a guard_state" where
  "refcell_view c = (if borrow_flag c = - 1 then Writer else Readers (unat (borrow_flag c)), cell_value c)"

definition refcell_ok :: "'a RefCell \<Rightarrow> bool" where
  "refcell_ok c \<longleftrightarrow> borrow_flag c = - 1 \<or> unat (borrow_flag c) \<le> reader_limit"

lemma unat_max: "unat (- 1 :: usize) = 2 ^ 64 - 1"
  by (simp add: unsigned_minus_1_eq_mask mask_eq_exp_minus_1)

lemma refcell_flag_less: "unat (f :: usize) \<le> reader_limit \<Longrightarrow> f \<noteq> - 1"
  by (auto simp: reader_limit_def unat_max)

lemma unat_flag_dec: "unat f = Suc n \<Longrightarrow> unat (f - 1 :: usize) = n"
  by (subst unat_sub) (auto simp: word_le_nat_alt)

lemma unat_flag_full: "unat f = reader_limit \<Longrightarrow> unat (f + 1 :: usize) = 2 ^ 63"
  using unat_add_no_overflow [of f 1] by (simp add: reader_limit_def)

lemma refcell_viewD:
  assumes "refcell_view c = (g, v)"
  shows "cell_value c = v" "g = Writer \<longleftrightarrow> borrow_flag c = - 1" "g = Readers n \<Longrightarrow> unat (borrow_flag c) = n"
  using assms by (auto simp: refcell_view_def split: if_splits)

interpretation thread: RwLocking refcell_view refcell_ok thread_new thread_write refmut_drop thread_read ref_drop
  cell_value "\<lambda>x c. c\<lparr>cell_value := x\<rparr>"
proof (unfold_locales, goal_cases)
  case (5 s n v)
  then have n: "unat (borrow_flag s) = n" by (auto dest: refcell_viewD(3))
  then have "unat (borrow_flag s + 1) = n + 1"
    using 5(3) unat_add_no_overflow [of "borrow_flag s" 1] by (simp add: reader_limit_def)
  with 5 n show ?case
    by (auto simp: thread_read_def refcell_borrow_def refcell_view_def refcell_ok_def sint_positive assert_that_def
        reader_limit_def Let_def refcell_flag_less split: if_splits)
next
  case (6 s n v)
  then have "unat (borrow_flag s) = reader_limit"
    by (auto simp: refcell_view_def refcell_ok_def split: if_splits)
  from unat_flag_full [OF this] show ?case
    by (simp add: thread_read_def refcell_borrow_def sint_positive assert_that_def Let_def)
next
  case (8 s n v)
  then have n: "unat (borrow_flag s) = Suc n" "cell_value s = v" by (auto dest: refcell_viewD)
  moreover have "n \<le> reader_limit"
    using 8 n by (auto simp: refcell_ok_def unat_max refcell_view_def split: if_splits)
  ultimately show ?case
    using unat_flag_dec [OF n(1)] refcell_flag_less [of "borrow_flag s - 1"]
    by (simp add: ref_drop_def refcell_view_def refcell_ok_def)
qed (auto simp: thread_new_def thread_write_def thread_read_def refcell_borrow_mut_def refcell_borrow_def refmut_drop_def
    ref_drop_def refcell_view_def refcell_ok_def assert_that_def sint_positive unat_eq_0 split: if_splits)

definition atomic_rw_view :: "'a AtomicRwLocking \<Rightarrow> 'a guard_state" where
  "atomic_rw_view s = (rw_view (raw_rw s), rw_data s)"

text \<open>At the limit of readers the increment of the spin lock overflows.\<close>

lemma spin_lock_shared_full:
  assumes "rw_view l = Readers n" "\<not> n < reader_limit"
  shows "spin_lock_shared l = None"
proof -
  have v: "unat (rw_value l) = 2 * n" "\<not> bit (rw_value l) 0"
    using assms(1) rw_view_Readers [of l n] rw_view_Writer [of l] by auto
  then have "unat (rw_value l) + unat (2 :: usize) \<ge> 2 ^ 64"
    using assms(2) by (simp add: reader_limit_def)
  then have "checked_add (rw_value l) 2 = None" by (simp add: checked_add_def)
  then show ?thesis
    using v(2) by (subst spin_lock_shared.simps, subst spin_try_lock_shared_def, subst try_lock_shared_loop.simps) simp
qed

interpretation atomic_rw: RwLocking atomic_rw_view "\<lambda>s. rw_ok (raw_rw s)" atomic_rw_new atomic_write atomic_drop_write
  atomic_read atomic_drop_read rw_data "\<lambda>x s. s\<lparr>rw_data := x\<rparr>"
proof (unfold_locales, goal_cases)
  case (1 v)
  show ?case by (simp add: atomic_rw_new_def atomic_rw_view_def spin_rwlock_INIT_def rw_view_free rw_ok_def)
next
  case (2 s v)
  then show ?case by (auto simp: atomic_write_def atomic_rw_view_def kernel_step rw_view_Writer rw_ok_def)
next
  case (5 s n v)
  then show ?case
    using spin_lock_shared_ok [of "raw_rw s" n] spin_try_lock_shared_ok [of "raw_rw s" n]
    by (auto simp: atomic_read_def atomic_rw_view_def)
qed (auto simp: atomic_write_def atomic_read_def atomic_drop_write_def atomic_drop_read_def atomic_rw_view_def
    spin_lock_exclusive_busy spin_lock_shared_busy spin_lock_shared_full spin_unlock_shared_view spin_unlock_exclusive_view)

definition atomic_mx_view :: "'a AtomicLocking \<Rightarrow> 'a guard_state" where
  "atomic_mx_view s = (if locked (raw_mx s) then Writer else Readers 0, mx_data s)"

interpretation atomic_mx: Locking atomic_mx_view "\<lambda>_. True" atomic_mx_new atomic_lock atomic_drop_lock mx_data
  "\<lambda>x s. s\<lparr>mx_data := x\<rparr>"
  by unfold_locales
    (auto simp: atomic_mx_view_def atomic_mx_new_def atomic_lock_def atomic_drop_lock_def spinlock_INIT_def spin_unlock_def
      kernel_step split: if_splits)

section \<open>Both localities agree\<close>

text \<open>
  C26. A program that is generic in its thread locality behaves the same on one thread and between threads
  that do not interfere: every program over the guards of a reader-writer lock gives the same results with the
  \<^verbatim>\<open>RefCell\<close> as with the spin lock, including where it does not return (a panic of the one, an endless loop of the
  other, at the limit of readers a panic of both); and likewise a program over a plain lock, with the
  wrapped \<^verbatim>\<open>RefCell\<close> and the spin mutex.
\<close>

theorem thread_localities_equivalent:
  assumes "guarded cs (Readers 0, v)"
  shows "map_option fst (run_calls (guard_exec thread_write refmut_drop thread_read ref_drop cell_value
        (\<lambda>x c. c\<lparr>cell_value := x\<rparr>)) cs (thread_new v))
      = map_option fst (run_calls (guard_exec atomic_write atomic_drop_write atomic_read atomic_drop_read rw_data
        (\<lambda>x s. s\<lparr>rw_data := x\<rparr>)) cs (atomic_rw_new v))
    \<and> ((\<forall>c\<in>set cs. \<not> is_read_op c) \<longrightarrow>
      map_option fst (run_calls (guard_exec (wrapper_lock thread_write) refmut_drop thread_read ref_drop cell_value
        (\<lambda>x c. c\<lparr>cell_value := x\<rparr>)) cs (wrapper_new thread_new v))
      = map_option fst (run_calls (guard_exec atomic_lock atomic_drop_lock atomic_lock atomic_drop_lock mx_data
        (\<lambda>x s. s\<lparr>mx_data := x\<rparr>)) cs (atomic_mx_new v)))"
  using thread.rw_program [OF assms] atomic_rw.rw_program [OF assms] thread.wrapper.lk_program [OF assms]
    atomic_mx.lk_program [OF assms]
  by simp

theorem thread_localities_equivalent_witness:
  "map_option fst (run_calls (guard_exec thread_write refmut_drop thread_read ref_drop cell_value
        (\<lambda>x c. c\<lparr>cell_value := x\<rparr>)) [Acquire, Set 5, Release, AcquireRead, Get, ReleaseRead] (thread_new (1 :: nat)))
      = map_option fst (run_calls (guard_exec atomic_write atomic_drop_write atomic_read atomic_drop_read rw_data
        (\<lambda>x s. s\<lparr>rw_data := x\<rparr>)) [Acquire, Set 5, Release, AcquireRead, Get, ReleaseRead] (atomic_rw_new 1))"
proof -
  have "guarded [Acquire, Set 5, Release, AcquireRead, Get, ReleaseRead] (Readers 0, 1 :: nat)"
    by (simp add: reader_limit_def)
  from thread_localities_equivalent [OF this] show ?thesis by blast
qed

end
