(* ===== verification/Riscv.thy ===== *)
theory Riscv
  imports Cpu
begin

text \<open>
  The part of a RISC-V hart that the kernel's assembly uses: registers, control registers, double words
  of memory, and one step of execution. Code is a map from an address to the instruction there and the
  address after it, and the linker's symbol table is a function; both are arguments. A misaligned
  access and an instruction that the privilege mode does not allow are \<^const>\<open>None\<close>. Addresses are virtual: the
  assembly, the trap frames and the kernel's stacks lie in the upper half, which all page tables of the kernel map
  alike, so a write of \<^verbatim>\<open>satp\<close> does not change what they denote.
\<close>

section \<open>The machine\<close>

datatype Csr = Sscratch | Satp | Sepc | Sie | Sip | Sstatus | Scause | Stvec | Stval | Time | Cycle | Instret

record machine =
  gpr :: "Registers \<Rightarrow> usize"
  fpr :: "nat \<Rightarrow> usize"
  pc :: usize
  csr :: "Csr \<Rightarrow> usize"
  mem :: "usize \<Rightarrow> usize"
  supervisor :: bool

type_synonym symbol = string

datatype instr =
    Ld Registers usize Registers
  | Sd Registers usize Registers
  | Fld nat usize Registers
  | Fsd nat usize Registers
  | Csrr Registers Csr
  | Csrw Csr Registers
  | Csrrw Registers Csr Registers
  | CsrrN Registers nat
  | Mv Registers Registers
  | Li Registers usize
  | La Registers symbol
  | Addi Registers Registers usize
  | Andi Registers Registers usize
  | Ori Registers Registers usize
  | And Registers Registers Registers
  | Or Registers Registers Registers
  | Srli Registers Registers nat
  | SfenceVma
  | Wfi
  | J symbol
  | Bne Registers Registers symbol
  | Beqz Registers symbol
  | Jal Registers usize
  | Jalr Registers
  | Call symbol
  | Ret
  | Sret

text \<open>\<open>CsrrN\<close> names a control register by a number that a supervisor does not have. Register \<open>x0\<close> reads as zero.\<close>

definition reg :: "machine \<Rightarrow> Registers \<Rightarrow> usize" where
  "reg m r = (if r = Zero then 0 else gpr m r)"

definition set_reg :: "Registers \<Rightarrow> usize \<Rightarrow> machine \<Rightarrow> machine" where
  "set_reg r v m = (if r = Zero then m else m\<lparr>gpr := (gpr m)(r := v)\<rparr>)"

definition set_csr :: "Csr \<Rightarrow> usize \<Rightarrow> machine \<Rightarrow> machine" where
  "set_csr c v m = m\<lparr>csr := (csr m)(c := v)\<rparr>"

definition aligned :: "usize \<Rightarrow> bool" where
  "aligned a \<longleftrightarrow> unat a mod 8 = 0"

definition load :: "usize \<Rightarrow> machine \<Rightarrow> usize option" where
  "load a m = (if aligned a then Some (mem m a) else None)"

definition store :: "usize \<Rightarrow> usize \<Rightarrow> machine \<Rightarrow> machine option" where
  "store a v m = (if aligned a then Some (m\<lparr>mem := (mem m)(a := v)\<rparr>) else None)"

section \<open>Instructions\<close>

text \<open>The effect of an instruction that does not jump, without the program counter.\<close>

fun effect :: "(symbol \<Rightarrow> usize) \<Rightarrow> instr \<Rightarrow> machine \<Rightarrow> machine option" where
  "effect syms (Ld rd off rs) m = do { v \<leftarrow> load (reg m rs + off) m; Some (set_reg rd v m) }"
| "effect syms (Sd rs off base) m = store (reg m base + off) (reg m rs) m"
| "effect syms (Fld f off rs) m = do { v \<leftarrow> load (reg m rs + off) m; Some (m\<lparr>fpr := (fpr m)(f := v)\<rparr>) }"
| "effect syms (Fsd f off base) m = store (reg m base + off) (fpr m f) m"
| "effect syms (Csrr rd c) m = (if supervisor m then Some (set_reg rd (csr m c) m) else None)"
| "effect syms (Csrw c rs) m = (if supervisor m then Some (set_csr c (reg m rs) m) else None)"
| "effect syms (Csrrw rd c rs) m =
     (if supervisor m then Some (set_reg rd (csr m c) (set_csr c (reg m rs) m)) else None)"
| "effect syms (Mv rd rs) m = Some (set_reg rd (reg m rs) m)"
| "effect syms (Li rd v) m = Some (set_reg rd v m)"
| "effect syms (La rd s) m = Some (set_reg rd (syms s) m)"
| "effect syms (Addi rd rs v) m = Some (set_reg rd (reg m rs + v) m)"
| "effect syms (Andi rd rs v) m = Some (set_reg rd (reg m rs AND v) m)"
| "effect syms (Ori rd rs v) m = Some (set_reg rd (reg m rs OR v) m)"
| "effect syms (And rd r1 r2) m = Some (set_reg rd (reg m r1 AND reg m r2) m)"
| "effect syms (Or rd r1 r2) m = Some (set_reg rd (reg m r1 OR reg m r2) m)"
| "effect syms (Srli rd rs n) m = Some (set_reg rd (drop_bit n (reg m rs)) m)"
| "effect syms SfenceVma m = (if supervisor m then Some m else None)"
| "effect syms Wfi m = Some m"
| "effect syms _ m = None"

definition put_bit :: "nat \<Rightarrow> bool \<Rightarrow> usize \<Rightarrow> usize" where
  "put_bit n b w = (if b then set_bit n w else unset_bit n w)"

text \<open>
  Bits of \<^verbatim>\<open>sstatus\<close>: \<^verbatim>\<open>SIE\<close> is 1, \<^verbatim>\<open>SPIE\<close> 5, \<^verbatim>\<open>SPP\<close> 8. \<^verbatim>\<open>sret\<close> restores the interrupt-enable bit and the mode that
  the bits of the previous context say.
\<close>

definition sret :: "machine \<Rightarrow> machine" where
  "sret m = (set_csr Sstatus (put_bit 1 (bit (csr m Sstatus) 5) (set_bit 5 (unset_bit 8 (csr m Sstatus)))) m)
     \<lparr>pc := csr m Sepc, supervisor := bit (csr m Sstatus) 8\<rparr>"

text \<open>One instruction; \<open>nxt\<close> is the address after it.\<close>

fun exec :: "(symbol \<Rightarrow> usize) \<Rightarrow> instr \<Rightarrow> usize \<Rightarrow> machine \<Rightarrow> machine option" where
  "exec syms (J s) nxt m = Some (m\<lparr>pc := syms s\<rparr>)"
| "exec syms (Bne r1 r2 s) nxt m = Some (m\<lparr>pc := if reg m r1 \<noteq> reg m r2 then syms s else nxt\<rparr>)"
| "exec syms (Beqz r s) nxt m = Some (m\<lparr>pc := if reg m r = 0 then syms s else nxt\<rparr>)"
| "exec syms (Jal rd off) nxt m = Some ((set_reg rd nxt m)\<lparr>pc := pc m + off\<rparr>)"
| "exec syms (Jalr rs) nxt m = Some ((set_reg Ra nxt m)\<lparr>pc := reg m rs\<rparr>)"
| "exec syms (Call s) nxt m = Some ((set_reg Ra nxt m)\<lparr>pc := syms s\<rparr>)"
| "exec syms Ret nxt m = Some (m\<lparr>pc := reg m Ra\<rparr>)"
| "exec syms Sret nxt m = (if supervisor m then Some (sret m) else None)"
| "exec syms i nxt m = do { m \<leftarrow> effect syms i m; Some (m\<lparr>pc := nxt\<rparr>) }"

type_synonym code = "usize \<rightharpoonup> instr \<times> usize"

definition step :: "code \<Rightarrow> (symbol \<Rightarrow> usize) \<Rightarrow> machine \<Rightarrow> machine option" where
  "step code syms m = (case code (pc m) of Some (i, nxt) \<Rightarrow> exec syms i nxt m | None \<Rightarrow> None)"

primrec run :: "code \<Rightarrow> (symbol \<Rightarrow> usize) \<Rightarrow> nat \<Rightarrow> machine \<Rightarrow> machine option" where
  "run code syms 0 m = Some m"
| "run code syms (Suc n) m = do { m \<leftarrow> step code syms m; run code syms n m }"

text \<open>
  A trap: the hart saves where it was and continues in supervisor mode at the trap vector, with
  interrupts off. An interrupt can be taken between two instructions when it is enabled and pending.
\<close>

definition take_trap :: "usize \<Rightarrow> machine \<Rightarrow> machine" where
  "take_trap cause m =
     (set_csr Sepc (pc m) (set_csr Scause cause
       (set_csr Sstatus (put_bit 8 (supervisor m) (put_bit 5 (bit (csr m Sstatus) 1) (unset_bit 1 (csr m Sstatus)))) m)))
     \<lparr>pc := csr m Stvec, supervisor := True\<rparr>"

definition interruptible :: "machine \<Rightarrow> bool" where
  "interruptible m \<longleftrightarrow> (supervisor m \<longrightarrow> bit (csr m Sstatus) 1) \<and> csr m Sie AND csr m Sip \<noteq> 0"

section \<open>Programs\<close>

datatype line = Lab symbol | Ins instr

text \<open>Instructions are four bytes long (\<^verbatim>\<open>.option norvc\<close>), except those that stand for more than one.\<close>

definition pseudo :: "instr \<Rightarrow> bool" where
  "pseudo i = (case i of La _ _ \<Rightarrow> True | Call _ \<Rightarrow> True | _ \<Rightarrow> False)"

text \<open>The lines of a program stand in the code from address \<open>a\<close> on; the result is the address after them.\<close>

fun located :: "code \<Rightarrow> (symbol \<Rightarrow> usize) \<Rightarrow> line list \<Rightarrow> usize \<Rightarrow> usize option" where
  "located code syms [] a = Some a"
| "located code syms (Lab s # ls) a = (if syms s = a then located code syms ls a else None)"
| "located code syms (Ins i # ls) a =
     (case code a of
        Some (j, nxt) \<Rightarrow> if j = i \<and> (pseudo i \<or> nxt = a + 4) then located code syms ls nxt else None
      | None \<Rightarrow> None)"

text \<open>The assembler: one possible placement of a program.\<close>

fun instrs :: "line list \<Rightarrow> instr list" where
  "instrs [] = []"
| "instrs (Lab s # ls) = instrs ls"
| "instrs (Ins i # ls) = i # instrs ls"

fun labels :: "line list \<Rightarrow> nat \<Rightarrow> (symbol \<times> nat) list" where
  "labels [] k = []"
| "labels (Lab s # ls) k = (s, k) # labels ls k"
| "labels (Ins i # ls) k = labels ls (Suc k)"

definition assembled :: "usize \<Rightarrow> line list \<Rightarrow> code" where
  "assembled base p a =
     (let d = unat (a - base)
      in if d mod 4 = 0 \<and> d div 4 < length (instrs p) then Some (instrs p ! (d div 4), a + 4) else None)"

definition symbols :: "usize \<Rightarrow> line list \<Rightarrow> symbol \<Rightarrow> usize" where
  "symbols base p s = (case map_of (labels p 0) s of Some k \<Rightarrow> base + of_nat (k * 4) | None \<Rightarrow> 0)"

definition reaches :: "code \<Rightarrow> (symbol \<Rightarrow> usize) \<Rightarrow> machine \<Rightarrow> machine \<Rightarrow> bool" where
  "reaches code syms m m' \<longleftrightarrow> (\<exists>n. run code syms n m = Some m')"

section \<open>Reading after writing\<close>

lemma aligned_dvd: "aligned a \<longleftrightarrow> 8 dvd unat a"
  by (simp add: aligned_def mod_eq_0_iff_dvd)

lemma aligned_add: "aligned a \<Longrightarrow> aligned b \<Longrightarrow> aligned (a + b)"
  by (simp add: aligned_dvd unat_word_ariths dvd_mod_iff dvd_add)

lemma aligned_mult: "aligned b \<Longrightarrow> aligned (a * b)"
  by (simp add: aligned_dvd unat_word_ariths dvd_mod_iff dvd_mult)

lemma aligned_sp: "aligned a \<Longrightarrow> aligned (a - 16)"
  using aligned_add [of a "- 16"] by (simp add: aligned_def)

named_theorems machine_simps

lemma reg_set_reg [machine_simps]: "reg (set_reg r v m) q = (if q = r \<and> r \<noteq> Zero then v else reg m q)"
  by (simp add: reg_def set_reg_def)

lemma set_reg_fields [machine_simps]:
  "fpr (set_reg r v m) = fpr m" "pc (set_reg r v m) = pc m" "csr (set_reg r v m) = csr m" "mem (set_reg r v m) = mem m"
  "supervisor (set_reg r v m) = supervisor m"
  by (simp_all add: set_reg_def)

lemma set_csr_fields [machine_simps]:
  "fpr (set_csr c v m) = fpr m" "pc (set_csr c v m) = pc m" "csr (set_csr c v m) = (csr m)(c := v)"
  "mem (set_csr c v m) = mem m" "supervisor (set_csr c v m) = supervisor m" "reg (set_csr c v m) r = reg m r"
  by (simp_all add: set_csr_def reg_def)

lemma reg_update [machine_simps]:
  "reg (m\<lparr>mem := x\<rparr>) r = reg m r" "reg (m\<lparr>pc := p\<rparr>) r = reg m r" "reg (m\<lparr>csr := c\<rparr>) r = reg m r"
  "reg (m\<lparr>fpr := f\<rparr>) r = reg m r" "reg (m\<lparr>supervisor := s\<rparr>) r = reg m r"
  by (simp_all add: reg_def)

lemma reg_Zero [simp]: "reg m Zero = 0"
  by (simp add: reg_def)

section \<open>Running a block\<close>

lemma run_append: "run code syms (n + k) m = do { m' \<leftarrow> run code syms n m; run code syms k m' }"
  by (induction n arbitrary: m) (simp_all add: Option.bind_assoc)

lemma reaches_refl [simp, intro]: "reaches code syms m m"
  unfolding reaches_def by (rule exI [of _ 0]) simp

lemma reaches_trans: "reaches code syms m1 m2 \<Longrightarrow> reaches code syms m2 m3 \<Longrightarrow> reaches code syms m1 m3"
  unfolding reaches_def by (metis run_append Option.bind.bind_lunit)

lemma reaches_step: "step code syms m1 = Some m2 \<Longrightarrow> reaches code syms m2 m3 \<Longrightarrow> reaches code syms m1 m3"
  unfolding reaches_def by (metis run.simps(2) Option.bind.bind_lunit)

lemma located_append: "located code syms (p @ q) a = do { b \<leftarrow> located code syms p a; located code syms q b }"
  by (induction code syms p a rule: located.induct) (auto split: option.splits)

lemma effect_pc: "effect syms i (m\<lparr>pc := p\<rparr>) = map_option (\<lambda>m'. m'\<lparr>pc := p\<rparr>) (effect syms i m)"
  by (cases i) (auto simp: load_def store_def set_reg_def set_csr_def machine_simps)

lemma exec_straight: "effect syms i m = Some m' \<Longrightarrow> exec syms i nxt m = Some (m'\<lparr>pc := nxt\<rparr>)"
  by (cases i) (auto simp: load_def store_def)

text \<open>The effect of a list of instructions that do not jump, and that it is what running them does.\<close>

abbreviation effects :: "(symbol \<Rightarrow> usize) \<Rightarrow> instr list \<Rightarrow> machine \<Rightarrow> machine option" where
  "effects syms \<equiv> foldM (effect syms)"

lemma effects_pc: "effects syms is (m\<lparr>pc := p\<rparr>) = map_option (\<lambda>m'. m'\<lparr>pc := p\<rparr>) (effects syms is m)"
proof (induction "is" arbitrary: m)
  case (Cons i "is")
  then show ?case by (cases "effect syms i m") (simp_all add: effect_pc)
qed simp

lemma run_block:
  assumes "located code syms (map Ins is) (pc m) = Some b" and "effects syms is m = Some m'"
  shows "reaches code syms m (m'\<lparr>pc := b\<rparr>)"
  using assms
proof (induction "is" arbitrary: m m')
  case Nil
  then have "m'\<lparr>pc := b\<rparr> = m" by (cases m') auto
  then show ?case by simp
next
  case (Cons i "is")
  from Cons.prems obtain nxt m1 where c: "code (pc m) = Some (i, nxt)" "located code syms (map Ins is) nxt = Some b"
    and m1: "effect syms i m = Some m1" "effects syms is m1 = Some m'"
    by (auto split: option.splits if_splits prod.splits bind_splits)
  have "step code syms m = Some (m1\<lparr>pc := nxt\<rparr>)" using c(1) exec_straight [OF m1(1)] by (simp add: step_def)
  moreover have "reaches code syms (m1\<lparr>pc := nxt\<rparr>) ((m'\<lparr>pc := nxt\<rparr>)\<lparr>pc := b\<rparr>)"
    by (rule Cons.IH) (simp_all add: c(2) m1(2) effects_pc)
  ultimately show ?case by (simp add: reaches_step)
qed

text \<open>
  The lines \<open>p\<close>, wherever they are located, take the machine from \<open>m\<close> to \<open>m'\<close>; the program counters of the two are those of the
  placement.
\<close>

definition runs :: "code \<Rightarrow> (symbol \<Rightarrow> usize) \<Rightarrow> line list \<Rightarrow> machine \<Rightarrow> machine \<Rightarrow> bool" where
  "runs code syms p m m' \<longleftrightarrow>
     (\<forall>a b. located code syms p a = Some b \<longrightarrow> reaches code syms (m\<lparr>pc := a\<rparr>) (m'\<lparr>pc := b\<rparr>))"

lemma runs_append: "runs code syms p m1 m2 \<Longrightarrow> runs code syms q m2 m3 \<Longrightarrow> runs code syms (p @ q) m1 m3"
  unfolding runs_def located_append by (fastforce split: bind_splits intro: reaches_trans)

lemma runs_block: "effects syms is m = Some m' \<Longrightarrow> runs code syms (map Ins is) m m'"
proof -
  assume e: "effects syms is m = Some m'"
  have "reaches code syms (m\<lparr>pc := a\<rparr>) (m'\<lparr>pc := b\<rparr>)" if "located code syms (map Ins is) a = Some b" for a b
    using run_block [of code syms "is" "m\<lparr>pc := a\<rparr>" b "m'\<lparr>pc := a\<rparr>"] that e by (simp add: effects_pc)
  then show ?thesis by (simp add: runs_def)
qed

lemma runs_label: "runs code syms [Lab s] m m"
  by (simp add: runs_def)

lemma runs_jump_over: "runs code syms ([Ins (J s)] @ dead @ [Lab s]) m m"
proof -
  have "reaches code syms (m\<lparr>pc := a\<rparr>) (m\<lparr>pc := b\<rparr>)"
    if p: "located code syms ([Ins (J s)] @ dead @ [Lab s]) a = Some b" for a b
  proof -
    from p obtain nxt where "code a = Some (J s, nxt)" "syms s = b"
      unfolding located_append by (auto split: bind_splits option.splits if_splits prod.splits)
    then have "step code syms (m\<lparr>pc := a\<rparr>) = Some (m\<lparr>pc := b\<rparr>)" by (simp add: step_def)
    then show ?thesis by (rule reaches_step) simp
  qed
  then show ?thesis by (simp add: runs_def)
qed

section \<open>The assembler places its program\<close>

lemma instrs_append: "instrs (p @ q) = instrs p @ instrs q"
  by (induction p rule: instrs.induct) simp_all

lemma labels_append: "labels (p @ q) k = labels p k @ labels q (k + length (instrs p))"
  by (induction p k rule: labels.induct) simp_all

lemma instrs_map [simp]:
  "instrs (map (\<lambda>i. Ins (g i)) xs) = map g xs" "instrs (map (Ins \<circ> g) xs) = map g xs" "instrs (map Ins is) = is"
  by (induction xs, simp_all, induction "is", simp_all)

text \<open>The names of the labels.\<close>

fun label_names :: "line list \<Rightarrow> symbol list" where
  "label_names [] = []"
| "label_names (Lab s # ls) = s # label_names ls"
| "label_names (Ins i # ls) = label_names ls"

lemma fst_labels: "map fst (labels p k) = label_names p"
  by (induction p k rule: labels.induct) simp_all

lemma label_names_append: "label_names (p @ q) = label_names p @ label_names q"
  by (induction p rule: label_names.induct) simp_all

lemma label_names_map [simp]:
  "label_names (map (\<lambda>i. Ins (g i)) xs) = []" "label_names (map (Ins \<circ> g) xs) = []" "label_names (map Ins is) = []"
  by (induction xs, simp_all, induction "is", simp_all)

lemma assembled_at:
  assumes "k < length (instrs p)" and "length (instrs p) * 4 < 2 ^ 64"
  shows "assembled base p (base + of_nat (k * 4)) = Some (instrs p ! k, base + of_nat (Suc k * 4))"
proof -
  have "unat (of_nat (k * 4) :: usize) = k * 4" using assms by (intro unat_of_nat_usize) simp
  then show ?thesis using assms(1) by (simp add: assembled_def Let_def algebra_simps)
qed

lemma located_assembled_suffix:
  assumes "distinct (map fst (labels (p @ q) 0))" and "length (instrs (p @ q)) * 4 < 2 ^ 64"
  shows "located (assembled base (p @ q)) (symbols base (p @ q)) q (base + of_nat (length (instrs p) * 4))
    = Some (base + of_nat (length (instrs (p @ q)) * 4))"
  using assms
proof (induction q arbitrary: p)
  case Nil
  then show ?case by simp
next
  case (Cons l q)
  then have IH: "located (assembled base (p @ l # q)) (symbols base (p @ l # q)) q (base + of_nat (length (instrs (p @ [l])) * 4))
      = Some (base + of_nat (length (instrs (p @ l # q)) * 4))"
    using Cons.IH [of "p @ [l]"] by simp
  show ?case
  proof (cases l)
    case (Lab s)
    have "map_of (labels (p @ l # q) 0) s = Some (length (instrs p))"
      using Cons.prems(1) by (intro map_of_is_SomeI) (simp_all add: labels_append Lab)
    then have "symbols base (p @ l # q) s = base + of_nat (length (instrs p) * 4)" by (simp add: symbols_def)
    then show ?thesis using IH by (simp add: Lab instrs_append)
  next
    case (Ins i)
    then show ?thesis
      using IH assembled_at [of "length (instrs p)" "p @ l # q" base] Cons.prems(2)
      by (simp add: instrs_append nth_append algebra_simps)
  qed
qed

lemma located_assembled:
  assumes "distinct (map fst (labels p 0))" and "length (instrs p) * 4 < 2 ^ 64"
  shows "located (assembled base p) (symbols base p) p base = Some (base + of_nat (length (instrs p) * 4))"
  using located_assembled_suffix [of "[]" p base] assms by simp

lemma located_at_label:
  assumes "located code syms (pre @ (Lab l # ls) @ post) a = Some b"
  shows "\<exists>c. located code syms (Lab l # ls) (syms l) = Some c"
  using assms by (auto simp: located_append bind_eq_Some_conv split: if_splits)

end
