(* ===== verification/Trap_Asm.thy ===== *)
theory Trap_Asm
  imports Riscv Traps
begin

text \<open>
  \<^verbatim>\<open>kernel_main/src/asm/trap.S\<close> with the macros of \<^verbatim>\<open>asm/arch/rv64f.S\<close> (the target is \<^verbatim>\<open>riscv64gc\<close>): the trap
  vector, the two switches to a saved frame, and the routine that saves the caller's state and calls a
  function. A macro is a function; the local label \<^verbatim>\<open>1:\<close> of an expansion is its argument.
\<close>

section \<open>Macros\<close>

definition all_registers :: "Registers list" where
  "all_registers = [Zero, Ra, Sp, Gp, Tp, T0, T1, T2, S0, S1, A0, A1, A2, A3, A4, A5, A6, A7, S2, S3,
     S4, S5, S6, S7, S8, S9, S10, S11, T3, T4, T5, T6]"

definition xreg :: "nat \<Rightarrow> Registers" where
  "xreg i = all_registers ! i"

definition XLEN :: usize where
  "XLEN = 8"

definition store_general :: "nat \<Rightarrow> Registers \<Rightarrow> instr" where
  "store_general i basereg = Sd (xreg i) (of_nat i * XLEN) basereg"

definition load_general :: "nat \<Rightarrow> Registers \<Rightarrow> instr" where
  "load_general i basereg = Ld (xreg i) (of_nat i * XLEN) basereg"

definition store_floating :: "nat \<Rightarrow> Registers \<Rightarrow> instr" where
  "store_floating i basereg = Fsd i ((32 + of_nat i) * XLEN) basereg"

definition load_floating :: "nat \<Rightarrow> Registers \<Rightarrow> instr" where
  "load_floating i basereg = Fld i ((32 + of_nat i) * XLEN) basereg"

text \<open>The check of the floating-point state, which the jump before it skips.\<close>

definition floating_check :: "symbol \<Rightarrow> line list" where
  "floating_check one = map Ins [Csrr T1 Sstatus, Srli T0 T1 13, Andi T0 T0 3, Li T3 3, Bne T0 T3 one]"

definition save_general :: "instr list" where
  "save_general = [Csrrw T6 Sscratch T6] @ map (\<lambda>i. store_general i T6) [0..<31]
     @ [Mv T5 T6, Csrr T6 Sscratch, store_general 31 T5, Csrw Sscratch T5]"

definition store_volatile_registers :: "symbol \<Rightarrow> line list" where
  "store_volatile_registers one =
     map Ins save_general @ [Ins (J one)]
     @ floating_check one @ map (\<lambda>i. Ins (store_floating i T5)) [0..<32] @ [Lab one]"

definition load_from_trap_frame :: "symbol \<Rightarrow> line list" where
  "load_from_trap_frame one =
     [Ins (J one)] @ floating_check one @ map (\<lambda>i. Ins (load_floating i T6)) [0..<32]
     @ [Lab one] @ map (\<lambda>i. Ins (load_general i T6)) [1..<32]"

definition restore_volatile_registers :: "symbol \<Rightarrow> line list" where
  "restore_volatile_registers one = [Ins (Csrr T6 Sscratch)] @ load_from_trap_frame one"

section \<open>Routines\<close>

definition trap_enter :: "line list" where
  "trap_enter =
     store_volatile_registers ''s_trap_vector.1''
     @ map Ins [Ld A0 (XLEN * 38) T5, Csrw Satp A0, Ld Sp (XLEN * 35) T5, Csrr A0 Sepc, Sd A0 (XLEN * 32) T5]"

definition trap_return :: "line list" where
  "trap_return =
     map Ins [Csrr T5 Sscratch, Ld A0 (XLEN * 32) T5, Csrw Sepc A0, Ld A0 (XLEN * 37) T5, Csrw Satp A0]
     @ restore_volatile_registers ''s_trap_vector.2''
     @ [Lab ''trap_exit'']"

definition s_trap_vector :: "line list" where
  "s_trap_vector =
     [Lab ''s_trap_vector''] @ trap_enter @ [Ins (Call ''trap_handler'')] @ trap_return @ [Ins Sret]"

definition supervisor_switch :: "instr list" where
  "supervisor_switch =
     [Csrw Sscratch A0, Ld T0 (XLEN * 32) A0, Csrw Sepc T0, Ld T0 (XLEN * 37) A0, Csrw Satp T0,
      Li T0 0x222, Csrw Sie T0, Csrr T0 Sstatus, Li T1 (push_bit 8 1), Or T0 T1 T0, Csrw Sstatus T0]"

definition switch_to_supervisor_frame :: "line list" where
  "switch_to_supervisor_frame =
     [Lab ''switch_to_supervisor_frame''] @ map Ins supervisor_switch
     @ restore_volatile_registers ''switch_to_supervisor_frame.1'' @ [Ins Sret]"

definition user_switch :: "instr list" where
  "user_switch =
     [Csrw Sscratch A0, Ld T0 (XLEN * 32) A0, Csrw Sepc T0, Ld T0 (XLEN * 37) A0, Csrw Satp T0, SfenceVma,
      Li T0 0x222, Csrw Sie T0, Csrr T0 Sstatus, Li T1 (NOT (push_bit 8 1)), And T0 T1 T0, Csrw Sstatus T0]"

definition switch_to_user_frame :: "line list" where
  "switch_to_user_frame =
     [Lab ''switch_to_user_frame''] @ map Ins user_switch
     @ restore_volatile_registers ''switch_to_user_frame.1''
     @ [Lab ''switch_to_user_frame_end'', Ins Sret]"

text \<open>Nothing calls \<^verbatim>\<open>do_syscall_internal\<close>; its read of control register 9 is not allowed to a supervisor.\<close>

definition do_syscall_internal :: "line list" where
  "do_syscall_internal =
     [Lab ''do_syscall_internal''] @ store_volatile_registers ''do_syscall_internal.1''
     @ map Ins [La Sp ''_stack_start'', Mv A0 Ra, Sd A0 (XLEN * 32) T5, Li A1 0, CsrrN A2 9, Ld A0 (XLEN * 32) T5,
         Ld A3 (XLEN * 33) T5, Csrr A4 Sstatus, Csrr A5 Sscratch]
     @ [Ins (Call ''trap_handler''), Ins (Mv Ra A0)]
     @ restore_volatile_registers ''do_syscall_internal.2'' @ [Ins Ret]"

definition store_to_trap_frame :: "line list" where
  "store_to_trap_frame =
     [Lab ''store_to_trap_frame'']
     @ map Ins ([Csrrw A1 Sscratch A1] @ map (\<lambda>i. store_general i A0) [0..<31])
     @ [Ins (Jal T6 4)]
     @ map Ins [Addi T6 T6 (- 4), Sd T6 (XLEN * 32) A0, Csrrw A1 Sscratch A1]
     @ [Ins Ret]"

definition save_caller :: "instr list" where
  "save_caller = [Addi Sp Sp (- 16), Sd Ra 0 Sp] @ map (\<lambda>i. store_general i A0) [0..<32]
     @ [La T0 ''.before_return'', Sd T0 (XLEN * 32) A0]"

definition before_return :: "line list" where
  "before_return = [Lab ''.before_return''] @ map Ins [Ld Ra 0 Sp, Addi Sp Sp 16] @ [Ins Ret]"

definition store_to_trap_frame_and_run_function :: "line list" where
  "store_to_trap_frame_and_run_function =
     [Lab ''store_to_trap_frame_and_run_function''] @ map Ins save_caller @ [Ins (Jalr A1)] @ before_return"

text \<open>The whole file.\<close>

definition trap_S :: "line list" where
  "trap_S = s_trap_vector @ switch_to_supervisor_frame @ switch_to_user_frame @ do_syscall_internal
     @ store_to_trap_frame @ store_to_trap_frame_and_run_function"

lemmas routine_defs = trap_S_def s_trap_vector_def trap_enter_def trap_return_def switch_to_supervisor_frame_def
  supervisor_switch_def switch_to_user_frame_def user_switch_def do_syscall_internal_def store_to_trap_frame_def
  store_to_trap_frame_and_run_function_def save_caller_def before_return_def store_volatile_registers_def save_general_def
  restore_volatile_registers_def load_from_trap_frame_def floating_check_def

section \<open>Trap frames in memory\<close>

definition slot :: "usize \<Rightarrow> nat \<Rightarrow> usize" where
  "slot f i = f + of_nat i * 8"

text \<open>\<^verbatim>\<open>#[repr(C)]\<close> of \<^verbatim>\<open>TrapFrame\<close>.\<close>

definition frame_at :: "(usize \<Rightarrow> usize) \<Rightarrow> usize \<Rightarrow> TrapFrame" where
  "frame_at ms f =
     \<lparr>general_registers = map (\<lambda>i. ms (slot f i)) [0..<32], tf_pc = ms (slot f 32), hartid = ms (slot f 33),
      tf_pid = ms (slot f 34), interrupt_stack = ms (slot f 35), tf_flags = ms (slot f 36), tf_satp = ms (slot f 37),
      kernel_satp = ms (slot f 38), hart_locals = ms (slot f 39), process_raw_ptr = ms (slot f 40),
      restore_context = ms (slot f 41)\<rparr>"

definition frame_slots :: "usize \<Rightarrow> usize set" where
  "frame_slots f = slot f ` {..<42}"

section \<open>Lemmas on slots\<close>

lemma slot_aligned: "aligned f \<Longrightarrow> aligned (slot f i)"
  unfolding slot_def by (intro aligned_add aligned_mult) (simp_all add: aligned_def)

lemma slot_inject: "i < 64 \<Longrightarrow> j < 64 \<Longrightarrow> slot f i = slot f j \<longleftrightarrow> i = j"
proof
  assume ij: "i < 64" "j < 64" and "slot f i = slot f j"
  then have "(of_nat (i * 8) :: usize) = of_nat (j * 8)" by (simp add: slot_def)
  then have "unat (of_nat (i * 8) :: usize) = unat (of_nat (j * 8) :: usize)" by simp
  moreover have "unat (of_nat (i * 8) :: usize) = i * 8" "unat (of_nat (j * 8) :: usize) = j * 8"
    using ij by (intro unat_of_nat_usize, simp)+
  ultimately show "i = j" by simp
qed simp

lemma xreg_reg_idx [simp]: "xreg (reg_idx r) = r"
  by (cases r) (simp_all add: xreg_def all_registers_def)

lemma reg_idx_xreg: "i < 32 \<Longrightarrow> reg_idx (xreg i) = i"
proof -
  assume "i < 32"
  then have "i \<in> set [0..<32]" by simp
  moreover have "list_all (\<lambda>i. reg_idx (xreg i) = i) [0..<32]" by code_simp
  ultimately show ?thesis by (simp add: list_all_iff)
qed

section \<open>Saving and restoring registers\<close>

definition store_slots :: "usize \<Rightarrow> (nat \<Rightarrow> usize) \<Rightarrow> nat list \<Rightarrow> (usize \<Rightarrow> usize) \<Rightarrow> usize \<Rightarrow> usize" where
  "store_slots f v is ms = fold (\<lambda>i ms. ms(slot f i := v i)) is ms"

lemma store_slots_other: "a \<notin> slot f ` set is \<Longrightarrow> store_slots f v is ms a = ms a"
  unfolding store_slots_def by (induction "is" arbitrary: ms) auto

lemma store_slots_slot:
  assumes "set is \<subseteq> {..<64}" and "j < 64"
  shows "store_slots f v is ms (slot f j) = (if j \<in> set is then v j else ms (slot f j))"
proof (cases "j \<in> set is")
  case True
  then obtain p q where "is": "is = p @ j # q" "j \<notin> set q" by (meson split_list_last)
  have "slot f j \<notin> slot f ` set q" using assms "is" by (auto simp: slot_inject)
  then have "store_slots f v q ms' (slot f j) = ms' (slot f j)" for ms' by (rule store_slots_other)
  with True show ?thesis by (simp add: "is"(1) store_slots_def)
next
  case False
  then have "slot f j \<notin> slot f ` set is" using assms by (auto simp: slot_inject)
  with False show ?thesis by (simp add: store_slots_other)
qed

lemma effects_stores:
  assumes "aligned f" and "reg m base = f"
  shows "effects syms (map (\<lambda>i. store_general i base) is) m
    = Some (m\<lparr>mem := store_slots f (\<lambda>i. reg m (xreg i)) is (mem m)\<rparr>)"
  using assms(2)
proof (induction "is" arbitrary: m)
  case (Cons i "is")
  have "aligned (slot f i)" using assms(1) by (rule slot_aligned)
  with Cons show ?case
    by (simp add: store_general_def XLEN_def store_def slot_def store_slots_def machine_simps)
qed (simp add: store_slots_def)

lemma gpr_reg: "r \<noteq> Zero \<Longrightarrow> gpr m r = reg m r"
  by (simp add: reg_def)

lemma effects_loads:
  assumes "aligned f" and "reg m T6 = f" and "1 \<le> k" and "k \<le> 32"
  shows "effects syms (map (\<lambda>i. load_general i T6) [1..<k]) m
    = Some (m\<lparr>gpr := \<lambda>r. if 1 \<le> reg_idx r \<and> reg_idx r < k then mem m (slot f (reg_idx r)) else gpr m r\<rparr>)"
  using assms(3,4)
proof (induction k rule: dec_induct)
  case base
  have "(\<lambda>r. if 1 \<le> reg_idx r \<and> reg_idx r < 1 then mem m (slot f (reg_idx r)) else gpr m r) = gpr m"
    by (auto simp: fun_eq_iff)
  then have "m = m\<lparr>gpr := \<lambda>r. if 1 \<le> reg_idx r \<and> reg_idx r < 1 then mem m (slot f (reg_idx r)) else gpr m r\<rparr>"
    by (simp only:) simp
  then show ?case by simp
next
  case (step k)
  let ?g = "\<lambda>k r. if 1 \<le> reg_idx r \<and> reg_idx r < k then mem m (slot f (reg_idx r)) else gpr m r"
  have k: "reg_idx (xreg k) = k" using step.prems by (intro reg_idx_xreg) simp
  have "(?g k)(xreg k := mem m (slot f k)) = ?g (Suc k)"
  proof
    fix r
    have "reg_idx r = k \<Longrightarrow> r = xreg k" by auto
    then show "((?g k)(xreg k := mem m (slot f k))) r = ?g (Suc k) r"
      using k step.hyps(1) by (cases "r = xreg k") (auto simp: less_Suc_eq)
  qed
  moreover have "xreg k \<noteq> Zero" using k step.hyps(1) by auto
  moreover have "reg (m\<lparr>gpr := ?g k\<rparr>) T6 = f" using assms(2) step.prems by (simp add: reg_def)
  ultimately have "effect syms (load_general k T6) (m\<lparr>gpr := ?g k\<rparr>) = Some (m\<lparr>gpr := ?g (Suc k)\<rparr>)"
    using slot_aligned [OF assms(1), of k] by (simp add: load_general_def XLEN_def load_def slot_def set_reg_def)
  then show ?case using step by (simp add: foldM_append)
qed

text \<open>The machine after its registers have been saved in the frame at \<open>f\<close>, and after they have been restored.\<close>

definition saved :: "usize \<Rightarrow> machine \<Rightarrow> machine" where
  "saved f m = (set_reg T5 f m)\<lparr>mem := store_slots f (\<lambda>i. reg m (xreg i)) [0..<32] (mem m)\<rparr>"

definition restored :: "usize \<Rightarrow> machine \<Rightarrow> machine" where
  "restored f m = m\<lparr>gpr := \<lambda>r. if r = Zero then gpr m r else mem m (slot f (reg_idx r))\<rparr>"

lemma effects_save:
  assumes "aligned f" and "csr m Sscratch = f" and "supervisor m"
  shows "effects syms save_general m = Some (saved f m)"
proof -
  let ?m1 = "set_reg T6 f (set_csr Sscratch (reg m T6) m)"
  let ?m2 = "?m1\<lparr>mem := store_slots f (\<lambda>i. reg m (xreg i)) [0..<31] (mem m)\<rparr>"
  have "xreg i \<noteq> T6" if "i < 31" for i using that reg_idx_xreg [of i] by auto
  then have "fold (\<lambda>i ms. ms(slot f i := reg ?m1 (xreg i))) [0..<31] ms
      = fold (\<lambda>i ms. ms(slot f i := reg m (xreg i))) [0..<31] ms" for ms
    by (intro fold_cong) (auto simp: machine_simps)
  then have s: "effects syms (map (\<lambda>i. store_general i T6) [0..<31]) ?m1 = Some ?m2"
    using effects_stores [OF assms(1), of ?m1 T6 syms "[0..<31]"] by (simp add: store_slots_def machine_simps)
  have last: "store_slots f v [0..<32] ms = (store_slots f v [0..<31] ms)(slot f 31 := v 31)" for v ms
  proof -
    have "[0..<32] = [0..<31] @ [31]" by (simp add: upt_rec)
    then show ?thesis by (simp only: store_slots_def fold_append) simp
  qed
  have x31: "xreg 31 = T6" by (simp add: xreg_def all_registers_def)
  have "effects syms [Mv T5 T6, Csrr T6 Sscratch, store_general 31 T5, Csrw Sscratch T5] ?m2 = Some (saved f m)"
    using slot_aligned [OF assms(1), of 31] assms(2,3)
    by (simp add: store_general_def XLEN_def store_def x31 saved_def last slot_def machine_simps)
       (auto simp: set_reg_def set_csr_def reg_def fun_eq_iff)
  then show ?thesis
    using s assms(2,3) unfolding save_general_def foldM_append by (simp add: machine_simps)
qed

lemma runs_store_volatile:
  assumes "aligned f" and "csr m Sscratch = f" and "supervisor m"
  shows "runs code syms (store_volatile_registers one) m (saved f m)"
proof -
  have "runs code syms (map Ins save_general @
      ([Ins (J one)] @ (floating_check one @ map (\<lambda>i. Ins (store_floating i T5)) [0..<32]) @ [Lab one])) m (saved f m)"
    by (rule runs_append [OF runs_block [OF effects_save [OF assms]] runs_jump_over])
  then show ?thesis by (simp add: store_volatile_registers_def)
qed

lemma runs_restore_volatile:
  assumes "aligned f" and "csr m Sscratch = f" and "supervisor m"
  shows "runs code syms (restore_volatile_registers one) m (restored f m)"
proof -
  have gpr: "(\<lambda>r. if 1 \<le> reg_idx r \<and> reg_idx r < 32 then mem m (slot f (reg_idx r)) else gpr (set_reg T6 f m) r)
      = (\<lambda>r. if r = Zero then gpr m r else mem m (slot f (reg_idx r)))"
  proof
    fix r
    have "1 \<le> reg_idx r \<longleftrightarrow> r \<noteq> Zero" by (cases r) simp_all
    then show "(if 1 \<le> reg_idx r \<and> reg_idx r < 32 then mem m (slot f (reg_idx r)) else gpr (set_reg T6 f m) r)
        = (if r = Zero then gpr m r else mem m (slot f (reg_idx r)))"
      by (auto simp: set_reg_def)
  qed
  have "effects syms (map (\<lambda>i. load_general i T6) [1..<32]) (set_reg T6 f m) = Some (restored f m)"
    using effects_loads [OF assms(1), of "set_reg T6 f m" 32] unfolding set_reg_fields gpr
    by (simp add: machine_simps restored_def set_reg_def reg_def)
  then have "runs code syms (map Ins [Csrr T6 Sscratch]
      @ ([Ins (J one)] @ (floating_check one @ map (\<lambda>i. Ins (load_floating i T6)) [0..<32]) @ [Lab one])
      @ map Ins (map (\<lambda>i. load_general i T6) [1..<32])) m (restored f m)"
    using assms(2,3) by (intro runs_append [OF _ runs_append [OF runs_jump_over]] runs_block) simp_all
  then show ?thesis by (simp add: restore_volatile_registers_def load_from_trap_frame_def comp_def)
qed

section \<open>The routines as functions\<close>

text \<open>A line that jumps.\<close>

lemma located_ins:
  "located code syms (Ins i # ls) a = Some b \<longleftrightarrow>
   (\<exists>nxt. code a = Some (i, nxt) \<and> (pseudo i \<or> nxt = a + 4) \<and> located code syms ls nxt = Some b)"
  by (auto split: option.splits prod.splits)

lemma located_label: "located code syms (Lab s # ls) a = Some b \<longleftrightarrow> syms s = a \<and> located code syms ls a = Some b"
  by simp

lemma located_split: "located code syms (p @ q) a = Some c \<longleftrightarrow> (\<exists>b. located code syms p a = Some b \<and> located code syms q b = Some c)"
  by (simp add: located_append bind_eq_Some_conv)

lemma runs_then_step:
  assumes "runs code syms p m m'" and "located code syms p (pc m) = Some b" and "code b = Some (i, nxt)"
    and "exec syms i nxt (m'\<lparr>pc := b\<rparr>) = Some m''"
  shows "reaches code syms m m''"
proof -
  have "reaches code syms (m\<lparr>pc := pc m\<rparr>) (m'\<lparr>pc := b\<rparr>)"
    using assms(1) [unfolded runs_def, rule_format, OF assms(2)] .
  moreover have "step code syms (m'\<lparr>pc := b\<rparr>) = Some m''" using assms(3,4) by (simp add: step_def)
  then have "reaches code syms (m'\<lparr>pc := b\<rparr>) m''" by (rule reaches_step) simp
  ultimately show ?thesis by (auto intro: reaches_trans)
qed

text \<open>The machine when the trap vector calls \<^verbatim>\<open>trap_handler\<close>.\<close>

definition entered_memory :: "usize \<Rightarrow> machine \<Rightarrow> usize \<Rightarrow> usize" where
  "entered_memory f m = (store_slots f (\<lambda>i. reg m (xreg i)) [0..<32] (mem m))(slot f 32 := csr m Sepc)"

definition entered :: "usize \<Rightarrow> machine \<Rightarrow> machine" where
  "entered f m =
     (set_csr Satp (mem m (slot f 38)) (set_reg A0 (csr m Sepc) (set_reg Sp (mem m (slot f 35)) (set_reg T5 f m))))
     \<lparr>mem := entered_memory f m\<rparr>"

lemma slot_offset: "f + XLEN * 32 = slot f 32" "f + XLEN * 35 = slot f 35" "f + XLEN * 37 = slot f 37" "f + XLEN * 38 = slot f 38"
  by (simp_all add: XLEN_def slot_def)

lemma runs_trap_enter:
  assumes "aligned f" and "csr m Sscratch = f" and "supervisor m"
  shows "runs code syms trap_enter m (entered f m)"
proof -
  have al: "aligned (slot f i)" for i using assms(1) by (rule slot_aligned)
  have ms: "store_slots f v [0..<32] ms (slot f 35) = ms (slot f 35)" "store_slots f v [0..<32] ms (slot f 38) = ms (slot f 38)"
    for v ms by (simp_all add: store_slots_slot subset_eq)
  have "effects syms [Ld A0 (XLEN * 38) T5, Csrw Satp A0, Ld Sp (XLEN * 35) T5, Csrr A0 Sepc, Sd A0 (XLEN * 32) T5] (saved f m)
      = Some (entered f m)"
    using assms(3) al
    by (simp add: saved_def load_def store_def slot_offset ms machine_simps entered_def entered_memory_def)
       (auto simp: set_reg_def set_csr_def fun_eq_iff)
  then show ?thesis
    unfolding trap_enter_def by (rule runs_append [OF runs_store_volatile [OF assms] runs_block])
qed

text \<open>Returning from a trap, and switching to a frame.\<close>

definition sret_status :: "usize \<Rightarrow> usize" where
  "sret_status s = put_bit 1 (bit s 5) (set_bit 5 (unset_bit 8 s))"

definition trap_returned :: "usize \<Rightarrow> machine \<Rightarrow> machine" where
  "trap_returned f m =
     (set_csr Sstatus (sret_status (csr m Sstatus)) (set_csr Satp (mem m (slot f 37)) (set_csr Sepc (mem m (slot f 32)) (restored f m))))
     \<lparr>pc := mem m (slot f 32), supervisor := bit (csr m Sstatus) 8\<rparr>"

definition resumed :: "usize \<Rightarrow> machine \<Rightarrow> machine" where
  "resumed f m =
     (set_csr Sstatus (sret_status (csr m Sstatus)) (set_csr Sie 0x222 (set_csr Satp (mem m (slot f 37))
       (set_csr Sepc (mem m (slot f 32)) (set_csr Sscratch f (restored f m))))))
     \<lparr>pc := mem m (slot f 32), supervisor := True\<rparr>"

definition resumed_user :: "usize \<Rightarrow> machine \<Rightarrow> machine" where
  "resumed_user f m = (resumed f m)\<lparr>supervisor := False\<rparr>"

lemma restored_simps [machine_simps]:
  "restored f (set_reg r v m) = restored f m" "restored f (set_csr c w m) = set_csr c w (restored f m)"
  "csr (restored f m) = csr m" "mem (restored f m) = mem m" "supervisor (restored f m) = supervisor m" "fpr (restored f m) = fpr m"
  by (auto simp: restored_def set_reg_def set_csr_def fun_eq_iff)

lemma sret_eq:
  "sret m = (set_csr Sstatus (sret_status (csr m Sstatus)) m)\<lparr>pc := csr m Sepc, supervisor := bit (csr m Sstatus) 8\<rparr>"
  by (simp add: sret_def sret_status_def)

lemma set_csr_twice: "set_csr c v (set_csr c w m) = set_csr c v m"
  by (simp add: set_csr_def)

lemma set_csr_pc: "set_csr c v (m\<lparr>pc := p\<rparr>) = (set_csr c v m)\<lparr>pc := p\<rparr>"
  by (simp add: set_csr_def)

lemma trap_return_reaches:
  assumes "located code syms (trap_return @ [Ins Sret]) (pc m) = Some b"
    and "aligned f" and "csr m Sscratch = f" and "supervisor m"
  shows "reaches code syms m (trap_returned f m)"
proof -
  let ?m = "set_csr Satp (mem m (slot f 37)) (set_reg A0 (mem m (slot f 37)) (set_csr Sepc (mem m (slot f 32)) (set_reg T5 f m)))"
  have al: "aligned (slot f i)" for i using assms(2) by (rule slot_aligned)
  have "effects syms [Csrr T5 Sscratch, Ld A0 (XLEN * 32) T5, Csrw Sepc A0, Ld A0 (XLEN * 37) T5, Csrw Satp A0] m = Some ?m"
    using assms(3,4) al by (simp add: load_def slot_offset machine_simps) (auto simp: set_reg_def set_csr_def fun_eq_iff)
  moreover have "runs code syms (restore_volatile_registers ''s_trap_vector.2'') ?m (restored f ?m)"
    using assms by (intro runs_restore_volatile) (simp_all add: machine_simps)
  ultimately have r: "runs code syms trap_return m (restored f ?m)"
    unfolding trap_return_def by (intro runs_append [OF runs_block runs_append [OF _ runs_label]])
  from assms(1) obtain c nxt where pl: "located code syms trap_return (pc m) = Some c" "code c = Some (Sret, nxt)"
    unfolding located_split located_ins by blast
  show ?thesis
    using assms(4) by (intro runs_then_step [OF r pl]) (simp_all add: sret_eq trap_returned_def set_csr_pc machine_simps)
qed

lemma or_SPP: "bit (256 OR s) 8" "bit (256 OR s) 5 = bit s 5" "unset_bit 8 (256 OR s) = unset_bit 8 (s :: usize)"
proof -
  have b: "bit (256 :: usize) n \<longleftrightarrow> n = 8" for n
    using bit_exp_iff [where 'a = usize, of 8 n] by (auto simp: possible_bit_def)
  show "bit (256 OR s) 8" "bit (256 OR s) 5 = bit s 5" "unset_bit 8 (256 OR s) = unset_bit 8 s"
    unfolding bit_eq_iff by (auto simp: b bit_or_iff bit_unset_bit_iff simp del: bit_numeral_word_iff)
qed

lemma effects_supervisor_switch:
  assumes "aligned f" and "reg m A0 = f" and "supervisor m"
  shows "effects syms supervisor_switch m
    = Some (set_reg T1 (push_bit 8 1) (set_reg T0 (push_bit 8 1 OR csr m Sstatus) (set_csr Sstatus (push_bit 8 1 OR csr m Sstatus)
        (set_csr Sie 0x222 (set_csr Satp (mem m (slot f 37)) (set_csr Sepc (mem m (slot f 32)) (set_csr Sscratch f m)))))))"
proof -
  have al: "aligned (slot f i)" for i using assms(1) by (rule slot_aligned)
  show ?thesis
    using assms(2,3) al unfolding supervisor_switch_def
    by (simp add: load_def slot_offset machine_simps) (auto simp: set_reg_def set_csr_def fun_eq_iff)
qed

lemma switch_to_supervisor_frame_reaches:
  assumes "located code syms switch_to_supervisor_frame (pc m) = Some b"
    and "aligned f" and "reg m A0 = f" and "supervisor m"
  shows "reaches code syms m (resumed f m)"
proof -
  let ?m = "set_reg T1 (push_bit 8 1) (set_reg T0 (push_bit 8 1 OR csr m Sstatus) (set_csr Sstatus (push_bit 8 1 OR csr m Sstatus)
        (set_csr Sie 0x222 (set_csr Satp (mem m (slot f 37)) (set_csr Sepc (mem m (slot f 32)) (set_csr Sscratch f m))))))"
  have "runs code syms (restore_volatile_registers ''switch_to_supervisor_frame.1'') ?m (restored f ?m)"
    using assms by (intro runs_restore_volatile) (simp_all add: machine_simps)
  then have r: "runs code syms ([Lab ''switch_to_supervisor_frame''] @ map Ins supervisor_switch
      @ restore_volatile_registers ''switch_to_supervisor_frame.1'') m (restored f ?m)"
    by (rule runs_append [OF runs_label runs_append [OF runs_block [OF effects_supervisor_switch [OF assms(2-4)]]]])
  from assms(1) obtain c nxt where pl: "located code syms ([Lab ''switch_to_supervisor_frame''] @ map Ins supervisor_switch
      @ restore_volatile_registers ''switch_to_supervisor_frame.1'') (pc m) = Some c" "code c = Some (Sret, nxt)"
    unfolding switch_to_supervisor_frame_def append_assoc [symmetric] located_split located_ins by blast
  show ?thesis
    using assms(4) by (intro runs_then_step [OF r pl]) (simp_all add: sret_eq resumed_def sret_status_def or_SPP
      set_csr_pc set_csr_twice machine_simps)
qed

section \<open>Where the routines are\<close>

lemma trap_S_placed:
  assumes "located code syms trap_S a = Some b"
  shows "\<exists>c. located code syms s_trap_vector (syms ''s_trap_vector'') = Some c"
    and "\<exists>c. located code syms switch_to_supervisor_frame (syms ''switch_to_supervisor_frame'') = Some c"
    and "\<exists>c. located code syms switch_to_user_frame (syms ''switch_to_user_frame'') = Some c"
    and "\<exists>c. located code syms store_to_trap_frame (syms ''store_to_trap_frame'') = Some c"
    and "\<exists>c. located code syms store_to_trap_frame_and_run_function (syms ''store_to_trap_frame_and_run_function'') = Some c"
proof -
  have at: "\<exists>c. located code syms p (syms l) = Some c" if "trap_S = pre @ p @ post" "p = Lab l # ls" for pre p post l ls
    using located_at_label [of code syms pre l ls post a b] assms that by simp
  show "\<exists>c. located code syms s_trap_vector (syms ''s_trap_vector'') = Some c"
    by (rule at [of "[]"], simp add: trap_S_def, simp add: s_trap_vector_def)
  show "\<exists>c. located code syms switch_to_supervisor_frame (syms ''switch_to_supervisor_frame'') = Some c"
    by (rule at [of s_trap_vector], simp add: trap_S_def, simp add: switch_to_supervisor_frame_def)
  show "\<exists>c. located code syms switch_to_user_frame (syms ''switch_to_user_frame'') = Some c"
    by (rule at [of "s_trap_vector @ switch_to_supervisor_frame"], simp add: trap_S_def, simp add: switch_to_user_frame_def)
  show "\<exists>c. located code syms store_to_trap_frame (syms ''store_to_trap_frame'') = Some c"
    by (rule at [of "s_trap_vector @ switch_to_supervisor_frame @ switch_to_user_frame @ do_syscall_internal"],
        simp add: trap_S_def, simp add: store_to_trap_frame_def)
  show "\<exists>c. located code syms store_to_trap_frame_and_run_function (syms ''store_to_trap_frame_and_run_function'') = Some c"
    by (rule at [of "s_trap_vector @ switch_to_supervisor_frame @ switch_to_user_frame @ do_syscall_internal @ store_to_trap_frame"],
        simp add: trap_S_def, simp add: store_to_trap_frame_and_run_function_def)
qed

lemma trap_S_assembled: "\<exists>b. located (assembled base trap_S) (symbols base trap_S) trap_S base = Some b"
proof -
  have "distinct (map fst (labels trap_S 0))"
    unfolding fst_labels by (simp add: routine_defs label_names_append)
  moreover have "length (instrs trap_S) * 4 < 2 ^ 64"
    by (simp add: routine_defs instrs_append)
  ultimately show ?thesis using located_assembled by blast
qed

end
