(* ===== verification/Entry_Asm.thy ===== *)
theory Entry_Asm
  imports Trap_Asm Boot
begin

text \<open>
  The rest of the assembly: \<^verbatim>\<open>asm/syscall.S\<close>, the entry of the bootloader (\<^verbatim>\<open>kernel_bootloader/boot.S\<close>), the fragment with
  which the kernel starts (\<^verbatim>\<open>useful_asm_fragment!\<close> of \<^verbatim>\<open>kernel_util\<close>), and the switch to a user frame of \<^verbatim>\<open>trap.S\<close>.
\<close>

section \<open>System calls of supervisor code\<close>

definition syscall_push :: "instr list" where
  "syscall_push = [Addi Sp Sp (- 16), Sd Ra 0 Sp, Csrr T0 Sie]"

definition syscall_arguments :: "instr list" where
  "syscall_arguments =
     [Mv T0 A7, Mv A7 A0, Mv A0 A1, Mv A1 A2, Mv A2 A3, Mv A3 A4, Mv A4 A5, Mv A6 T0,
      Csrr T0 Sip, Ori T0 T0 (push_bit 1 1), Csrw Sip T0, Wfi]"

definition syscall_pop :: "instr list" where
  "syscall_pop = [Ld Ra 0 Sp, Addi Sp Sp 16]"

definition syscall_S :: "line list" where
  "syscall_S =
     [Lab ''do_supervisor_syscall''] @ map Ins syscall_push
     @ [Ins (Beqz T0 ''.error_syscall_interrupt_disabled'')] @ map Ins syscall_arguments
     @ [Lab ''do_supervisor_syscall_end''] @ map Ins syscall_pop @ [Ins Ret]
     @ [Lab ''.error_syscall_interrupt_disabled'', Ins (J ''syscall_on_interrupt_disabled'')]
     @ map Ins syscall_pop @ [Ins Ret]"

section \<open>Entry points\<close>

definition bootloader_boot :: "line list" where
  "bootloader_boot = [Lab ''boot'', Ins (La Sp ''_stack_start''), Ins (Call ''pre_main'')]"

definition hart_entry_point_S :: "line list" where
  "hart_entry_point_S =
     [Lab ''hart_entry_point''] @ map Ins [Mv Sp A1, Ld T0 0 Sp, Csrw Satp T0] @ [Ins (Call ''hart_entry'')]"

definition kernel_boot :: "line list" where
  "kernel_boot = map Ins [Mv Sp A4, La T0 ''main''] @ [Ins (Jalr T0)]"

text \<open>The arguments of a call, and those that the kernel is called with.\<close>

definition arguments :: "machine \<Rightarrow> usize list" where
  "arguments m = map (reg m) [A0, A1, A2, A3, A4, A5]"

definition argument_list :: "main_args \<Rightarrow> usize list" where
  "argument_list args = [arg_hartid args, arg_opaque args, arg_sv_bits args, arg_kernel_len args, arg_stack_start args,
     arg_hart_entry args]"

section \<open>The call with all its arguments\<close>

lemma effects_syscall_push:
  assumes "aligned (reg m Sp)" and "supervisor m"
  shows "effects syms syscall_push m
    = Some ((set_reg T0 (csr m Sie) (set_reg Sp (reg m Sp - 16) m))\<lparr>mem := (mem m)(reg m Sp - 16 := reg m Ra)\<rparr>)"
  using aligned_sp [OF assms(1)] assms(2)
  by (simp add: syscall_push_def store_def machine_simps) (simp add: set_reg_def)

lemma effects_syscall_arguments:
  assumes "supervisor m"
  shows "\<exists>m'. effects syms syscall_arguments m = Some m' \<and> csr m' = (csr m)(Sip := csr m Sip OR 2) \<and> mem m' = mem m
    \<and> supervisor m' \<and> reg m' A7 = reg m A0 \<and> reg m' A0 = reg m A1 \<and> reg m' A1 = reg m A2 \<and> reg m' A2 = reg m A3
    \<and> reg m' A3 = reg m A4 \<and> reg m' A4 = reg m A5 \<and> reg m' A5 = reg m A5 \<and> reg m' A6 = reg m A7 \<and> reg m' Sp = reg m Sp"
  using assms by (simp add: syscall_arguments_def machine_simps)

lemma syscall_end_reaches:
  assumes "located code syms ([Lab ''do_supervisor_syscall_end''] @ map Ins syscall_pop @ [Ins Ret]) (pc m) = Some b"
    and "aligned (reg m Sp)"
  shows "\<exists>m'. reaches code syms m m' \<and> pc m' = mem m (reg m Sp) \<and> reg m' Sp = reg m Sp + 16"
proof -
  let ?m = "set_reg Sp (reg m Sp + 16) (set_reg Ra (mem m (reg m Sp)) m)"
  let ?p = "[Lab ''do_supervisor_syscall_end''] @ map Ins syscall_pop"
  have "effects syms syscall_pop m = Some ?m" using assms(2) by (simp add: syscall_pop_def load_def machine_simps)
  then have r: "runs code syms ?p m ?m" by (intro runs_append [OF runs_label runs_block])
  from assms(1) obtain c nxt where c: "located code syms ?p (pc m) = Some c" "code c = Some (Ret, nxt)"
    unfolding append_assoc [symmetric] located_split located_ins by blast
  have "reaches code syms m (?m\<lparr>pc := mem m (reg m Sp)\<rparr>)"
    by (rule runs_then_step [OF r c]) (simp add: machine_simps)
  then show ?thesis by (intro exI [of _ "?m\<lparr>pc := mem m (reg m Sp)\<rparr>"]) (simp add: machine_simps)
qed

text \<open>The parts of the routine, where the linker has put them.\<close>

lemma syscall_S_parts:
  assumes "located code syms syscall_S a = Some b"
  shows "\<exists>c d e nxt. located code syms ([Lab ''do_supervisor_syscall''] @ map Ins syscall_push) (syms ''do_supervisor_syscall'') = Some c
    \<and> code c = Some (Beqz T0 ''.error_syscall_interrupt_disabled'', d)
    \<and> located code syms (map Ins syscall_arguments) d = Some (syms ''do_supervisor_syscall_end'')
    \<and> located code syms ([Lab ''do_supervisor_syscall_end''] @ map Ins syscall_pop @ [Ins Ret]) (syms ''do_supervisor_syscall_end'') = Some e
    \<and> code (syms ''.error_syscall_interrupt_disabled'') = Some (J ''syscall_on_interrupt_disabled'', nxt)"
  using assms unfolding syscall_S_def located_split located_ins append_Cons append_Nil located_label
  by (elim exE conjE) (fastforce simp: located_split located_ins)

text \<open>
  A call of \<^verbatim>\<open>do_supervisor_syscall(number, ...)\<close>: with interrupts disabled it goes to \<^verbatim>\<open>syscall_on_interrupt_disabled\<close>, which
  loops. Otherwise it raises the software interrupt with the number in \<^verbatim>\<open>a7\<close>, its first five arguments in \<^verbatim>\<open>a0\<close> to \<^verbatim>\<open>a4\<close> and its seventh
  in \<^verbatim>\<open>a6\<close>; but \<^verbatim>\<open>a5\<close> holds the fifth again, the sixth is passed nowhere. After the interrupt it returns to its caller with the stack
  pointer it was called with, when its stack slot has been left alone.
\<close>

theorem supervisor_syscall_arguments:
  assumes "located code syms syscall_S a = Some b" and "pc m = syms ''do_supervisor_syscall''" and "aligned (reg m Sp)" and "supervisor m"
  shows "if csr m Sie = 0 then \<exists>m1. reaches code syms m m1 \<and> pc m1 = syms ''syscall_on_interrupt_disabled''
    else \<exists>m1. reaches code syms m m1 \<and> pc m1 = syms ''do_supervisor_syscall_end''
      \<and> csr m1 = (csr m)(Sip := csr m Sip OR 2) \<and> reg m1 A7 = reg m A0
      \<and> reg m1 A0 = reg m A1 \<and> reg m1 A1 = reg m A2 \<and> reg m1 A2 = reg m A3 \<and> reg m1 A3 = reg m A4 \<and> reg m1 A4 = reg m A5
      \<and> reg m1 A5 = reg m A5 \<and> reg m1 A6 = reg m A7
      \<and> (\<forall>m2. pc m2 = pc m1 \<and> reg m2 Sp = reg m1 Sp \<and> mem m2 (reg m1 Sp) = mem m1 (reg m1 Sp) \<longrightarrow>
           (\<exists>m3. reaches code syms m2 m3 \<and> pc m3 = reg m Ra \<and> reg m3 Sp = reg m Sp))"
proof -
  obtain c d e nxt where p: "located code syms ([Lab ''do_supervisor_syscall''] @ map Ins syscall_push) (pc m) = Some c"
    "code c = Some (Beqz T0 ''.error_syscall_interrupt_disabled'', d)"
    "located code syms (map Ins syscall_arguments) d = Some (syms ''do_supervisor_syscall_end'')"
    "located code syms ([Lab ''do_supervisor_syscall_end''] @ map Ins syscall_pop @ [Ins Ret]) (syms ''do_supervisor_syscall_end'') = Some e"
    "code (syms ''.error_syscall_interrupt_disabled'') = Some (J ''syscall_on_interrupt_disabled'', nxt)"
    using syscall_S_parts [OF assms(1)] assms(2) by auto
  let ?m = "(set_reg T0 (csr m Sie) (set_reg Sp (reg m Sp - 16) m))\<lparr>mem := (mem m)(reg m Sp - 16 := reg m Ra)\<rparr>"
  let ?pc = "if csr m Sie = 0 then syms ''.error_syscall_interrupt_disabled'' else d"
  have r: "runs code syms ([Lab ''do_supervisor_syscall''] @ map Ins syscall_push) m ?m"
    by (rule runs_append [OF runs_label runs_block [OF effects_syscall_push [OF assms(3,4)]]])
  have b: "reaches code syms m (?m\<lparr>pc := ?pc\<rparr>)"
    by (rule runs_then_step [OF r p(1,2)]) (simp add: machine_simps)
  show ?thesis
  proof (cases "csr m Sie = 0")
    case True
    then have "step code syms (?m\<lparr>pc := ?pc\<rparr>) = Some (?m\<lparr>pc := syms ''syscall_on_interrupt_disabled''\<rparr>)"
      using p(5) by (simp add: step_def)
    then have "reaches code syms m (?m\<lparr>pc := syms ''syscall_on_interrupt_disabled''\<rparr>)"
      by (intro reaches_trans [OF b] reaches_step [OF _ reaches_refl])
    then have "\<exists>m1. reaches code syms m m1 \<and> pc m1 = syms ''syscall_on_interrupt_disabled''"
      by (intro exI [of _ "?m\<lparr>pc := syms ''syscall_on_interrupt_disabled''\<rparr>"]) simp
    then show ?thesis using True by simp
  next
    case False
    have s: "supervisor (?m\<lparr>pc := d\<rparr>)" using assms(4) by (simp add: machine_simps)
    from effects_syscall_arguments [OF s, of syms] obtain m' where m': "effects syms syscall_arguments (?m\<lparr>pc := d\<rparr>) = Some m'"
      "csr m' = (csr m)(Sip := csr m Sip OR 2)" "mem m' = (mem m)(reg m Sp - 16 := reg m Ra)" "reg m' Sp = reg m Sp - 16"
      "reg m' A7 = reg m A0" "reg m' A0 = reg m A1" "reg m' A1 = reg m A2" "reg m' A2 = reg m A3" "reg m' A3 = reg m A4"
      "reg m' A4 = reg m A5" "reg m' A5 = reg m A5" "reg m' A6 = reg m A7"
      by (auto simp: machine_simps)
    let ?m1 = "m'\<lparr>pc := syms ''do_supervisor_syscall_end''\<rparr>"
    have r1: "reaches code syms m ?m1"
      using b False run_block [OF _ m'(1), of code "syms ''do_supervisor_syscall_end''"] p(3) by (auto intro: reaches_trans)
    have "\<exists>m3. reaches code syms m2 m3 \<and> pc m3 = reg m Ra \<and> reg m3 Sp = reg m Sp"
      if "pc m2 = pc ?m1 \<and> reg m2 Sp = reg ?m1 Sp \<and> mem m2 (reg ?m1 Sp) = mem ?m1 (reg ?m1 Sp)" for m2
      using syscall_end_reaches [of code syms m2 e] p(4) that m'(3,4) aligned_sp [OF assms(3)] by (auto simp: machine_simps)
    then show ?thesis using False r1 m' by (simp add: machine_simps) (rule exI [of _ ?m1], simp add: machine_simps)
  qed
qed

abbreviation syscall_code :: code where
  "syscall_code \<equiv> assembled 0x80000000 syscall_S"

abbreviation syscall_syms :: "symbol \<Rightarrow> usize" where
  "syscall_syms \<equiv> symbols 0x80000000 syscall_S"

definition syscall_machine :: machine where
  "syscall_machine =
     \<lparr>gpr = (\<lambda>_. 0)(A0 := 1, A5 := 15, A6 := 16, A7 := 17, Sp := 0x8000, Ra := 0x7000), fpr = (\<lambda>_. 0),
      pc = syscall_syms ''do_supervisor_syscall'', csr = (\<lambda>_. 0)(Sie := 0x222), mem = (\<lambda>_. 0), supervisor = True\<rparr>"

theorem supervisor_syscall_arguments_witness:
  "\<exists>m1 m3. reaches syscall_code syscall_syms syscall_machine m1 \<and> reg m1 A7 = 1 \<and> reg m1 A5 = 15 \<and> reg m1 A6 = 17
    \<and> reaches syscall_code syscall_syms m1 m3 \<and> pc m3 = 0x7000"
proof -
  have "distinct (map fst (labels syscall_S 0))" "length (instrs syscall_S) * 4 < 2 ^ 64"
    unfolding fst_labels by (simp_all add: syscall_S_def syscall_push_def syscall_arguments_def syscall_pop_def)
  from located_assembled [OF this] have p: "located syscall_code syscall_syms syscall_S 0x80000000
      = Some (0x80000000 + of_nat (length (instrs syscall_S) * 4))" .
  have m: "pc syscall_machine = syscall_syms ''do_supervisor_syscall''" "aligned (reg syscall_machine Sp)" "supervisor syscall_machine"
    by (simp_all add: syscall_machine_def reg_def aligned_def)
  have s: "csr syscall_machine Sie \<noteq> 0" "reg syscall_machine A0 = 1" "reg syscall_machine A5 = 15" "reg syscall_machine A7 = 17"
    "reg syscall_machine Ra = 0x7000"
    by (simp_all add: syscall_machine_def reg_def)
  show ?thesis
    using supervisor_syscall_arguments [OF p m] unfolding s if_not_P [OF s(1)] by blast
qed

section \<open>Entry of a hart\<close>

text \<open>
  C24. A hart that the firmware starts at \<^verbatim>\<open>hart_entry_point\<close> with its number in \<^verbatim>\<open>a0\<close> and the address of the last word of its stack in
  \<^verbatim>\<open>a1\<close> reaches \<^verbatim>\<open>hart_entry\<close> on that stack, under the page table that the word names; and when \<^verbatim>\<open>hart_entry\<close> has called the kernel with the
  arguments \<open>args\<close>, the kernel's first instructions reach \<^verbatim>\<open>main\<close> with the same arguments, on the stack that the fifth one names.
\<close>

theorem hart_entry_assembly:
  assumes "located code syms hart_entry_point_S a = Some b" and "located code syms kernel_boot 0xffffffff80000000 = Some b'"
    and "pc m = syms ''hart_entry_point''" and "reg m A0 = hart_id" and "reg m A1 = sp" and "aligned sp" and "supervisor m"
    and "hart_entry img hart_id sp = Some args"
  shows "(\<exists>m1. reaches code syms m m1 \<and> pc m1 = syms ''hart_entry'' \<and> reg m1 A0 = hart_id \<and> reg m1 Sp = sp
      \<and> csr m1 = (csr m)(Satp := mem m sp) \<and> mem m1 = mem m)
    \<and> (\<forall>m2. pc m2 = 0xffffffff80000000 \<and> arguments m2 = argument_list args \<longrightarrow>
      (\<exists>m3. reaches code syms m2 m3 \<and> pc m3 = syms ''main'' \<and> reg m3 Sp = sp + 0xffffffc000000000
        \<and> arguments m3 = argument_list args \<and> mem m3 = mem m2 \<and> csr m3 = csr m2))"
proof -
  let ?p = "[Lab ''hart_entry_point''] @ map Ins [Mv Sp A1, Ld T0 0 Sp, Csrw Satp T0]"
  let ?m = "set_csr Satp (mem m sp) (set_reg T0 (mem m sp) (set_reg Sp sp m))"
  have "effects syms [Mv Sp A1, Ld T0 0 Sp, Csrw Satp T0] m = Some ?m"
    using assms(5-7) by (simp add: load_def machine_simps)
  then have r: "runs code syms ?p m ?m" by (intro runs_append [OF runs_label runs_block])
  have "a = pc m" using assms(1,3) by (simp add: hart_entry_point_S_def split: if_splits)
  with assms(1) obtain c nxt where c: "located code syms ?p (pc m) = Some c" "code c = Some (Call ''hart_entry'', nxt)"
    unfolding hart_entry_point_S_def append_assoc [symmetric] located_split located_ins by blast
  have "reaches code syms m ((set_reg Ra nxt ?m)\<lparr>pc := syms ''hart_entry''\<rparr>)"
    by (rule runs_then_step [OF r c]) (simp add: set_reg_def)
  moreover have "\<exists>m3. reaches code syms m2 m3 \<and> pc m3 = syms ''main'' \<and> reg m3 Sp = sp + 0xffffffc000000000
        \<and> arguments m3 = argument_list args \<and> mem m3 = mem m2 \<and> csr m3 = csr m2"
    if m2: "pc m2 = 0xffffffff80000000" "arguments m2 = argument_list args" for m2
  proof -
    let ?n = "set_reg T0 (syms ''main'') (set_reg Sp (reg m2 A4) m2)"
    have q: "runs code syms (map Ins [Mv Sp A4, La T0 ''main'']) m2 ?n" by (intro runs_block) (simp add: machine_simps)
    from assms(2) m2(1) obtain d nxt' where d: "located code syms (map Ins [Mv Sp A4, La T0 ''main'']) (pc m2) = Some d"
      "code d = Some (Jalr T0, nxt')"
      unfolding kernel_boot_def located_split located_ins by auto
    have "reaches code syms m2 ((set_reg Ra nxt' ?n)\<lparr>pc := syms ''main''\<rparr>)"
      by (rule runs_then_step [OF q d]) (simp add: machine_simps, simp add: set_reg_def)
    moreover have "reg m2 A4 = sp + 0xffffffc000000000"
      using m2(2) assms(8) by (auto simp: arguments_def argument_list_def hart_entry_def checked_add_def split: bind_splits if_splits)
    ultimately show ?thesis
      using m2(2) by (intro exI [of _ "(set_reg Ra nxt' ?n)\<lparr>pc := syms ''main''\<rparr>"]) (simp add: arguments_def machine_simps)
  qed
  ultimately show ?thesis
    using assms(4) by (intro conjI exI [of _ "(set_reg Ra nxt ?m)\<lparr>pc := syms ''hart_entry''\<rparr>"]) (simp_all add: machine_simps)
qed

definition entry_code :: code where
  "entry_code a = (case assembled 0x80200000 hart_entry_point_S a of
     Some i \<Rightarrow> Some i | None \<Rightarrow> assembled 0xffffffff80000000 kernel_boot a)"

abbreviation entry_syms :: "symbol \<Rightarrow> usize" where
  "entry_syms \<equiv> symbols 0x80200000 hart_entry_point_S"

definition entry_machine :: machine where
  "entry_machine = \<lparr>gpr = (\<lambda>_. 0)(A0 := 2, A1 := 0x9000), fpr = (\<lambda>_. 0), pc = entry_syms ''hart_entry_point'', csr = (\<lambda>_. 0),
     mem = (\<lambda>_. 0)(0x9000 := 0x8000000000080001), supervisor = True\<rparr>"

definition entry_image :: boot_image where
  "entry_image = \<lparr>table_addr = 0x1000, heap_start = 0x10000, payload_addr = 0x80000000, payload_len = 0x1800,
     stack_start = 0x8000, hart_entry_point = 0x80200000, min_heap_size = 64\<rparr>"

theorem hart_entry_assembly_witness:
  "\<exists>m1. reaches entry_code entry_syms entry_machine m1 \<and> reg m1 A0 = 2 \<and> reg m1 Sp = 0x9000 \<and> csr m1 Satp = 0x8000000000080001"
proof -
  have p: "located entry_code entry_syms hart_entry_point_S 0x80200000 = Some 0x80200010"
    "located entry_code entry_syms kernel_boot 0xffffffff80000000 = Some 0xffffffff8000000c"
    by (simp_all add: entry_code_def assembled_def symbols_def hart_entry_point_S_def kernel_boot_def pseudo_def)
  have m: "pc entry_machine = entry_syms ''hart_entry_point''" "reg entry_machine A0 = 2" "reg entry_machine A1 = 0x9000"
    "aligned 0x9000" "supervisor entry_machine" "mem entry_machine 0x9000 = 0x8000000000080001"
    by (simp_all add: entry_machine_def reg_def aligned_def)
  obtain args where "hart_entry entry_image 2 0x9000 = Some args" by (simp add: hart_entry_def checked_add_def)
  from hart_entry_assembly [OF p m(1-5) this] m(6) show ?thesis by force
qed

section \<open>Switching to a user frame\<close>

lemma and_not_SPP:
  "\<not> bit (- 257 AND s) 8" "bit (- 257 AND s) 5 = bit s 5" "unset_bit 8 (- 257 AND s) = unset_bit 8 (s :: usize)"
proof -
  have "bit (256 :: usize) n \<longleftrightarrow> n = 8" for n
    using bit_exp_iff [where 'a = usize, of 8 n] by (auto simp: possible_bit_def)
  then have b: "bit (- 257 :: usize) n \<longleftrightarrow> n < 64 \<and> n \<noteq> 8" for n
    using bit_not_iff [of "256 :: usize" n] by (simp add: possible_bit_def del: bit_numeral_word_iff)
  show "\<not> bit (- 257 AND s) 8" "bit (- 257 AND s) 5 = bit s 5" unfolding bit_and_iff b by auto
  have "bit s n \<Longrightarrow> n < 64" for n using bit_imp_le_length [of s n] by simp
  then show "unset_bit 8 (- 257 AND s) = unset_bit 8 s"
    unfolding bit_eq_iff bit_unset_bit_iff bit_and_iff b by auto
qed

text \<open>The switch to a user frame differs from that to a supervisor frame in the mode that it ends in.\<close>

lemma switch_to_user_frame_resumes:
  assumes "located code syms switch_to_user_frame (pc m) = Some b" and "aligned f" and "reg m A0 = f" and "supervisor m"
  shows "reaches code syms m (resumed_user f m)"
proof -
  let ?s = "- 257 AND csr m Sstatus"
  let ?m = "set_reg T1 (- 257) (set_reg T0 ?s (set_csr Sstatus ?s
        (set_csr Sie 0x222 (set_csr Satp (mem m (slot f 37)) (set_csr Sepc (mem m (slot f 32)) (set_csr Sscratch f m))))))"
  let ?p = "[Lab ''switch_to_user_frame''] @ map Ins user_switch @ restore_volatile_registers ''switch_to_user_frame.1''
    @ [Lab ''switch_to_user_frame_end'']"
  have al: "aligned (slot f i)" for i using assms(2) by (rule slot_aligned)
  have e: "effects syms user_switch m = Some ?m"
    using assms(3,4) al unfolding user_switch_def
    by (simp add: load_def slot_offset machine_simps) (auto simp: set_reg_def set_csr_def fun_eq_iff)
  have "runs code syms (restore_volatile_registers ''switch_to_user_frame.1'') ?m (restored f ?m)"
    using assms by (intro runs_restore_volatile) (simp_all add: machine_simps)
  then have r: "runs code syms ?p m (restored f ?m)"
    by (rule runs_append [OF runs_label runs_append [OF runs_block [OF e] runs_append [OF _ runs_label]]])
  from assms(1) have "located code syms (?p @ [Ins Sret]) (pc m) = Some b" by (simp add: switch_to_user_frame_def)
  then obtain c nxt where c: "located code syms ?p (pc m) = Some c" "code c = Some (Sret, nxt)"
    unfolding located_split [of _ _ _ "[Ins Sret]"] located_ins by blast
  show ?thesis
    using assms(4) by (intro runs_then_step [OF r c]) (simp add: sret_eq resumed_user_def resumed_def sret_status_def and_not_SPP
      set_csr_pc set_csr_twice machine_simps)
qed

end
