(* ===== verification/Context_Switch.thy ===== *)
theory Context_Switch
  imports Trap_Asm
begin

text \<open>
  What the assembly of \<^verbatim>\<open>trap.S\<close> does together with the Rust code that it calls and that calls it: a trap is
  transparent to the code it interrupts, a frame that was saved is resumed, and
  \<^verbatim>\<open>switch_to_and_come_back\<close> comes back. Compiled Rust code is described by relations on machines: that of
  \<^verbatim>\<open>trap_handler\<close> does what the function \<open>trap_handler\<close> of the model does and writes no memory but its stack. The assembly
  neither saves nor restores floating-point registers (the jumps over \<^verbatim>\<open>store_floating\<close> and \<^verbatim>\<open>load_floating\<close>), so the theorems on
  registers are about the integer registers and say where the floating-point registers come from instead.
\<close>

section \<open>Compiled code\<close>

text \<open>
  The relations leave the registers open, the floating-point registers included: compiled code and a process may use all of them.
\<close>

text \<open>The hart that Rust code sees: the control registers, and at every address a trap frame.\<close>

definition hart_of :: "machine \<Rightarrow> Hart" where
  "hart_of m =
     \<lparr>sie = csr m Sie, sip = csr m Sip, stvec = csr m Stvec, satp = csr m Satp, sstatus = csr m Sstatus,
      sscratch = csr m Sscratch, stval = csr m Stval, scause = csr m Scause, time = csr m Time,
      frames = (\<lambda>a. Some (frame_at (mem m) a))\<rparr>"

definition same_outside :: "usize set \<Rightarrow> machine \<Rightarrow> machine \<Rightarrow> bool" where
  "same_outside stack m m' \<longleftrightarrow> (\<forall>a. a \<notin> stack \<longrightarrow> mem m' a = mem m a)"

definition compiled_trap_handler ::
  "'w firmware \<Rightarrow> (symbol \<Rightarrow> usize) \<Rightarrow> usize set \<Rightarrow> machine \<times> 'w \<Rightarrow> machine \<times> 'w \<Rightarrow> bool" where
  "compiled_trap_handler ecall syms stack = (\<lambda>(m, w) (m', w').
     case trap_handler ecall (hart_of m, w) of
       None \<Rightarrow> False
     | Some (ex, h, w2) \<Rightarrow>
         w' = w2 \<and> supervisor m' \<and> same_outside stack m m' \<and> csr m' Sepc = csr m Sepc
         \<and> hart_of m' = h\<lparr>frames := frames (hart_of m'), time := csr m' Time\<rparr>
         \<and> (case ex of
              Returns \<Rightarrow> pc m' = reg m Ra
            | SwitchTo ctx \<Rightarrow> pc m' = syms ''switch_to_supervisor_frame'' \<and> reg m' A0 = ctx))"

text \<open>
  The function \<^verbatim>\<open>run\<close> inside \<^verbatim>\<open>switch_to_and_come_back\<close>: it stores its first argument as \<^verbatim>\<open>restore_context\<close> in the
  frame \<open>pf\<close> of the process and calls \<^verbatim>\<open>switch_to_supervisor_frame\<close> with that frame.
\<close>

definition compiled_run :: "(symbol \<Rightarrow> usize) \<Rightarrow> usize \<Rightarrow> usize set \<Rightarrow> machine \<Rightarrow> machine \<Rightarrow> bool" where
  "compiled_run syms pf stack m m' \<longleftrightarrow>
     pc m' = syms ''switch_to_supervisor_frame'' \<and> reg m' A0 = pf \<and> supervisor m' \<and> csr m' = csr m
     \<and> same_outside stack (m\<lparr>mem := (mem m)(slot pf 41 := reg m A0)\<rparr>) m'"

text \<open>
  A process runs in supervisor mode for any number of steps; it leaves the trap frames and the stack of the
  kernel (\<open>kept\<close>) and the registers \<^verbatim>\<open>sscratch\<close> and \<^verbatim>\<open>stvec\<close> as they are.
\<close>

definition process_ran :: "usize set \<Rightarrow> machine \<Rightarrow> machine \<Rightarrow> bool" where
  "process_ran kept m m' \<longleftrightarrow>
     supervisor m' \<and> csr m' Sscratch = csr m Sscratch \<and> csr m' Stvec = csr m Stvec
     \<and> (\<forall>a \<in> kept. mem m' a = mem m a)"

section \<open>Frames\<close>

lemma slot_in_frame: "i < 42 \<Longrightarrow> slot f i \<in> frame_slots f"
  by (auto simp: frame_slots_def)

lemma frame_at_cong: "(\<And>a. a \<in> frame_slots f \<Longrightarrow> ms a = ms' a) \<Longrightarrow> frame_at ms f = frame_at ms' f"
  by (auto simp: frame_at_def slot_in_frame intro!: map_cong)

lemma reg_idx_small [simp]: "reg_idx r < 42"
  using reg_idx_less [of r] by linarith

lemma register_of_frame_at: "register_of (frame_at ms f) r = Some (ms (slot f (reg_idx r)))"
  by (simp add: register_of_def frame_at_def)

lemma map_all_registers: "map g all_registers = map (\<lambda>i. g (xreg i)) [0..<32]"
  by (simp add: xreg_def all_registers_def upt_rec)

lemma entered_slot:
  "i < 32 \<Longrightarrow> entered_memory f m (slot f i) = reg m (xreg i)"
  "entered_memory f m (slot f 32) = csr m Sepc"
  "32 < i \<Longrightarrow> i < 64 \<Longrightarrow> entered_memory f m (slot f i) = mem m (slot f i)"
  by (simp_all add: entered_memory_def store_slots_slot slot_inject subset_eq)

lemma entered_other: "a \<notin> frame_slots f \<Longrightarrow> entered_memory f m a = mem m a"
proof -
  assume a: "a \<notin> frame_slots f"
  then have "a \<notin> slot f ` set [0..<32]" "a \<noteq> slot f 32" by (auto simp: frame_slots_def)
  then show ?thesis by (simp add: entered_memory_def store_slots_other)
qed

lemma frame_at_entered:
  "frame_at (entered_memory f m) f
    = (frame_at (mem m) f)\<lparr>general_registers := map (reg m) all_registers, tf_pc := csr m Sepc\<rparr>"
  unfolding frame_at_def map_all_registers by (simp add: entered_slot)

lemma resumed_frame:
  assumes "frame_at (mem m) f = frame"
  shows "r \<noteq> Zero \<Longrightarrow> register_of frame r = Some (reg (resumed f m) r)" and "pc (resumed f m) = tf_pc frame"
    and "csr (resumed f m) Satp = tf_satp frame" and "mem (resumed f m) = mem m" and "csr (resumed f m) Sscratch = f"
    and "supervisor (resumed f m)"
proof -
  show "register_of frame r = Some (reg (resumed f m) r)" if "r \<noteq> Zero"
    using that unfolding assms [symmetric] register_of_frame_at
    by (simp add: resumed_def machine_simps) (simp add: restored_def reg_def set_csr_def)
qed (simp_all add: assms [symmetric] resumed_def machine_simps frame_at_def)

section \<open>A trap\<close>

lemma take_trap_fields [machine_simps]:
  "reg (take_trap c m) r = reg m r" "mem (take_trap c m) = mem m" "fpr (take_trap c m) = fpr m" "supervisor (take_trap c m)"
  "pc (take_trap c m) = csr m Stvec" "csr (take_trap c m) Sepc = pc m" "csr (take_trap c m) Scause = c"
  "csr (take_trap c m) Sscratch = csr m Sscratch" "csr (take_trap c m) Stvec = csr m Stvec"
  by (simp_all add: take_trap_def machine_simps)

lemma take_trap_status [machine_simps]:
  "bit (csr (take_trap c m) Sstatus) 8 = supervisor m" "bit (csr (take_trap c m) Sstatus) 5 = bit (csr m Sstatus) 1"
  by (auto simp: take_trap_def machine_simps put_bit_def bit_set_bit_iff bit_unset_bit_iff possible_bit_def)

lemma sret_status_bit: "bit (sret_status s) (Suc 0) = bit s 5"
  by (auto simp: sret_status_def put_bit_def bit_set_bit_iff bit_unset_bit_iff possible_bit_def)

text \<open>The machine when \<^verbatim>\<open>trap_handler\<close> starts, for a trap that will return to \<open>ret\<close>.\<close>

definition handler_call :: "(symbol \<Rightarrow> usize) \<Rightarrow> usize \<Rightarrow> usize \<Rightarrow> machine \<Rightarrow> machine" where
  "handler_call syms f ret m = (set_reg Ra ret (entered f m))\<lparr>pc := syms ''trap_handler''\<rparr>"

lemma handler_call_fields [machine_simps]:
  "reg (handler_call syms f ret m) Ra = ret" "reg (handler_call syms f ret m) Sp = mem m (slot f 35)"
  "csr (handler_call syms f ret m) = (csr m)(Satp := mem m (slot f 38))" "mem (handler_call syms f ret m) = entered_memory f m"
  "pc (handler_call syms f ret m) = syms ''trap_handler''" "supervisor (handler_call syms f ret m) = supervisor m"
  "fpr (handler_call syms f ret m) = fpr m"
  by (simp_all add: handler_call_def entered_def machine_simps)

lemma trap_vector_reaches:
  assumes "located code syms s_trap_vector (pc m) = Some b"
    and "aligned f" and "csr m Sscratch = f" and "supervisor m"
  shows "\<exists>ret. located code syms (trap_return @ [Ins Sret]) ret = Some b \<and> reaches code syms m (handler_call syms f ret m)"
proof -
  have r: "runs code syms ([Lab ''s_trap_vector''] @ trap_enter) m (entered f m)"
    by (rule runs_append [OF runs_label runs_trap_enter [OF assms(2-4)]])
  from assms(1) have "located code syms (([Lab ''s_trap_vector''] @ trap_enter) @ Ins (Call ''trap_handler'') # (trap_return @ [Ins Sret]))
      (pc m) = Some b"
    by (simp add: s_trap_vector_def)
  then obtain c ret where c: "located code syms ([Lab ''s_trap_vector''] @ trap_enter) (pc m) = Some c"
    "code c = Some (Call ''trap_handler'', ret)" "located code syms (trap_return @ [Ins Sret]) ret = Some b"
    unfolding located_split located_ins by blast
  have "reaches code syms m (handler_call syms f ret m)"
    by (rule runs_then_step [OF r c(1,2)]) (simp add: handler_call_def set_reg_def)
  with c(3) show ?thesis by blast
qed

lemma trap_handler_exit:
  assumes "trap_handler ecall (h, w) = Some (ex, h', w')"
  shows "h' = h\<lparr>sip := sip h'\<rparr> \<and> (\<exists>frame. current_frame h = Some frame
    \<and> ex = (if restore_context frame = 0 then Returns else SwitchTo (restore_context frame)))"
  using assms by (auto simp: trap_handler_def make_interrupt_nonpending_def write_sip_def Let_def current_frame_def
      read_sscratch_def split: bind_splits if_splits prod.splits)

text \<open>What compiled \<^verbatim>\<open>trap_handler\<close> leaves and where it goes.\<close>

lemma compiled_trap_handler_elim:
  assumes "compiled_trap_handler ecall syms stack (m, w) (m', w')"
  shows "supervisor m'" and "same_outside stack m m'" and "csr m' Sscratch = csr m Sscratch" and "csr m' Sstatus = csr m Sstatus"
    and "csr m' Stvec = csr m Stvec"
    and "mem m (slot (csr m Sscratch) 41) = 0 \<Longrightarrow> pc m' = reg m Ra"
    and "mem m (slot (csr m Sscratch) 41) \<noteq> 0 \<Longrightarrow>
      pc m' = syms ''switch_to_supervisor_frame'' \<and> reg m' A0 = mem m (slot (csr m Sscratch) 41)"
proof -
  from assms obtain ex h w2 where th: "trap_handler ecall (hart_of m, w) = Some (ex, h, w2)"
    and m': "supervisor m'" "same_outside stack m m'" "hart_of m' = h\<lparr>frames := frames (hart_of m'), time := csr m' Time\<rparr>"
    and ex: "case ex of Returns \<Rightarrow> pc m' = reg m Ra
      | SwitchTo ctx \<Rightarrow> pc m' = syms ''switch_to_supervisor_frame'' \<and> reg m' A0 = ctx"
    by (auto simp: compiled_trap_handler_def split: option.splits)
  from trap_handler_exit [OF th] obtain frame where h: "h = (hart_of m)\<lparr>sip := sip h\<rparr>"
    and f: "current_frame (hart_of m) = Some frame"
    and exf: "ex = (if restore_context frame = 0 then Returns else SwitchTo (restore_context frame))" by blast
  have ctx: "restore_context frame = mem m (slot (csr m Sscratch) 41)"
    using f by (auto simp: current_frame_def hart_of_def read_sscratch_def frame_at_def split: if_splits)
  show "supervisor m'" "same_outside stack m m'" by (fact m')+
  show "csr m' Sscratch = csr m Sscratch" "csr m' Sstatus = csr m Sstatus" "csr m' Stvec = csr m Stvec"
    using arg_cong [OF m'(3), of sscratch] arg_cong [OF m'(3), of sstatus] arg_cong [OF m'(3), of stvec]
      arg_cong [OF h, of sscratch] arg_cong [OF h, of sstatus] arg_cong [OF h, of stvec] by (simp_all add: hart_of_def)
  show "mem m (slot (csr m Sscratch) 41) = 0 \<Longrightarrow> pc m' = reg m Ra"
    "mem m (slot (csr m Sscratch) 41) \<noteq> 0 \<Longrightarrow>
      pc m' = syms ''switch_to_supervisor_frame'' \<and> reg m' A0 = mem m (slot (csr m Sscratch) 41)"
    using ex exf ctx by simp_all
qed

lemma reg_restored: "r \<noteq> Zero \<Longrightarrow> reg (restored f m) r = mem m (slot f (reg_idx r))"
  by (simp add: restored_def reg_def)

lemma trap_returned_fields [machine_simps]:
  "r \<noteq> Zero \<Longrightarrow> reg (trap_returned f m) r = mem m (slot f (reg_idx r))" "pc (trap_returned f m) = mem m (slot f 32)"
  "supervisor (trap_returned f m) = bit (csr m Sstatus) 8" "mem (trap_returned f m) = mem m"
  "csr (trap_returned f m) Satp = mem m (slot f 37)" "csr (trap_returned f m) Sscratch = csr m Sscratch"
  "csr (trap_returned f m) Sstatus = sret_status (csr m Sstatus)" "fpr (trap_returned f m) = fpr m"
  by (simp_all add: trap_returned_def reg_restored machine_simps)

lemma resumed_fields [machine_simps]:
  "r \<noteq> Zero \<Longrightarrow> reg (resumed f m) r = mem m (slot f (reg_idx r))" "pc (resumed f m) = mem m (slot f 32)"
  "supervisor (resumed f m)" "mem (resumed f m) = mem m" "csr (resumed f m) Stvec = csr m Stvec" "csr (resumed f m) Sie = 0x222"
  "csr (resumed f m) Satp = mem m (slot f 37)" "csr (resumed f m) Sscratch = f"
  "csr (resumed f m) Sstatus = sret_status (csr m Sstatus)" "fpr (resumed f m) = fpr m"
  by (simp_all add: resumed_def reg_restored machine_simps)

text \<open>
  C6. A trap is transparent when the frame of the hart has no context to go back to: from the trap vector the assembly calls
  \<^verbatim>\<open>trap_handler\<close> on the interrupt stack and under the kernel's page table of the frame, and when the handler has returned, the
  interrupted code continues where it was, with every integer register, the privilege mode and the interrupt-enable bit as before and
  with the page table of the frame; no memory has changed but the frame and the handler's stack. The floating-point registers are not
  saved: the handler finds those of the interrupted code, which continues with those that the handler has left.
\<close>

theorem trap_is_transparent:
  assumes "located code syms trap_S a = Some b" and "csr m Stvec = syms ''s_trap_vector''"
    and "aligned f" and "csr m Sscratch = f" and "restore_context (frame_at (mem m) f) = 0" and "stack \<inter> frame_slots f = {}"
  shows "\<exists>m1. reaches code syms (take_trap cause m) m1 \<and> pc m1 = syms ''trap_handler''
    \<and> reg m1 Sp = interrupt_stack (frame_at (mem m) f)
    \<and> csr m1 = (csr (take_trap cause m))(Satp := kernel_satp (frame_at (mem m) f)) \<and> supervisor m1 \<and> fpr m1 = fpr m
    \<and> frame_at (mem m1) f = (frame_at (mem m) f)\<lparr>general_registers := map (reg m) all_registers, tf_pc := pc m\<rparr>
    \<and> (\<forall>w m2 w2. compiled_trap_handler ecall syms stack (m1, w) (m2, w2) \<longrightarrow>
         (\<exists>m3. reaches code syms m2 m3 \<and> pc m3 = pc m \<and> (\<forall>r. reg m3 r = reg m r) \<and> fpr m3 = fpr m2 \<and> supervisor m3 = supervisor m
            \<and> csr m3 Satp = tf_satp (frame_at (mem m) f) \<and> csr m3 Sscratch = f
            \<and> (bit (csr m3 Sstatus) 1 \<longleftrightarrow> bit (csr m Sstatus) 1)
            \<and> (\<forall>a. a \<notin> stack \<union> frame_slots f \<longrightarrow> mem m3 a = mem m a)))"
proof -
  let ?t = "take_trap cause m"
  obtain c where "located code syms s_trap_vector (csr m Stvec) = Some c" using trap_S_placed(1) [OF assms(1)] assms(2) by auto
  then obtain ret where ret: "located code syms (trap_return @ [Ins Sret]) ret = Some c"
    and r1: "reaches code syms ?t (handler_call syms f ret ?t)"
    using trap_vector_reaches [of code syms ?t c f] assms(3,4) by (auto simp: machine_simps)
  let ?m1 = "handler_call syms f ret ?t"
  have "\<exists>m3. reaches code syms m2 m3 \<and> pc m3 = pc m \<and> (\<forall>r. reg m3 r = reg m r) \<and> fpr m3 = fpr m2 \<and> supervisor m3 = supervisor m
      \<and> csr m3 Satp = tf_satp (frame_at (mem m) f) \<and> csr m3 Sscratch = f \<and> (bit (csr m3 Sstatus) 1 \<longleftrightarrow> bit (csr m Sstatus) 1)
      \<and> (\<forall>a. a \<notin> stack \<union> frame_slots f \<longrightarrow> mem m3 a = mem m a)"
    if h: "compiled_trap_handler ecall syms stack (?m1, w) (m2, w2)" for w m2 w2
  proof -
    note h = compiled_trap_handler_elim [OF h]
    have fs: "mem m2 (slot f i) = entered_memory f ?t (slot f i)" if "i < 42" for i
      using h(2) slot_in_frame [OF that, of f] assms(6) by (auto simp: same_outside_def machine_simps)
    have "pc m2 = ret"
      using h(6) assms(4,5) by (simp add: machine_simps entered_slot) (simp add: frame_at_def)
    then have r: "reaches code syms m2 (trap_returned f m2)"
      using trap_return_reaches [of code syms m2 c f] ret assms(3,4) h(1,3) by (simp add: machine_simps)
    have regs: "reg (trap_returned f m2) r = reg m r" for r
      by (cases "r = Zero") (simp_all add: machine_simps fs entered_slot)
    have other: "mem m2 a = mem m a" if "a \<notin> stack \<union> frame_slots f" for a
      using that h(2) entered_other [of a f ?t] by (auto simp: same_outside_def machine_simps)
    show ?thesis
      using r regs other h(3,4) assms(4)
      by (intro exI [of _ "trap_returned f m2"])
         (simp add: machine_simps fs entered_slot sret_status_bit, simp add: frame_at_def machine_simps)
  qed
  then show ?thesis
    using r1 by (intro exI [of _ ?m1]) (simp add: machine_simps frame_at_entered map_all_registers, simp add: frame_at_def)
qed

section \<open>Saving the caller and coming back\<close>

definition caller_memory :: "(symbol \<Rightarrow> usize) \<Rightarrow> usize \<Rightarrow> machine \<Rightarrow> usize \<Rightarrow> usize" where
  "caller_memory syms f m =
     (store_slots f (\<lambda>i. reg (set_reg Sp (reg m Sp - 16) m) (xreg i)) [0..<32] ((mem m)(reg m Sp - 16 := reg m Ra)))
       (slot f 32 := syms ''.before_return'')"

definition function_call :: "(symbol \<Rightarrow> usize) \<Rightarrow> usize \<Rightarrow> machine \<Rightarrow> machine" where
  "function_call syms f m =
     (set_reg Ra (syms ''.before_return'') (set_reg T0 (syms ''.before_return'') (set_reg Sp (reg m Sp - 16) m)))
     \<lparr>mem := caller_memory syms f m, pc := reg m A1\<rparr>"

lemma function_call_fields [machine_simps]:
  "pc (function_call syms f m) = reg m A1" "reg (function_call syms f m) A0 = reg m A0" "reg (function_call syms f m) A2 = reg m A2"
  "csr (function_call syms f m) = csr m" "mem (function_call syms f m) = caller_memory syms f m"
  "supervisor (function_call syms f m) = supervisor m" "fpr (function_call syms f m) = fpr m"
  by (simp_all add: function_call_def machine_simps)

lemma effects_save_caller:
  assumes "aligned f" and "reg m A0 = f" and "aligned (reg m Sp)"
  shows "effects syms save_caller m = Some ((set_reg T0 (syms ''.before_return'') (set_reg Sp (reg m Sp - 16) m))
    \<lparr>mem := caller_memory syms f m\<rparr>)"
proof -
  let ?m1 = "(set_reg Sp (reg m Sp - 16) m)\<lparr>mem := (mem m)(reg m Sp - 16 := reg m Ra)\<rparr>"
  have m1: "effects syms [Addi Sp Sp (- 16), Sd Ra 0 Sp] m = Some ?m1"
    using aligned_sp [OF assms(3)] by (simp add: store_def machine_simps)
  have m2: "effects syms (map (\<lambda>i. store_general i A0) [0..<32]) ?m1
      = Some (?m1\<lparr>mem := store_slots f (\<lambda>i. reg ?m1 (xreg i)) [0..<32] (mem ?m1)\<rparr>)"
    using assms(1,2) by (intro effects_stores) (simp_all add: machine_simps)
  have al: "aligned (slot f 32)" using assms(1) by (rule slot_aligned)
  show ?thesis
    unfolding save_caller_def foldM_append m1
    using m2 al assms(2) by (simp add: store_def slot_offset machine_simps caller_memory_def) (simp add: set_reg_def)
qed

lemma run_function_reaches:
  assumes "located code syms store_to_trap_frame_and_run_function (pc m) = Some b"
    and "aligned f" and "reg m A0 = f" and "aligned (reg m Sp)"
  shows "reaches code syms m (function_call syms f m)" and "located code syms before_return (syms ''.before_return'') = Some b"
proof -
  let ?p = "[Lab ''store_to_trap_frame_and_run_function''] @ map Ins save_caller"
  have r: "runs code syms ?p m ((set_reg T0 (syms ''.before_return'') (set_reg Sp (reg m Sp - 16) m))\<lparr>mem := caller_memory syms f m\<rparr>)"
    by (rule runs_append [OF runs_label runs_block [OF effects_save_caller [OF assms(2-4)]]])
  from assms(1) have "located code syms (?p @ Ins (Jalr A1) # before_return) (pc m) = Some b"
    by (simp add: store_to_trap_frame_and_run_function_def)
  then obtain c nxt where c: "located code syms ?p (pc m) = Some c" "code c = Some (Jalr A1, nxt)"
    "located code syms before_return nxt = Some b"
    unfolding located_split located_ins by blast
  have n: "nxt = syms ''.before_return''" using c(3) by (auto simp: before_return_def split: if_splits)
  show "located code syms before_return (syms ''.before_return'') = Some b" using c(3) n by simp
  show "reaches code syms m (function_call syms f m)"
    by (rule runs_then_step [OF r c(1,2)]) (simp add: function_call_def n machine_simps, simp add: set_reg_def)
qed

definition returned :: "machine \<Rightarrow> machine" where
  "returned m = (set_reg Sp (reg m Sp + 16) (set_reg Ra (mem m (reg m Sp)) m))\<lparr>pc := mem m (reg m Sp)\<rparr>"

lemma before_return_reaches:
  assumes "located code syms before_return (pc m) = Some b" and "aligned (reg m Sp)"
  shows "reaches code syms m (returned m)"
proof -
  let ?p = "[Lab ''.before_return''] @ map Ins [Ld Ra 0 Sp, Addi Sp Sp 16]"
  let ?m = "set_reg Sp (reg m Sp + 16) (set_reg Ra (mem m (reg m Sp)) m)"
  have "effects syms [Ld Ra 0 Sp, Addi Sp Sp 16] m = Some ?m"
    using assms(2) by (simp add: load_def machine_simps)
  then have r: "runs code syms ?p m ?m" by (intro runs_append [OF runs_label runs_block])
  from assms(1) have "located code syms (?p @ [Ins Ret]) (pc m) = Some b" by (simp add: before_return_def)
  then obtain c nxt where c: "located code syms ?p (pc m) = Some c" "code c = Some (Ret, nxt)"
    unfolding located_split located_ins by blast
  show ?thesis by (rule runs_then_step [OF r c]) (simp add: returned_def machine_simps)
qed

text \<open>The saved state of the caller, as long as nobody writes to it.\<close>

definition caller_saved :: "(symbol \<Rightarrow> usize) \<Rightarrow> usize \<Rightarrow> machine \<Rightarrow> (usize \<Rightarrow> usize) \<Rightarrow> bool" where
  "caller_saved syms f m ms \<longleftrightarrow>
     (\<forall>r. ms (slot f (reg_idx r)) = reg (set_reg Sp (reg m Sp - 16) m) r)
     \<and> ms (slot f 32) = syms ''.before_return'' \<and> ms (reg m Sp - 16) = reg m Ra"

lemma caller_memory_saved:
  assumes "reg m Sp - 16 \<notin> frame_slots f"
  shows "caller_saved syms f m (caller_memory syms f m)"
proof -
  have "reg m Sp - 16 \<notin> slot f ` set [0..<32]" "reg m Sp - 16 \<noteq> slot f 32"
    using assms by (auto simp: frame_slots_def)
  moreover have "reg_idx r < 64" for r using reg_idx_less [of r] by linarith
  ultimately show ?thesis
    by (simp add: caller_saved_def caller_memory_def store_slots_slot store_slots_other slot_inject subset_eq less_imp_neq)
qed

lemma caller_saved_mono:
  assumes "caller_saved syms f m ms" and "\<And>a. a \<in> insert (reg m Sp - 16) (frame_slots f) \<Longrightarrow> ms' a = ms a"
  shows "caller_saved syms f m ms'"
  using assms by (simp add: caller_saved_def slot_in_frame)

lemma caller_resumes:
  assumes "caller_saved syms f m (mem m')" and "located code syms before_return (syms ''.before_return'') = Some b"
    and "aligned (reg m Sp)"
  shows "reaches code syms (resumed f m') (returned (resumed f m'))" and "pc (returned (resumed f m')) = reg m Ra"
    and "reg (returned (resumed f m')) r = reg m r"
proof -
  have g: "mem m' (slot f (reg_idx r)) = reg (set_reg Sp (reg m Sp - 16) m) r" for r
    using assms(1) unfolding caller_saved_def by blast
  have sp: "reg (resumed f m') Sp = reg m Sp - 16" using g [of Sp] by (simp add: machine_simps)
  moreover have "pc (resumed f m') = syms ''.before_return''" using assms(1) by (simp add: caller_saved_def machine_simps)
  ultimately show "reaches code syms (resumed f m') (returned (resumed f m'))"
    using assms(2,3) aligned_sp by (intro before_return_reaches) simp_all
  show "pc (returned (resumed f m')) = reg m Ra" using assms(1) sp by (simp add: returned_def caller_saved_def machine_simps)
  show "reg (returned (resumed f m')) r = reg m r"
    using assms(1) g [of r] sp by (cases "r = Zero") (simp_all add: returned_def caller_saved_def machine_simps)
qed

text \<open>The memory that a switch to the process with frame \<open>pf\<close> relies on.\<close>

definition kept :: "machine \<Rightarrow> usize \<Rightarrow> usize \<Rightarrow> usize set" where
  "kept m f pf = insert (reg m Sp - 16) (frame_slots f \<union> frame_slots pf)"

definition separate :: "machine \<Rightarrow> usize \<Rightarrow> usize \<Rightarrow> usize set \<Rightarrow> bool" where
  "separate m f pf stack \<longleftrightarrow>
     frame_slots f \<inter> frame_slots pf = {} \<and> reg m Sp - 16 \<notin> frame_slots f \<union> frame_slots pf \<and> stack \<inter> kept m f pf = {}"

lemma caller_memory_other: "a \<notin> insert (reg m Sp - 16) (frame_slots f) \<Longrightarrow> caller_memory syms f m a = mem m a"
proof -
  assume a: "a \<notin> insert (reg m Sp - 16) (frame_slots f)"
  then have "a \<notin> slot f ` set [0..<32]" "a \<noteq> slot f 32" by (auto simp: frame_slots_def)
  with a show ?thesis by (simp add: caller_memory_def store_slots_other)
qed

lemma run_keeps:
  assumes "compiled_run syms pf stack (function_call syms f m) m2" and "separate m f pf stack" and "reg m A0 = f"
  shows "caller_saved syms f m (mem m2)" and "mem m2 (slot pf 41) = f"
    and "i < 41 \<Longrightarrow> mem m2 (slot pf i) = mem m (slot pf i)"
proof -
  let ?ms = "(caller_memory syms f m)(slot pf 41 := f)"
  have m2: "mem m2 a = ?ms a" if "a \<in> kept m f pf" for a
    using assms that by (auto simp: compiled_run_def same_outside_def separate_def machine_simps)
  have sp: "reg m Sp - 16 \<notin> frame_slots f" "slot pf 41 \<notin> insert (reg m Sp - 16) (frame_slots f)"
    using assms(2) slot_in_frame [of 41 pf] by (auto simp: separate_def)
  show "caller_saved syms f m (mem m2)"
  proof (rule caller_saved_mono [OF caller_memory_saved [OF sp(1)]])
    fix a
    assume "a \<in> insert (reg m Sp - 16) (frame_slots f)"
    then show "mem m2 a = caller_memory syms f m a" using m2 [of a] sp(2) by (auto simp: kept_def)
  qed
  show "mem m2 (slot pf 41) = f" using m2 [of "slot pf 41"] slot_in_frame [of 41 pf] by (simp add: kept_def)
  show "mem m2 (slot pf i) = mem m (slot pf i)" if i: "i < 41"
  proof -
    have s: "slot pf i \<in> frame_slots pf" using i by (intro slot_in_frame) simp
    then have "slot pf i \<notin> insert (reg m Sp - 16) (frame_slots f)" using assms(2) by (auto simp: separate_def)
    then show ?thesis using m2 [of "slot pf i"] s i by (simp add: kept_def slot_inject caller_memory_other)
  qed
qed

text \<open>
  An interrupt of the process in state \<open>m4\<close> leads to \<^verbatim>\<open>trap_handler\<close>, and from the end of the handler to the caller that was
  saved in state \<open>m\<close>, with the integer registers of the process in its frame; the floating-point registers stay what they are.
\<close>

definition interrupted_returns ::
  "code \<Rightarrow> (symbol \<Rightarrow> usize) \<Rightarrow> 'w firmware \<Rightarrow> usize set \<Rightarrow> machine \<Rightarrow> usize \<Rightarrow> usize \<Rightarrow> usize \<Rightarrow> machine \<Rightarrow> bool" where
  "interrupted_returns code syms ecall stack m f pf cause m4 \<longleftrightarrow>
     (\<exists>m5. reaches code syms (take_trap cause m4) m5 \<and> pc m5 = syms ''trap_handler'' \<and> supervisor m5 \<and> fpr m5 = fpr m4
        \<and> csr m5 = (csr (take_trap cause m4))(Satp := mem m4 (slot pf 38)) \<and> mem m5 (slot pf 41) = f
        \<and> (\<forall>w m6 w6. compiled_trap_handler ecall syms stack (m5, w) (m6, w6) \<longrightarrow>
            (\<exists>m7. reaches code syms m6 m7 \<and> pc m7 = reg m Ra \<and> (\<forall>r. reg m7 r = reg m r) \<and> fpr m7 = fpr m6 \<and> supervisor m7
               \<and> csr m7 Sscratch = f \<and> csr m7 Sie = 0x222 \<and> (bit (csr m7 Sstatus) 1 \<longleftrightarrow> bit (csr m4 Sstatus) 1)
               \<and> frame_at (mem m7) pf
                   = (frame_at (mem m4) pf)\<lparr>general_registers := map (reg m4) all_registers, tf_pc := pc m4\<rparr>)))"

text \<open>From the interrupt of the process back to the caller.\<close>

lemma interrupt_comes_back:
  assumes saved: "caller_saved syms f m (mem m4)" and ctx: "mem m4 (slot pf 41) = f" "f \<noteq> 0" and sscratch: "csr m4 Sscratch = pf"
    and code: "located code syms s_trap_vector (csr m4 Stvec) = Some b3"
      "located code syms switch_to_supervisor_frame (syms ''switch_to_supervisor_frame'') = Some b2"
      "located code syms before_return (syms ''.before_return'') = Some b1"
    and al: "aligned f" "aligned pf" "aligned (reg m Sp)" and sep: "separate m f pf stack"
  shows "interrupted_returns code syms ecall stack m f pf cause m4"
proof -
  let ?t = "take_trap cause m4"
  obtain ret where r1: "reaches code syms ?t (handler_call syms pf ret ?t)"
    using trap_vector_reaches [of code syms ?t b3 pf] code(1) al(2) sscratch by (auto simp: machine_simps)
  let ?m5 = "handler_call syms pf ret ?t"
  have "\<exists>m7. reaches code syms m6 m7 \<and> pc m7 = reg m Ra \<and> (\<forall>r. reg m7 r = reg m r) \<and> fpr m7 = fpr m6 \<and> supervisor m7
      \<and> csr m7 Sscratch = f \<and> csr m7 Sie = 0x222 \<and> (bit (csr m7 Sstatus) 1 \<longleftrightarrow> bit (csr m4 Sstatus) 1)
      \<and> frame_at (mem m7) pf = (frame_at (mem m4) pf)\<lparr>general_registers := map (reg m4) all_registers, tf_pc := pc m4\<rparr>"
    if c: "compiled_trap_handler ecall syms stack (?m5, w) (m6, w6)" for w m6 w6
  proof -
    note h = compiled_trap_handler_elim [OF c]
    have m6: "mem m6 a = entered_memory pf ?t a" if "a \<in> kept m f pf" for a
      using h(2) that sep by (auto simp: same_outside_def separate_def machine_simps)
    have "caller_saved syms f m (mem m6)"
    proof (rule caller_saved_mono [OF saved])
      fix a
      assume a: "a \<in> insert (reg m Sp - 16) (frame_slots f)"
      then have "a \<notin> frame_slots pf" using sep by (auto simp: separate_def)
      then show "mem m6 a = mem m4 a" using m6 [of a] a by (auto simp: kept_def entered_other machine_simps)
    qed
    note home = caller_resumes [OF this code(3) al(3)]
    have "pc m6 = syms ''switch_to_supervisor_frame'' \<and> reg m6 A0 = f"
      using h(7) ctx sscratch by (simp add: machine_simps entered_slot)
    then have "reaches code syms m6 (resumed f m6)"
      using code(2) al(1) h(1) by (intro switch_to_supervisor_frame_reaches) simp_all
    then have r: "reaches code syms m6 (returned (resumed f m6))" using home(1) by (rule reaches_trans)
    have "frame_at (mem m6) pf = frame_at (entered_memory pf ?t) pf"
      using m6 by (intro frame_at_cong) (simp add: kept_def)
    then have fr: "frame_at (mem m6) pf = (frame_at (mem m4) pf)\<lparr>general_registers := map (reg m4) all_registers, tf_pc := pc m4\<rparr>"
      unfolding frame_at_entered map_all_registers by (simp add: machine_simps)
    show ?thesis
      using r home(2,3) fr h(4)
      by (intro exI [of _ "returned (resumed f m6)"]) (simp add: returned_def machine_simps sret_status_bit)
  qed
  then show ?thesis unfolding interrupted_returns_def
    using r1 ctx(1) by (intro exI [of _ ?m5]) (simp add: machine_simps entered_slot)
qed

text \<open>From the function \<^verbatim>\<open>run\<close> to the process.\<close>

lemma run_resumes_process:
  assumes run: "compiled_run syms pf stack (function_call syms f m) m2" and "separate m f pf stack" and "reg m A0 = f"
    and "located code syms switch_to_supervisor_frame (syms ''switch_to_supervisor_frame'') = Some b" and "aligned pf"
  shows "reaches code syms m2 (resumed pf m2) \<and> pc (resumed pf m2) = tf_pc (frame_at (mem m) pf)
    \<and> csr (resumed pf m2) Stvec = csr m Stvec \<and> mem m2 (slot pf 41) = f
    \<and> (\<forall>r. r \<noteq> Zero \<longrightarrow> register_of (frame_at (mem m) pf) r = Some (reg (resumed pf m2) r))"
proof -
  note k = run_keeps [OF assms(1-3)]
  have "reg_idx r < 41" for r using reg_idx_less [of r] by linarith
  moreover have "reaches code syms m2 (resumed pf m2)"
    using run assms(4,5) by (intro switch_to_supervisor_frame_reaches) (auto simp: compiled_run_def)
  ultimately show ?thesis
    using k run by (simp add: machine_simps register_of_frame_at compiled_run_def) (simp add: frame_at_def)
qed

text \<open>A process that \<^verbatim>\<open>run\<close> has switched to and that is interrupted after any number of steps.\<close>

lemma process_interrupted:
  assumes run: "compiled_run syms pf stack (function_call syms f m) m2" and ran: "process_ran (kept m f pf) (resumed pf m2) m4"
    and f: "reg m A0 = f" "f \<noteq> 0"
    and code: "located code syms s_trap_vector (csr m Stvec) = Some b3"
      "located code syms switch_to_supervisor_frame (syms ''switch_to_supervisor_frame'') = Some b2"
      "located code syms before_return (syms ''.before_return'') = Some b1"
    and al: "aligned f" "aligned pf" "aligned (reg m Sp)" and sep: "separate m f pf stack"
  shows "interrupted_returns code syms ecall stack m f pf cause m4"
proof (rule interrupt_comes_back [OF _ _ f(2) _ _ code(2,3) al sep])
  note k = run_keeps [OF run sep f(1)]
  have m4: "mem m4 a = mem m2 a" if "a \<in> kept m f pf" for a
    using ran that by (simp add: process_ran_def machine_simps)
  show "caller_saved syms f m (mem m4)" by (rule caller_saved_mono [OF k(1)]) (use m4 in \<open>auto simp: kept_def\<close>)
  show "mem m4 (slot pf 41) = f" using m4 [of "slot pf 41"] k(2) slot_in_frame [of 41 pf] by (simp add: kept_def)
  show "csr m4 Sscratch = pf" "located code syms s_trap_vector (csr m4 Stvec) = Some b3"
    using ran run code(1) by (simp_all add: process_ran_def compiled_run_def machine_simps)
qed

lemma switch_placed:
  assumes "located code syms trap_S a = Some b" and "pc m = syms ''store_to_trap_frame_and_run_function''"
    and "csr m Stvec = syms ''s_trap_vector''" and "aligned f" and "reg m A0 = f" and "aligned (reg m Sp)"
  obtains b1 b2 b3 where "reaches code syms m (function_call syms f m)"
    and "located code syms s_trap_vector (csr m Stvec) = Some b3"
    and "located code syms switch_to_supervisor_frame (syms ''switch_to_supervisor_frame'') = Some b2"
    and "located code syms before_return (syms ''.before_return'') = Some b1"
proof -
  obtain b1 b2 b3 where "located code syms store_to_trap_frame_and_run_function (pc m) = Some b1"
    "located code syms switch_to_supervisor_frame (syms ''switch_to_supervisor_frame'') = Some b2"
    "located code syms s_trap_vector (csr m Stvec) = Some b3"
    using trap_S_placed [OF assms(1)] assms(2,3) by auto
  with run_function_reaches [OF this(1) assms(4-6)] that show ?thesis by blast
qed

text \<open>
  C5. \<^verbatim>\<open>switch_to_and_come_back\<close>, from its call of \<^verbatim>\<open>store_to_trap_frame_and_run_function\<close> with a new frame \<open>f\<close>, the function
  \<^verbatim>\<open>run\<close> and the process whose frame is \<open>pf\<close>: the assembly saves the caller and calls \<^verbatim>\<open>run\<close>; the process continues with the integer
  registers and the program counter of its frame; and whenever it is interrupted, with the trap the handler makes, the assembly returns from
  the call to the caller with every integer register as it was at the call. The frame of the process then holds the integer
  registers and the program counter it had when it was interrupted, and everything else as before. The caller continues with
  \<^verbatim>\<open>sscratch\<close> at its own frame, with all supervisor interrupts enabled and the interrupt-enable bit of the process. The floating-point
  registers are not switched: each side goes on with those that the code before it has left.
\<close>

theorem switch_comes_back:
  assumes "located code syms trap_S a = Some b" and "pc m = syms ''store_to_trap_frame_and_run_function''"
    and "csr m Stvec = syms ''s_trap_vector''" and "reg m A0 = f" and "f \<noteq> 0"
    and "aligned f" and "aligned pf" and "aligned (reg m Sp)" and "separate m f pf stack"
  shows "\<exists>m1. reaches code syms m m1 \<and> pc m1 = reg m A1 \<and> reg m1 A0 = f \<and> reg m1 A2 = reg m A2 \<and> csr m1 = csr m \<and> fpr m1 = fpr m
    \<and> (\<forall>m2. compiled_run syms pf stack m1 m2 \<longrightarrow>
    (\<exists>m3. reaches code syms m2 m3 \<and> pc m3 = tf_pc (frame_at (mem m) pf) \<and> supervisor m3 \<and> csr m3 Sscratch = pf
      \<and> csr m3 Stvec = csr m Stvec \<and> mem m3 (slot pf 41) = f \<and> fpr m3 = fpr m2
      \<and> (\<forall>r. r \<noteq> Zero \<longrightarrow> register_of (frame_at (mem m) pf) r = Some (reg m3 r))
    \<and> (\<forall>m4 cause. process_ran (kept m f pf) m3 m4 \<longrightarrow> interrupted_returns code syms ecall stack m f pf cause m4)))"
proof -
  obtain b1 b2 b3 where call: "reaches code syms m (function_call syms f m)"
    and code: "located code syms s_trap_vector (csr m Stvec) = Some b3"
      "located code syms switch_to_supervisor_frame (syms ''switch_to_supervisor_frame'') = Some b2"
      "located code syms before_return (syms ''.before_return'') = Some b1"
    by (rule switch_placed [OF assms(1-3,6,4,8)])
  have "\<exists>m3. reaches code syms m2 m3 \<and> pc m3 = tf_pc (frame_at (mem m) pf) \<and> supervisor m3 \<and> csr m3 Sscratch = pf
      \<and> csr m3 Stvec = csr m Stvec \<and> mem m3 (slot pf 41) = f \<and> fpr m3 = fpr m2
      \<and> (\<forall>r. r \<noteq> Zero \<longrightarrow> register_of (frame_at (mem m) pf) r = Some (reg m3 r))
      \<and> (\<forall>m4 cause. process_ran (kept m f pf) m3 m4 \<longrightarrow> interrupted_returns code syms ecall stack m f pf cause m4)"
    if run: "compiled_run syms pf stack (function_call syms f m) m2" for m2
  proof -
    have "\<forall>m4 cause. process_ran (kept m f pf) (resumed pf m2) m4 \<longrightarrow> interrupted_returns code syms ecall stack m f pf cause m4"
      using process_interrupted [OF run _ assms(4,5) code assms(6-9)] by blast
    with run_resumes_process [OF run assms(9,4) code(2) assms(7)] show ?thesis by - (rule exI [of _ "resumed pf m2"], simp add: machine_simps)
  qed
  with call assms(4) show ?thesis
    by - (rule exI [of _ "function_call syms f m"], simp add: machine_simps)
qed

section \<open>Floating-point registers\<close>





section \<open>A machine\<close>

text \<open>The compiled handler of a timer interrupt, on a firmware that does nothing.\<close>

lemma timer_handler:
  assumes "csr m Scause = 0x8000000000000005" and "csr m Sscratch = f" and "f \<noteq> 0" and "supervisor m"
  defines "ctx \<equiv> mem m (slot f 41)"
  shows "compiled_trap_handler (\<lambda>_ w. ((0, 0), w)) syms stack (m, w)
    ((if ctx = 0 then m\<lparr>pc := reg m Ra\<rparr> else (set_reg A0 ctx m)\<lparr>pc := syms ''switch_to_supervisor_frame''\<rparr>), w)"
proof -
  have "trap_handler (\<lambda>_ w. ((0, 0), w)) (hart_of m, w)
      = Some (if ctx = 0 then Returns else SwitchTo ctx, hart_of m, w)"
    using assms(1-3) by (simp add: trap_handler_def hart_of_def read_scause_def current_frame_def read_sscratch_def
        make_interrupt_nonpending_def SUPERVISOR_TIMER_def set_absolute_timer_def call_sbi_1_def ctx_def frame_at_def)
  then show ?thesis
    using assms(4) by (simp add: compiled_trap_handler_def same_outside_def machine_simps) (simp add: hart_of_def machine_simps)
qed

abbreviation demo_base :: usize where
  "demo_base \<equiv> 0xffffffff80000000"

abbreviation demo_syms :: "symbol \<Rightarrow> usize" where
  "demo_syms \<equiv> symbols demo_base trap_S"

text \<open>A hart that calls the routine with a frame at \<open>0x1000\<close>; the stack pointer is \<open>0x8000\<close>.\<close>

definition demo_machine :: machine where
  "demo_machine =
     \<lparr>gpr = (\<lambda>_. 5)(A0 := 0x1000, A1 := 0x4444, Sp := 0x8000, Ra := 0x7000), fpr = (\<lambda>_. 0),
      pc = demo_syms ''store_to_trap_frame_and_run_function'',
      csr = (\<lambda>_. 0)(Stvec := demo_syms ''s_trap_vector'', Sscratch := 0x1000, Sstatus := 2),
      mem = (\<lambda>_. 0)(slot 0x2000 32 := 0x6000), supervisor = True\<rparr>"

lemma demo_machine_fields [simp]:
  "reg demo_machine A0 = 0x1000" "reg demo_machine A1 = 0x4444" "reg demo_machine Sp = 0x8000" "reg demo_machine Ra = 0x7000"
  "reg demo_machine S1 = 5" "pc demo_machine = demo_syms ''store_to_trap_frame_and_run_function''"
  "csr demo_machine Stvec = demo_syms ''s_trap_vector''" "csr demo_machine Sscratch = 0x1000" "supervisor demo_machine"
  "mem demo_machine = (\<lambda>_. 0)(slot 0x2000 32 := 0x6000)"
  by (simp_all add: demo_machine_def reg_def)

lemma demo_slots: "i < 42 \<Longrightarrow> j < 42 \<Longrightarrow> slot 0x1000 i \<noteq> slot 0x2000 j \<and> slot 0x1000 i \<noteq> 0x7ff0 \<and> slot 0x2000 i \<noteq> 0x7ff0"
proof -
  assume ij: "i < 42" "j < 42"
  have "unat (slot 0x1000 k) = 0x1000 + k * 8" "unat (slot 0x2000 k) = 0x2000 + k * 8" if "k < 42" for k
  proof -
    have u: "unat (of_nat (k * 8) :: usize) = k * 8" using that by (intro unat_of_nat_usize) simp
    show "unat (slot 0x1000 k) = 0x1000 + k * 8" "unat (slot 0x2000 k) = 0x2000 + k * 8"
      using u that by (simp_all add: slot_def unat_word_ariths)
  qed
  note u = this [OF ij(1)] this [OF ij(2)]
  have "unat (slot 0x1000 i) \<noteq> unat (slot 0x2000 j)" "unat (slot 0x1000 i) \<noteq> unat (0x7ff0 :: usize)"
    "unat (slot 0x2000 i) \<noteq> unat (0x7ff0 :: usize)" using u ij by simp_all
  then show ?thesis by auto
qed

lemma demo_separate: "separate demo_machine 0x1000 0x2000 {}"
  using demo_slots by (auto simp: separate_def frame_slots_def)

theorem trap_is_transparent_witness:
  "\<exists>m1 m2 m3. reaches (assembled demo_base trap_S) demo_syms (take_trap 0x8000000000000005 demo_machine) m1
    \<and> compiled_trap_handler (\<lambda>_ w. ((0, 0), w)) demo_syms {} (m1, ()) (m2, ())
    \<and> reaches (assembled demo_base trap_S) demo_syms m2 m3 \<and> pc m3 = pc demo_machine \<and> reg m3 S1 = 5"
proof -
  obtain b where b: "located (assembled demo_base trap_S) demo_syms trap_S demo_base = Some b" using trap_S_assembled by blast
  have al: "aligned 0x1000" by (simp add: aligned_def)
  have ctx: "restore_context (frame_at (mem demo_machine) 0x1000) = 0"
    using demo_slots [of 41 32] by (simp add: frame_at_def)
  obtain m1 where m1: "reaches (assembled demo_base trap_S) demo_syms (take_trap 0x8000000000000005 demo_machine) m1"
    "csr m1 = (csr (take_trap 0x8000000000000005 demo_machine))(Satp := kernel_satp (frame_at (mem demo_machine) 0x1000))"
    "supervisor m1" "frame_at (mem m1) 0x1000
      = (frame_at (mem demo_machine) 0x1000)\<lparr>general_registers := map (reg demo_machine) all_registers, tf_pc := pc demo_machine\<rparr>"
    and home: "\<And>w m2 w2. compiled_trap_handler (\<lambda>_ w. ((0, 0), w)) demo_syms {} (m1, w :: unit) (m2, w2) \<Longrightarrow>
      \<exists>m3. reaches (assembled demo_base trap_S) demo_syms m2 m3 \<and> pc m3 = pc demo_machine \<and> (\<forall>r. reg m3 r = reg demo_machine r)"
    using trap_is_transparent [OF b demo_machine_fields(7) al demo_machine_fields(8) ctx Int_empty_left,
      of "0x8000000000000005" "\<lambda>_ w :: unit. ((0, 0), w)"] by blast
  let ?m2 = "m1\<lparr>pc := reg m1 Ra\<rparr>"
  have "mem m1 (slot 0x1000 41) = 0" using arg_cong [OF m1(4), of restore_context] ctx by (simp add: frame_at_def)
  then have "compiled_trap_handler (\<lambda>_ w. ((0, 0), w)) demo_syms {} (m1, ()) (?m2, ())"
    using timer_handler [of m1 "0x1000" demo_syms "{}" "()"] m1(2,3) by (simp add: machine_simps)
  with home [OF this] m1(1) show ?thesis by (metis demo_machine_fields(5))
qed

theorem switch_comes_back_witness:
  "\<exists>m1 m2 m3 m5 m6 m7. reaches (assembled demo_base trap_S) demo_syms demo_machine m1
    \<and> compiled_run demo_syms 0x2000 {} m1 m2 \<and> reaches (assembled demo_base trap_S) demo_syms m2 m3 \<and> pc m3 = 0x6000
    \<and> reaches (assembled demo_base trap_S) demo_syms (take_trap 0x8000000000000005 m3) m5
    \<and> compiled_trap_handler (\<lambda>_ w. ((0, 0), w)) demo_syms {} (m5, ()) (m6, ())
    \<and> reaches (assembled demo_base trap_S) demo_syms m6 m7 \<and> pc m7 = 0x7000 \<and> reg m7 S1 = 5"
proof -
  let ?reaches = "reaches (assembled demo_base trap_S) demo_syms" and ?ecall = "\<lambda>_ w :: unit. ((0, 0), w)"
  let ?returns = "interrupted_returns (assembled demo_base trap_S) demo_syms ?ecall {} demo_machine 0x1000 0x2000"
  obtain b where b: "located (assembled demo_base trap_S) demo_syms trap_S demo_base = Some b" using trap_S_assembled by blast
  have al: "aligned 0x1000" "aligned 0x2000" "aligned (reg demo_machine Sp)" by (simp_all add: aligned_def)
  have nz: "(0x1000 :: usize) \<noteq> 0" by simp
  note switch = switch_comes_back [OF b demo_machine_fields(6,7,1) nz al demo_separate, of ?ecall]
  let ?leg = "\<lambda>m1. \<forall>m2. compiled_run demo_syms 0x2000 {} m1 m2 \<longrightarrow>
    (\<exists>m3. ?reaches m2 m3 \<and> pc m3 = tf_pc (frame_at (mem demo_machine) 0x2000) \<and> supervisor m3 \<and> csr m3 Sscratch = 0x2000
      \<and> csr m3 Stvec = csr demo_machine Stvec \<and> mem m3 (slot 0x2000 41) = 0x1000 \<and> fpr m3 = fpr m2
      \<and> (\<forall>r. r \<noteq> Zero \<longrightarrow> register_of (frame_at (mem demo_machine) 0x2000) r = Some (reg m3 r))
      \<and> (\<forall>m4 cause. process_ran (kept demo_machine 0x1000 0x2000) m3 m4 \<longrightarrow> ?returns cause m4))"
  from switch obtain m1 where "?reaches demo_machine m1 \<and> pc m1 = reg demo_machine A1 \<and> reg m1 A0 = 0x1000
    \<and> reg m1 A2 = reg demo_machine A2 \<and> csr m1 = csr demo_machine \<and> fpr m1 = fpr demo_machine \<and> ?leg m1" ..
  note all = this
  have m1: "?reaches demo_machine m1" using all by (elim conjE)
  have a0: "reg m1 A0 = 0x1000" using all by (elim conjE)
  have leg1: "?leg m1" using all by (elim conjE)
  let ?m2 = "(set_reg A0 0x2000 m1)\<lparr>mem := (mem m1)(slot 0x2000 41 := 0x1000), pc := demo_syms ''switch_to_supervisor_frame'',
    supervisor := True\<rparr>"
  have run: "compiled_run demo_syms 0x2000 {} m1 ?m2"
    using a0 by (simp add: compiled_run_def same_outside_def machine_simps)
  from leg1 [rule_format, OF run] obtain m3 where m3: "?reaches ?m2 m3" "pc m3 = tf_pc (frame_at (mem demo_machine) 0x2000)" "supervisor m3"
      "csr m3 Sscratch = 0x2000"
    and leg2: "\<And>m4 cause. process_ran (kept demo_machine 0x1000 0x2000) m3 m4 \<Longrightarrow> ?returns cause m4"
    by blast
  have "process_ran (kept demo_machine 0x1000 0x2000) m3 m3" using m3(3) by (simp add: process_ran_def)
  from leg2 [OF this, of "0x8000000000000005"] obtain m5 where
    m5: "?reaches (take_trap 0x8000000000000005 m3) m5" "supervisor m5" "mem m5 (slot 0x2000 41) = 0x1000"
      "csr m5 = (csr (take_trap 0x8000000000000005 m3))(Satp := mem m3 (slot 0x2000 38))"
    and leg3: "\<And>m6. compiled_trap_handler ?ecall demo_syms {} (m5, ()) (m6, ()) \<Longrightarrow>
        \<exists>m7. ?reaches m6 m7 \<and> pc m7 = reg demo_machine Ra \<and> (\<forall>r. reg m7 r = reg demo_machine r)"
    unfolding interrupted_returns_def by blast
  have h: "compiled_trap_handler ?ecall demo_syms {} (m5, ())
      ((set_reg A0 0x1000 m5)\<lparr>pc := demo_syms ''switch_to_supervisor_frame''\<rparr>, ())"
    using timer_handler [of m5 "0x2000" demo_syms "{}" "()"] m5(2-4) m3(4) by (simp add: machine_simps)
  have "tf_pc (frame_at (mem demo_machine) 0x2000) = 0x6000" by (simp add: frame_at_def)
  with leg3 [OF h] m1 run m3(1,2) m5(1) h show ?thesis by (metis demo_machine_fields(4,5))
qed


section \<open>Interrupts during a switch\<close>

text \<open>
  C35. \<^verbatim>\<open>switch_to_supervisor_frame\<close> points \<^verbatim>\<open>sscratch\<close> to the frame of the process and enables all interrupts before it has loaded
  the registers, and it does not clear the interrupt-enable bit. So when that bit is set and an interrupt is pending, the interrupt can be
  taken inside the routine, and the trap vector then saves the registers of the kernel in the frame of the process: those that the
  process had are lost.
\<close>

theorem interrupted_switch_loses_process:
  assumes "located code syms trap_S a = Some b" and "pc m = syms ''switch_to_supervisor_frame''" and "csr m Stvec = syms ''s_trap_vector''"
    and "reg m A0 = pf" and "aligned pf" and "supervisor m" and "bit (csr m Sstatus) 1" and "0x222 AND csr m Sip \<noteq> 0"
  shows "\<exists>m1 m2. reaches code syms m m1 \<and> interruptible m1 \<and> reaches code syms (take_trap cause m1) m2
    \<and> pc m2 = syms ''trap_handler'' \<and> tf_pc (frame_at (mem m2) pf) = pc m1
    \<and> (\<forall>r. r \<notin> {T0, T1} \<longrightarrow> register_of (frame_at (mem m2) pf) r = Some (reg m r))"
proof -
  let ?m = "set_reg T1 (push_bit 8 1) (set_reg T0 (push_bit 8 1 OR csr m Sstatus) (set_csr Sstatus (push_bit 8 1 OR csr m Sstatus)
        (set_csr Sie 0x222 (set_csr Satp (mem m (slot pf 37)) (set_csr Sepc (mem m (slot pf 32)) (set_csr Sscratch pf m))))))"
  let ?p = "[Lab ''switch_to_supervisor_frame''] @ map Ins supervisor_switch"
  have r: "runs code syms ?p m ?m"
    by (rule runs_append [OF runs_label runs_block [OF effects_supervisor_switch [OF assms(5,4,6)]]])
  obtain c where "located code syms (?p @ restore_volatile_registers ''switch_to_supervisor_frame.1'' @ [Ins Sret]) (pc m) = Some c"
    using trap_S_placed(2) [OF assms(1)] assms(2) by (auto simp: switch_to_supervisor_frame_def)
  then obtain d where "located code syms ?p (pc m) = Some d" unfolding located_split by blast
  then have m1: "reaches code syms m (?m\<lparr>pc := d\<rparr>)" using r [unfolded runs_def, rule_format, of "pc m" d] by simp
  let ?m1 = "?m\<lparr>pc := d\<rparr>" and ?t = "take_trap cause (?m\<lparr>pc := d\<rparr>)"
  have i: "interruptible ?m1" using assms(7,8) by (simp add: interruptible_def machine_simps bit_or_iff)
  obtain e where "located code syms s_trap_vector (pc ?t) = Some e"
    using trap_S_placed(1) [OF assms(1)] assms(3) by (auto simp: machine_simps)
  then obtain ret where t: "reaches code syms ?t (handler_call syms pf ret ?t)"
    using trap_vector_reaches [of code syms ?t e pf] assms(5) by (auto simp: machine_simps)
  have "entered_memory pf ?t (slot pf 32) = d" by (simp add: entered_slot machine_simps)
  moreover have "register_of (frame_at (entered_memory pf ?t) pf) r = Some (reg m r)" if "r \<notin> {T0, T1}" for r
    using that by (simp add: register_of_frame_at entered_slot machine_simps)
  ultimately show ?thesis
    using m1 i t by (intro exI [of _ ?m1] exI [of _ "handler_call syms pf ret ?t"]) (simp add: machine_simps, simp add: frame_at_def)
qed

definition switch_demo :: machine where
  "switch_demo = demo_machine\<lparr>pc := demo_syms ''switch_to_supervisor_frame'', csr := (csr demo_machine)(Sip := 0x20)\<rparr>"

theorem interrupted_switch_loses_process_witness:
  "\<exists>m1 m2. interruptible m1 \<and> reaches (assembled demo_base trap_S) demo_syms (take_trap 0x8000000000000005 m1) m2
    \<and> register_of (frame_at (mem m2) 0x1000) S1 = Some 5"
proof -
  obtain b where b: "located (assembled demo_base trap_S) demo_syms trap_S demo_base = Some b" using trap_S_assembled by blast
  have m: "pc switch_demo = demo_syms ''switch_to_supervisor_frame''" "csr switch_demo Stvec = demo_syms ''s_trap_vector''"
    "reg switch_demo A0 = 0x1000" "aligned 0x1000" "supervisor switch_demo" "bit (csr switch_demo Sstatus) 1" "0x222 AND csr switch_demo Sip \<noteq> 0"
    "reg switch_demo S1 = 5"
    by (simp_all add: switch_demo_def demo_machine_def reg_def aligned_def)
  show ?thesis
    using interrupted_switch_loses_process [OF b m(1-7), of "0x8000000000000005"] m(8) by fastforce
qed

section \<open>The frame of the caller\<close>

text \<open>
  \<^verbatim>\<open>switch_to_and_come_back\<close> returns with \<^verbatim>\<open>sscratch\<close> at the frame in which it saved the caller, and drops the box of that
  frame. From then on the hart has no trap frame: its number, its locals and the interrupt-context flag are read from freed
  memory, as is the frame that the next switch inherits from. If the next switch gets the same block for its own frame, it
  inherits from itself: the caller is saved in a frame with no hart number, no locals and no interrupt stack.
\<close>

theorem come_back_frees_current_frame:
  assumes "switch_to_and_come_back my_addr go (self, h) = Some (self', h')" and "my_addr \<noteq> 0"
    and "\<And>p k p' k'. go p k = Some (p', k') \<Longrightarrow> sscratch k' = my_addr"
  shows "current_frame h' = None \<and> load_hartid h' = None \<and> in_interrupt_context h' = None
    \<and> (addr \<noteq> my_addr \<longrightarrow> switch_to_and_come_back addr go' (process, h') = None)
    \<and> switch_to_and_come_back my_addr go' (process, h') = do {
        (p, h) \<leftarrow> go' (process\<lparr>process_state := Running, trap_frame := (trap_frame process)\<lparr>restore_context := my_addr\<rparr>\<rparr>)
          (h'\<lparr>frames := (frames h')(my_addr \<mapsto>
             zeroed_interrupt_context\<lparr>hartid := 0, hart_locals := 0, interrupt_stack := 0, tf_satp := satp h', kernel_satp := satp h'\<rparr>)\<rparr>);
        Some (p\<lparr>process_state := Paused\<rparr>, h\<lparr>frames := (frames h)(my_addr := None)\<rparr>)
      }"
proof -
  have h': "sscratch h' = my_addr" "frames h' my_addr = None"
    using assms(1,3) by (auto simp: switch_to_and_come_back_def Let_def split: bind_splits prod.splits)
  then have "current_frame h' = None" by (simp add: current_frame_def read_sscratch_def)
  moreover have "zeroed_interrupt_context\<lparr>hartid := 0, hart_locals := 0, interrupt_stack := 0, tf_satp := x, kernel_satp := y\<rparr>
      = (inherit_from zeroed_interrupt_context zeroed_interrupt_context)\<lparr>tf_satp := x, kernel_satp := y\<rparr>" for x y
    by (simp add: inherit_from_def zeroed_interrupt_context_def trap_frame_zeroed_def)
  ultimately show ?thesis
    using h' assms(2)
    by (simp add: load_hartid_def in_interrupt_context_def switch_to_and_come_back_def current_frame_def read_sscratch_def
        read_satp_def Let_def)
qed

text \<open>On the machine: where the call returns, \<^verbatim>\<open>sscratch\<close> is the address of the frame, as \<open>switch_comes_back\<close> says of any process.\<close>

theorem come_back_frees_current_frame_witness:
  "\<exists>p h. switch_to_and_come_back 0x1000 (\<lambda>p k. Some (p, k\<lparr>sscratch := 0x1000\<rparr>)) (process_default, hart_of demo_machine) = Some (p, h)
    \<and> current_frame h = None"
proof -
  let ?run = "\<lambda>p k. Some (p, k\<lparr>sscratch := 0x1000\<rparr>) :: (Process \<times> Hart) option"
  have "\<exists>p h. switch_to_and_come_back 0x1000 ?run (process_default, hart_of demo_machine) = Some (p, h)"
    by (simp add: switch_to_and_come_back_def hart_of_def current_frame_def read_sscratch_def Let_def)
  then obtain p h where ph: "switch_to_and_come_back 0x1000 ?run (process_default, hart_of demo_machine) = Some (p, h)" by blast
  have "current_frame h = None" using come_back_frees_current_frame [OF ph] by simp
  with ph show ?thesis by blast
qed

end
