(* ===== verification/Cpu_Asm.thy ===== *)
theory Cpu_Asm
  imports Context_Switch
begin

text \<open>
  The inline assembly of \<^verbatim>\<open>kernel_cpu/src/lib.rs\<close>: the accessors of the control registers, whose model in Cpu acts on the record of
  a hart, as instructions of Riscv; and the functions that are one instruction without a counterpart there. Shown: the record and
  the instructions agree.
\<close>

section \<open>Instructions\<close>

text \<open>An accessor with its operand in register \<open>r\<close>; a write of \<^verbatim>\<open>satp\<close> is followed by a fence.\<close>

definition read_csr :: "Csr \<Rightarrow> Registers \<Rightarrow> instr list" where
  "read_csr c r = [Csrr r c]"

definition write_csr :: "Csr \<Rightarrow> Registers \<Rightarrow> instr list" where
  "write_csr c r = (if c = Satp then [Csrw Satp r, SfenceVma] else [Csrw c r])"

definition read_sp :: "Registers \<Rightarrow> instr list" where
  "read_sp r = [Mv r Sp]"

definition read_cycle :: "Registers \<Rightarrow> instr list" where
  "read_cycle r = [Csrr r Cycle]"

definition read_instret :: "Registers \<Rightarrow> instr list" where
  "read_instret r = [Csrr r Instret]"

definition wfi :: "instr list" where
  "wfi = [Wfi]"

definition fence_vma :: "instr list" where
  "fence_vma = [SfenceVma]"

section \<open>The record of the hart and the instructions\<close>

text \<open>Which accessor of the record belongs to which register.\<close>

definition hart_read :: "Csr \<Rightarrow> (Hart \<Rightarrow> usize) option" where
  "hart_read c = (case c of Sscratch \<Rightarrow> Some read_sscratch | Satp \<Rightarrow> Some read_satp | Sie \<Rightarrow> Some read_sie | Sip \<Rightarrow> Some read_sip
     | Sstatus \<Rightarrow> Some read_sstatus | Scause \<Rightarrow> Some read_scause | Stval \<Rightarrow> Some read_stval | Time \<Rightarrow> Some read_time | _ \<Rightarrow> None)"

definition hart_write :: "Csr \<Rightarrow> (usize \<Rightarrow> Hart \<Rightarrow> Hart) option" where
  "hart_write c = (case c of Sscratch \<Rightarrow> Some write_sscratch | Satp \<Rightarrow> Some write_satp | Sie \<Rightarrow> Some write_sie | Sip \<Rightarrow> Some write_sip
     | Sstatus \<Rightarrow> Some write_sstatus | Stvec \<Rightarrow> Some write_stvec | _ \<Rightarrow> None)"

lemmas accessor_defs = read_sscratch_def read_satp_def read_sie_def read_sip_def read_sstatus_def read_scause_def read_stval_def
  read_time_def write_sscratch_def write_satp_def write_sie_def write_sip_def write_sstatus_def write_stvec_def

lemma hart_of_set_reg: "hart_of (set_reg r v m) = hart_of m"
  by (simp add: hart_of_def machine_simps)

lemma hart_of_set_csr: "hart_write c = Some w \<Longrightarrow> hart_of (set_csr c v m) = w v (hart_of m)"
  by (cases c) (auto simp: hart_write_def hart_of_def accessor_defs machine_simps)

lemma gpr_set_csr: "gpr (set_csr c v m) = gpr m"
  by (simp add: set_csr_def)

lemma csr_hart_of: "hart_read c = Some f \<Longrightarrow> csr m c = f (hart_of m)"
  by (cases c) (auto simp: hart_read_def hart_of_def accessor_defs)

text \<open>
  The accessors on the record of a hart are what the instructions do: a read leaves the value of the record in the register and the
  hart as it is, a write changes the record as the accessor does and no register or memory, in user mode all of them trap; waiting and
  fences change nothing.
\<close>

lemma cpu_accessors_are_instructions:
  shows "hart_read c = Some f \<Longrightarrow> effects syms (read_csr c r) m
      = (if supervisor m then Some (set_reg r (f (hart_of m)) m) else None)"
    and "hart_of (set_reg r v m) = hart_of m"
    and "hart_write c = Some w \<Longrightarrow> (if supervisor m
      then \<exists>m'. effects syms (write_csr c r) m = Some m' \<and> hart_of m' = w (reg m r) (hart_of m) \<and> gpr m' = gpr m \<and> mem m' = mem m
      else effects syms (write_csr c r) m = None)"
    and "effects syms (read_sp r) m = Some (set_reg r (reg m Sp) m)"
    and "effects syms wfi m = Some m"
    and "effects syms fence_vma m = (if supervisor m then Some m else None)"
  by (auto simp: read_csr_def write_csr_def read_sp_def wfi_def fence_vma_def csr_hart_of hart_of_set_csr hart_of_set_reg gpr_set_csr machine_simps)

end
