(* ===== verification/Demo_Process.thy ===== *)
theory Demo_Process
  imports Context_Switch Console Hart_Locals Executor
begin

text \<open>
  The task that every hart spawns at the end of \<^verbatim>\<open>common_hart_code\<close> (\<^verbatim>\<open>kernel_main/src/main.rs\<close>): it makes a process with a
  stack of its own and then, turn by turn, sets the timer, prints a line and switches to the process, under the mutex of the
  process. It joins the timer, the console, the shared locks, the processes and the switch of the other theories. \<open>go\<close> is what
  happens between the switch to the process and the return to the caller, \<open>my_addr\<close> the block of the caller's frame.
\<close>

section \<open>The function of the process\<close>

text \<open>One round of \<^verbatim>\<open>for i in 0u64..\<close>: the iterator computes the next value, then the body squares the current one.\<close>

definition test_iteration :: "u64 \<Rightarrow> u64 option" where
  "test_iteration i = do { n \<leftarrow> checked_add i 1; _ \<leftarrow> checked_mul i i; Some n }"

text \<open>The function after \<open>n\<close> rounds of its loop.\<close>

definition test_fn :: "nat \<Rightarrow> Hart \<Rightarrow> (u64 \<times> Hart) option" where
  "test_fn n h = do {
     let h = write_sstatus (read_sstatus h OR status_SIE) h;
     let h = enable_interrupts h;
     i \<leftarrow> foldM (\<lambda>_. test_iteration) [0..<n] 0;
     Some (i, h)
   }"

section \<open>The task\<close>

record 'm demo_state =
  turn_world :: lock_world
  turn_lock :: RawSpinlock
  turn_process :: Process
  output_held :: bool
  turn_bus :: bus
  turn_firmware :: 'm

text \<open>The process, with the stack that \<^verbatim>\<open>new_supervisor\<close> allocates.\<close>

definition hello_process ::
  "'w global_alloc \<Rightarrow> usize \<Rightarrow> Hart \<Rightarrow> (usize \<rightharpoonup> u8) \<Rightarrow> 'w \<Rightarrow> (Process \<times> (usize \<rightharpoonup> u8) \<times> 'w) option" where
  "hello_process galloc test h ms w = do {
     len \<leftarrow> checked_mul 4096 2;
     (stack, ms, w) \<leftarrow> boxed_slice_with_alignment galloc 1 len 4096 0 ms w;
     process \<leftarrow> new_supervisor stack (\<lambda>process. process\<lparr>process_name := Some ''hello world''\<rparr>) test h;
     Some (process, ms, w)
   }"

definition demo_print :: "mmu \<Rightarrow> usize \<Rightarrow> 'm demo_state \<Rightarrow> 'm demo_state option" where
  "demo_print mmu gap s = do {
     assert_that (\<not> output_held s);
     let s = s\<lparr>output_held := True\<rparr>;
     bus \<leftarrow> main_println mmu gap [debug_str (\<lambda>_. True) (str_of ''Switch to process (all is going well)'')] (turn_bus s);
     let s = s\<lparr>turn_bus := bus\<rparr>;
     Some (s\<lparr>output_held := False\<rparr>)
   }"

text \<open>A turn of the loop, up to the end of \<^verbatim>\<open>switch_to_and_come_back\<close>; then the guard of the mutex is dropped.\<close>

definition demo_switch ::
  "'m firmware \<Rightarrow> mmu \<Rightarrow> usize \<Rightarrow> usize \<Rightarrow> (Process \<Rightarrow> Hart \<Rightarrow> (Process \<times> Hart) option) \<Rightarrow> 'm demo_state \<Rightarrow> 'm demo_state option" where
  "demo_switch ecall mmu gap my_addr go s = do {
     let (h, m) = set_relative_timer ecall 0x1000000 (hart (turn_world s), turn_firmware s);
     let s = s\<lparr>turn_world := (turn_world s)\<lparr>hart := h\<rparr>, turn_firmware := m\<rparr>;
     s \<leftarrow> demo_print mmu gap s;
     (w, l) \<leftarrow> shared_lock (turn_world s, turn_lock s);
     (process, h) \<leftarrow> switch_to_and_come_back my_addr go (turn_process s, hart w);
     Some (s\<lparr>turn_world := w\<lparr>hart := h\<rparr>, turn_lock := l, turn_process := process\<rparr>)
   }"

definition demo_unlock :: "'m demo_state \<Rightarrow> 'm demo_state option" where
  "demo_unlock s = do {
     (w, l) \<leftarrow> shared_unlock (turn_world s, turn_lock s);
     Some (s\<lparr>turn_world := w, turn_lock := l\<rparr>)
   }"

definition demo_turn ::
  "'m firmware \<Rightarrow> mmu \<Rightarrow> usize \<Rightarrow> usize \<Rightarrow> (Process \<Rightarrow> Hart \<Rightarrow> (Process \<times> Hart) option) \<Rightarrow> 'm demo_state \<Rightarrow> 'm demo_state option" where
  "demo_turn ecall mmu gap my_addr go s = do {
     s \<leftarrow> demo_switch ecall mmu gap my_addr go s;
     demo_unlock s
   }"

text \<open>
  The task is spawned on the local executor of the hart, which \<^verbatim>\<open>common_hart_code\<close> then waits for; \<open>execs\<close> gives the executor of each handle.
\<close>

definition own_executor :: "Hart \<Rightarrow> (usize \<rightharpoonup> ('l, 'g, 'w) HartLocals) \<Rightarrow> 'l option" where
  "own_executor h boxes = do { locals \<leftarrow> HartLocals_current h boxes; local_executor locals }"

definition spawn_on_hart ::
  "'t \<Rightarrow> Hart \<Rightarrow> (usize \<rightharpoonup> ('l, 'g, 'w) HartLocals) \<Rightarrow> ('l \<Rightarrow> ('t, 'v, 'e) LocalExecutor) \<Rightarrow> ('l \<Rightarrow> ('t, 'v, 'e) LocalExecutor) option" where
  "spawn_on_hart fut h boxes execs = do {
     locals \<leftarrow> HartLocals_current h boxes;
     handle \<leftarrow> local_executor locals;
     ex \<leftarrow> spawn fut (execs handle);
     Some (execs(handle := ex))
   }"

lemma map_snd_bind: "map_option snd (x \<bind> (\<lambda>y. Some (k, y))) = x"
  by (cases x) simp_all

text \<open>On a hart that is set up the task goes to the hart's own executor, and the first poll of the handle runs it.\<close>

lemma spawn_on_own_executor:
  assumes "hart_ready g a h boxes" and "execs (set_local_executor a) = executor_new e"
  shows "spawn_on_hart fut h boxes execs = Some (execs(set_local_executor a := (executor_new e)\<lparr>task_queue := [fut]\<rparr>))"
    and "own_executor h boxes = Some (set_local_executor a)"
    and "handle_poll beh waker ((executor_new e)\<lparr>task_queue := [fut]\<rparr>) = do {
      self \<leftarrow> poll_future beh 0 ((executor_new e)\<lparr>tasks := [Some fut], queue_borrowed := True\<rparr>);
      let (r, self) = executor_poll waker (self\<lparr>queue_borrowed := False\<rparr>);
      (is_empty, self) \<leftarrow> wake_pending beh self;
      if \<not> is_empty then do { self \<leftarrow> drain_task_queue beh self; Some (Pending, self) } else Some (r, self)
    }"
proof -
  show "spawn_on_hart fut h boxes execs = Some (execs(set_local_executor a := (executor_new e)\<lparr>task_queue := [fut]\<rparr>))"
    "own_executor h boxes = Some (set_local_executor a)"
    using hart_ready_current [OF assms(1)] assms(2)
    by (simp_all add: spawn_on_hart_def own_executor_def locals_of_def spawn_def executor_new_def)
  show "handle_poll beh waker ((executor_new e)\<lparr>task_queue := [fut]\<rparr>) = do {
      self \<leftarrow> poll_future beh 0 ((executor_new e)\<lparr>tasks := [Some fut], queue_borrowed := True\<rparr>);
      let (r, self) = executor_poll waker (self\<lparr>queue_borrowed := False\<rparr>);
      (is_empty, self) \<leftarrow> wake_pending beh self;
      if \<not> is_empty then do { self \<leftarrow> drain_task_queue beh self; Some (Pending, self) } else Some (r, self)
    }"
    by (simp add: handle_poll_def poll_all_def drain_task_queue_def push_task_def executor_new_def Let_def map_snd_bind)
qed

section \<open>The loop of the process ends in a panic\<close>

lemma test_rounds: "n \<le> 2 ^ 32 \<Longrightarrow> foldM (\<lambda>_. test_iteration) [0..<n] 0 = Some (of_nat n)"
proof (induction n)
  case (Suc n)
  have u: "unat (of_nat n :: u64) = n" using Suc.prems by (intro unat_of_nat_usize) simp
  have "n * n \<le> (2 ^ 32 - 1) * (2 ^ 32 - 1)" using Suc.prems by (intro mult_le_mono) simp_all
  then have "n * n < 2 ^ 64" by simp
  then have "test_iteration (of_nat n) = Some (of_nat (Suc n))"
    using Suc.prems by (simp add: test_iteration_def checked_add_def checked_mul_def u)
  then show ?case using Suc by (simp add: foldM_append)
qed simp

text \<open>
  The function squares the numbers below \<open>2\<^sup>3\<^sup>2\<close>; the next round overflows, so the process panics and never raises the software
  interrupt after its loop.
\<close>

lemma rounds_stop:
  assumes "foldM (\<lambda>_. f) [0..<N] x = Some y" and "f y = None" and "N < n"
  shows "foldM (\<lambda>_. f) [0..<n] x = None"
proof -
  obtain k where "n = Suc N + k" using assms(3) less_iff_Suc_add by auto
  then have "[0..<n] = ([0..<N] @ [N]) @ [Suc N..<n]" using upt_add_eq_append [of 0 "Suc N" k] by simp
  then show ?thesis using assms(1,2) by (simp only: foldM_append) simp
qed

lemma test_fn_overflows:
  "test_fn n h = (if n \<le> 2 ^ 32 then Some (of_nat n, enable_interrupts (write_sstatus (read_sstatus h OR status_SIE) h)) else None)"
proof (cases "n \<le> 2 ^ 32")
  case False
  have "test_iteration (of_nat (2 ^ 32)) = None"
    by (simp add: test_iteration_def checked_add_def checked_mul_def)
  then have "foldM (\<lambda>_. test_iteration) [0..<n] 0 = None"
    using False by (intro rounds_stop [OF test_rounds [OF order_refl]]) simp_all
  then show ?thesis using False by (simp add: test_fn_def)
qed (simp add: test_fn_def test_rounds)

section \<open>A turn of the task\<close>

text \<open>The process that the task makes, and the arguments with which the first turn runs it.\<close>

lemma demo_new_process:
  assumes "boxed_slice_with_alignment_uninit galloc 1 8192 4096 w = Some (stack, w')" and "stack \<noteq> 0" and "unat stack + 8192 \<le> 2 ^ 64"
    and "current_frame h = Some frame"
  shows "\<exists>p ms'. hello_process galloc test h ms w = Some (p, ms', w') \<and> is_supervisor p \<and> process_state p = Paused
    \<and> process_name p = Some ''hello world'' \<and> kernel_allocated_stack p = Some stack
    \<and> trap_frame p = trap_frame_zeroed\<lparr>general_registers := (replicate 32 0)[2 := stack], tf_pc := test, tf_satp := tf_satp frame,
         kernel_satp := tf_satp frame, interrupt_stack := interrupt_stack frame\<rparr>
    \<and> (\<forall>i<8192. ms' (stack + of_nat i) = Some 0)"
proof -
  obtain ms' where "boxed_slice_with_alignment galloc 1 8192 4096 (0 :: u8) ms w = Some (stack, ms', w')"
    "\<forall>i<8192. ms' (stack + of_nat i) = Some 0"
    using boxed_slice_initialised [OF assms(1,2), of "0 :: u8" ms] assms(3) by auto
  then show ?thesis
    using assms(4)
    by (simp add: hello_process_def checked_mul_def new_supervisor_def process_default_def set_register_def trap_frame_zeroed_def)
qed

lemma setup_interrupt_context:
  "is_interrupt_context ((setup_hart_trap_frame hid la)\<lparr>tf_pid := i, interrupt_stack := se, tf_satp := t, kernel_satp := k\<rparr>)"
  by (simp add: is_interrupt_context_def setup_hart_trap_frame_def Let_def tf_set_interrupt_context_def bit_or_iff
      flip: and_1_iff)

lemma shared_mutex_in_interrupt:
  assumes "in_interrupt_context (hart w) = Some True"
  shows "\<not> locked l \<Longrightarrow> shared_lock (w, l) = Some (w, l\<lparr>locked := True\<rparr>)"
    and "shared_unlock (w, l) = Some (w, spin_unlock l)"
  using assms by (simp_all add: shared_lock_def shared_unlock_def lock_and_disable_interrupts_def
      unlock_and_enable_interrupts_if_necessary_def spin_lock_free Let_def)

text \<open>The frame in which the first turn saves the task.\<close>

definition task_frame :: "TrapFrame \<Rightarrow> Hart \<Rightarrow> TrapFrame" where
  "task_frame frame h = (inherit_from zeroed_interrupt_context frame)\<lparr>tf_satp := satp h, kernel_satp := satp h\<rparr>"

lemma demo_switch_eq:
  assumes "console_mapped mmu" and "\<not> output_held s" and "\<not> locked (turn_lock s)"
    and "current_frame (hart (turn_world s)) = Some frame" and "is_interrupt_context frame" and "my_addr \<noteq> sscratch (hart (turn_world s))"
  shows "demo_switch ecall mmu 0xffffffc000000000 my_addr go s = do {
    let h = hart (turn_world s);
    (p, h') \<leftarrow> go ((turn_process s)\<lparr>process_state := Running, trap_frame := (trap_frame (turn_process s))\<lparr>restore_context := my_addr\<rparr>\<rparr>)
      (h\<lparr>frames := (frames h)(my_addr \<mapsto> task_frame frame h)\<rparr>);
    Some (s\<lparr>turn_bus := turn_bus s @ sent UART_PHYSICAL (debug_str (\<lambda>_. True) (str_of ''Switch to process (all is going well)'') @ CRLF),
      turn_firmware := snd (set_absolute_timer ecall (saturating_add (time h) 0x1000000) (turn_firmware s)),
      turn_world := (turn_world s)\<lparr>hart := h'\<lparr>frames := (frames h')(my_addr := None)\<rparr>\<rparr>, turn_lock := (turn_lock s)\<lparr>locked := True\<rparr>,
      turn_process := p\<lparr>process_state := Paused\<rparr>, output_held := False\<rparr>)
  }"
proof -
  have sc: "sscratch (hart (turn_world s)) \<noteq> 0" "frames (hart (turn_world s)) (sscratch (hart (turn_world s))) = Some frame"
    using assms(4) by (simp_all add: current_frame_def read_sscratch_def split: if_splits)
  then have "in_interrupt_context (hart (turn_world s)) = Some True"
    using assms(4,5) by (simp add: in_interrupt_context_def)
  note lock = shared_mutex_in_interrupt(1) [of "turn_world s", OF this assms(3)]
  have "current_frame ((hart (turn_world s))\<lparr>frames := (frames (hart (turn_world s)))(my_addr \<mapsto> zeroed_interrupt_context)\<rparr>) = Some frame"
    using sc assms(6) by (simp add: current_frame_def read_sscratch_def)
  then show ?thesis
    using assms(2) lock
    by (simp add: demo_switch_def set_relative_timer_def demo_print_def console_println(1) [OF assms(1)] switch_to_and_come_back_def
        read_time_def read_satp_def task_frame_def Let_def split: bind_splits prod.splits)
qed

text \<open>
  C36. The first turn of the task on a hart that has been set up: it has a process that starts at \<^verbatim>\<open>test\<close> with its stack pointer at the
  lowest address of its zeroed stack, asks for the timer, prints its line and runs the process, with a frame to come back to that
  carries the number, the locals and the interrupt stack of the hart. When the switch has come back with \<^verbatim>\<open>sscratch\<close> at that frame, the
  frame has been freed, and dropping the guard of the process, the end of the turn, reads it; had it been kept, the turn would end
  with the mutex free again.
\<close>

theorem demo_turn_uses_freed_frame:
  assumes h: "h = setup_hart_state_and_metadata trap_vector locals_addr stack_end frame_addr hart_id h0" and "frame_addr \<noteq> 0"
    and "boxed_slice_with_alignment_uninit galloc 1 8192 4096 w = Some (stack, w')" and "stack \<noteq> 0" and "unat stack + 8192 \<le> 2 ^ 64"
    and s: "hart (turn_world s) = h" and "console_mapped mmu" and "\<not> output_held s" and "\<not> locked (turn_lock s)"
    and "my_addr \<noteq> 0" and "my_addr \<noteq> frame_addr"
  shows "\<exists>p ms' p1 h1 f. hello_process galloc test h ms w = Some (p, ms', w')
    \<and> tf_pc (trap_frame p1) = test \<and> register_of (trap_frame p1) Sp = Some stack \<and> restore_context (trap_frame p1) = my_addr
    \<and> process_state p1 = Running \<and> (\<forall>i<8192. ms' (stack + of_nat i) = Some 0)
    \<and> frames h1 my_addr = Some f \<and> hartid f = hart_id \<and> hart_locals f = locals_addr \<and> interrupt_stack f = stack_end
    \<and> (\<forall>p2 h2. go p1 h1 = Some (p2, h2) \<and> sscratch h2 = my_addr \<longrightarrow>
        (\<exists>s'. demo_switch ecall mmu 0xffffffc000000000 my_addr go (s\<lparr>turn_process := p\<rparr>) = Some s'
          \<and> turn_bus s' = turn_bus s @ sent UART_PHYSICAL (debug_str (\<lambda>_. True) (str_of ''Switch to process (all is going well)'') @ CRLF)
          \<and> turn_firmware s' = snd (set_absolute_timer ecall (saturating_add (time h) 0x1000000) (turn_firmware s))
          \<and> turn_process s' = p2\<lparr>process_state := Paused\<rparr> \<and> current_frame (hart (turn_world s')) = None
          \<and> demo_turn ecall mmu 0xffffffc000000000 my_addr go (s\<lparr>turn_process := p\<rparr>) = None
          \<and> (let k = s'\<lparr>turn_world := (turn_world s')\<lparr>hart := h2\<lparr>frames := (frames h2)(my_addr \<mapsto> f)\<rparr>\<rparr>\<rparr>
             in demo_unlock k = Some (k\<lparr>turn_lock := spin_unlock (turn_lock k)\<rparr>))))"
proof -
  let ?frame = "(setup_hart_trap_frame hart_id locals_addr)\<lparr>tf_pid := 1, interrupt_stack := stack_end, tf_satp := satp h0, kernel_satp := satp h0\<rparr>"
  have cf: "current_frame h = Some ?frame" using setup_frame [OF assms(2)] h by simp
  obtain p ms' where p: "hello_process galloc test h ms w = Some (p, ms', w')" "\<forall>i<8192. ms' (stack + of_nat i) = Some 0"
    "trap_frame p = trap_frame_zeroed\<lparr>general_registers := (replicate 32 0)[2 := stack], tf_pc := test, tf_satp := tf_satp ?frame,
       kernel_satp := tf_satp ?frame, interrupt_stack := interrupt_stack ?frame\<rparr>"
    using demo_new_process [OF assms(3-5) cf, of test ms] by blast
  let ?p1 = "p\<lparr>process_state := Running, trap_frame := (trap_frame p)\<lparr>restore_context := my_addr\<rparr>\<rparr>"
  let ?f = "task_frame ?frame h" and ?h1 = "h\<lparr>frames := (frames h)(my_addr \<mapsto> task_frame ?frame h)\<rparr>"
  have sc: "my_addr \<noteq> sscratch h" using assms(11) by (simp add: h setup_hart_state_and_metadata_def Let_def write_sscratch_def)
  let ?s = "s\<lparr>turn_process := p\<rparr>"
  have "\<not> output_held ?s" "\<not> locked (turn_lock ?s)" "current_frame (hart (turn_world ?s)) = Some ?frame"
    "my_addr \<noteq> sscratch (hart (turn_world ?s))"
    using assms(8,9) cf sc s by simp_all
  note sw = demo_switch_eq [OF assms(7) this(1-3) setup_interrupt_context this(4)]
  have f: "is_interrupt_context ?f" "hartid ?f = hart_id" "hart_locals ?f = locals_addr" "interrupt_stack ?f = stack_end"
    using setup_interrupt_context by (simp_all add: task_frame_def inherit_from_def is_interrupt_context_def)
  have "\<exists>s'. demo_switch ecall mmu 0xffffffc000000000 my_addr go (s\<lparr>turn_process := p\<rparr>) = Some s'
      \<and> turn_bus s' = turn_bus s @ sent UART_PHYSICAL (debug_str (\<lambda>_. True) (str_of ''Switch to process (all is going well)'') @ CRLF)
      \<and> turn_firmware s' = snd (set_absolute_timer ecall (saturating_add (time h) 0x1000000) (turn_firmware s))
      \<and> turn_process s' = p2\<lparr>process_state := Paused\<rparr> \<and> current_frame (hart (turn_world s')) = None
      \<and> demo_turn ecall mmu 0xffffffc000000000 my_addr go (s\<lparr>turn_process := p\<rparr>) = None
      \<and> (let k = s'\<lparr>turn_world := (turn_world s')\<lparr>hart := h2\<lparr>frames := (frames h2)(my_addr \<mapsto> ?f)\<rparr>\<rparr>\<rparr>
         in demo_unlock k = Some (k\<lparr>turn_lock := spin_unlock (turn_lock k)\<rparr>))"
    if go: "go ?p1 ?h1 = Some (p2, h2) \<and> sscratch h2 = my_addr" for p2 h2
  proof -
    let ?h3 = "h2\<lparr>frames := (frames h2)(my_addr := None)\<rparr>" and ?h4 = "h2\<lparr>frames := (frames h2)(my_addr \<mapsto> ?f)\<rparr>"
    have freed: "current_frame ?h3 = None" "in_interrupt_context ?h3 = None"
      using go assms(10) by (simp_all add: current_frame_def in_interrupt_context_def read_sscratch_def)
    then have "shared_unlock (w\<lparr>hart := ?h3\<rparr>, l) = None" for w l
      by (simp add: shared_unlock_def unlock_and_enable_interrupts_if_necessary_def)
    moreover have "in_interrupt_context ?h4 = Some True"
      using go f(1) assms(10) by (simp add: current_frame_def in_interrupt_context_def read_sscratch_def)
    then have "shared_unlock (w\<lparr>hart := ?h4\<rparr>, l) = Some (w\<lparr>hart := ?h4\<rparr>, spin_unlock l)" for w l
      by (intro shared_mutex_in_interrupt) simp
    ultimately show ?thesis
      using go freed(1) s by (simp add: sw demo_turn_def demo_unlock_def Let_def)
  qed
  then show ?thesis
    using p f by (intro exI [of _ p] exI [of _ ms'] exI [of _ ?p1] exI [of _ ?h1] exI [of _ ?f]) (simp add: register_of_def)
qed

definition turn_start :: "u64 list demo_state" where
  "turn_start = \<lparr>turn_world = demo_world\<lparr>hart := setup_hart_state_and_metadata 0x400 0x10000 0x20000 0x30000 1 (hart demo_world)\<rparr>,
     turn_lock = spinlock_INIT, turn_process = process_default, output_held = False, turn_bus = [], turn_firmware = []\<rparr>"

definition record_timer :: "u64 list firmware" where
  "record_timer r m = ((0, 0), m @ reg_args r)"

theorem demo_turn_uses_freed_frame_witness:
  "\<exists>p ms' w'. hello_process (\<lambda>_ _ (). Some (0x50000, ())) 0x8000 (hart (turn_world turn_start)) Map.empty () = Some (p, ms', w')
    \<and> ms' 0x50000 = Some 0
    \<and> (\<exists>s'. demo_switch record_timer [0xffffffc010000000 \<mapsto> UART_PHYSICAL] 0xffffffc000000000 0x40000
          (\<lambda>p k. Some (p, k\<lparr>sscratch := 0x40000\<rparr>)) (turn_start\<lparr>turn_process := p\<rparr>) = Some s'
        \<and> current_frame (hart (turn_world s')) = None \<and> length (turn_firmware s') = 1)
    \<and> demo_turn record_timer [0xffffffc010000000 \<mapsto> UART_PHYSICAL] 0xffffffc000000000 0x40000
          (\<lambda>p k. Some (p, k\<lparr>sscratch := 0x40000\<rparr>)) (turn_start\<lparr>turn_process := p\<rparr>) = None"
proof -
  let ?h = "setup_hart_state_and_metadata 0x400 0x10000 0x20000 0x30000 1 (hart demo_world)"
  have b: "boxed_slice_with_alignment_uninit (\<lambda>_ _ (). Some (0x50000, ())) 1 8192 4096 () = Some (0x50000, ())"
    by (simp add: boxed_slice_with_alignment_uninit_def checked_mul_def layout_ok_def upt_rec)
  have s: "hart (turn_world turn_start) = ?h" "console_mapped [0xffffffc010000000 \<mapsto> UART_PHYSICAL]"
    "\<not> output_held turn_start" "\<not> locked (turn_lock turn_start)" "turn_firmware turn_start = []"
    by (simp_all add: turn_start_def console_mapped_def spinlock_INIT_def)
  have r: "length (snd (set_absolute_timer record_timer t m)) = Suc (length m)" for t m
    by (simp add: set_absolute_timer_def call_sbi_1_def record_timer_def Let_def)
  let ?go = "\<lambda>p k. Some (p, k\<lparr>sscratch := 0x40000\<rparr>) :: (Process \<times> Hart) option"
  obtain p ms' where p: "hello_process (\<lambda>_ _ (). Some (0x50000, ())) 0x8000 ?h Map.empty () = Some (p, ms', ())"
    and ms: "\<forall>i<8192. ms' (0x50000 + of_nat i) = Some 0"
    and t: "\<exists>p1 h1. \<forall>p2 h2. ?go p1 h1 = Some (p2, h2) \<and> sscratch h2 = 0x40000 \<longrightarrow>
      (\<exists>s'. demo_switch record_timer [0xffffffc010000000 \<mapsto> UART_PHYSICAL] 0xffffffc000000000 0x40000 ?go (turn_start\<lparr>turn_process := p\<rparr>) = Some s'
        \<and> turn_firmware s' = snd (set_absolute_timer record_timer (saturating_add (time ?h) 0x1000000) (turn_firmware turn_start))
        \<and> current_frame (hart (turn_world s')) = None
        \<and> demo_turn record_timer [0xffffffc010000000 \<mapsto> UART_PHYSICAL] 0xffffffc000000000 0x40000 ?go (turn_start\<lparr>turn_process := p\<rparr>) = None)"
    using demo_turn_uses_freed_frame [OF refl _ b _ _ s(1-4), of "0x40000" "0x8000" Map.empty ?go record_timer] by fastforce
  have "ms' 0x50000 = Some 0" using ms [rule_format, of 0] by simp
  moreover from t obtain s' where "demo_switch record_timer [0xffffffc010000000 \<mapsto> UART_PHYSICAL] 0xffffffc000000000 0x40000 ?go
      (turn_start\<lparr>turn_process := p\<rparr>) = Some s'" "length (turn_firmware s') = 1" "current_frame (hart (turn_world s')) = None"
    "demo_turn record_timer [0xffffffc010000000 \<mapsto> UART_PHYSICAL] 0xffffffc000000000 0x40000 ?go (turn_start\<lparr>turn_process := p\<rparr>) = None"
    by (auto simp: r s(5))
  ultimately show ?thesis using p s(1) by (intro exI [of _ p] exI [of _ ms'] exI [of _ "()"]) simp
qed

end
