(* ===== verification/Spec2Isabelle.thy ===== *)
theory Spec2Isabelle
  imports Paging Spin_Properties Async_Guard_Properties Executor_Properties Console Trap_Properties Plic Device_Tree_Statics
    Arc_Inject Hart_Locals Send_Interleaving Io Local_Waker Thread_Locality
    Entry_Asm Cpu_Asm Demo_Process
begin

text \<open>
  A verification development for async-kernel, a supervisor-mode kernel for 64-bit RISC-V in Rust
  (\<^verbatim>\<open>src/kernel\<close>).

  \<^bold>\<open>The program.\<close> A bootloader (\<^verbatim>\<open>kernel_bootloader\<close>) builds an Sv39 page table that maps
  physical memory twice, maps the kernel image and jumps to it. The kernel (\<^verbatim>\<open>kernel_main\<close>)
  initialises its heap, starts the other harts through the firmware and gives each hart a page table, a
  trap frame and an executor. From then on each hart runs futures: a local executor per hart, a shared
  one for all, driven by an endless loop that waits for interrupts when nothing is to be done. Futures
  wait for each other with asynchronous locks and notifications; code that cannot wait uses spin locks,
  locks that also disable interrupts (shared between interrupt handlers and other code), or locks for
  interrupt handlers only. Devices are found through the flattened device tree, and external interrupts
  come through the platform-level interrupt controller.

  \<^bold>\<open>Conventions.\<close> A function of the model has the name of the Rust function where possible. Structs
  are records, enums datatypes, \<^verbatim>\<open>usize\<close> is a 64-bit word, indices and lengths of vectors are natural
  numbers. Arithmetic is that of the debug profile: an overflow panics. The panic handler loops, so a panic,
  an endless wait on a lock of the same hart, a use of freed memory and a loop that does not end are all
  the value \<^const>\<open>None\<close> of an option type: the function does not return. State is passed explicitly.
  Loops that may not end are partial functions in the option type (spinning, starting harts, reading to the
  end of a stream), all other loops have a termination proof; no definition takes fuel. The only numeric bound
  is \<open>reader_limit\<close>, the number of readers (\<open>2\<^sup>6\<^sup>3 - 1\<close>) at which the counter of a reader-writer lock would
  overflow. Code outside the repository is a parameter: the global allocator, the firmware, the behaviour of
  tasks and wakers, \<^verbatim>\<open>read\<close> of a stream, linker symbols.

  \<^bold>\<open>Theories.\<close>
  \<^item> Kernel_Prelude: machine integers, checked arithmetic, panics, loops over lists in the option type.
  \<^item> Page_Entries, Page_Tables, Page_Walk, Page_Split, Page_Map, Paging: \<^verbatim>\<open>kernel_paging\<close> (\<^verbatim>\<open>lib.rs\<close> entries and
    tables, \<^verbatim>\<open>paging.rs\<close> address arithmetic, \<^verbatim>\<open>query\<close>, \<^verbatim>\<open>split\<close>, \<^verbatim>\<open>map\<close>). Memory maps the address of a page
    table to its entries. Shown: what a mapping of superpages makes \<^verbatim>\<open>query\<close> return, inside and outside the
    range; splitting a superpage changes no translation; which errors a walk reports; the last level of
    \<^verbatim>\<open>map\<close> writes one page more than asked; the fields of an address are independent; canonical form.
  \<^item> Page_Image: mapping pages below the top level, with the two splits on the way, and every lookup afterwards.
  \<^item> Cpu: \<^verbatim>\<open>kernel_cpu\<close> and \<^verbatim>\<open>kernel_trap_frame\<close>: registers, control registers of a hart, trap frames.
  \<^item> Lock_Interfaces: the contracts of a mutex and of a reader-writer lock as locales.
  \<^item> Spin_Locks, Spin_Interleaving, Spin_Properties: \<^verbatim>\<open>kernel_lock/src/spin\<close>, once as sequential
    operations that satisfy the contracts, once as atomic steps of any number of clients. Shown: mutual
    exclusion, simulation of the contract by every interleaving, progress, the counts of readers never
    overflow.
  \<^item> Shared_Locks, Shared_Lock_Lemmas, Shared_Properties: \<^verbatim>\<open>shared\<close>, \<^verbatim>\<open>simple_shared\<close>, \<^verbatim>\<open>interrupt\<close>: locks
    together with the interrupt-enable bits of the hart. Shown: outside interrupt context, nesting keeps interrupts off exactly while a lock
    is held; the contract; what goes wrong in \<^verbatim>\<open>interrupt\<close> and in the release of \<^verbatim>\<open>simple_shared\<close>.
  \<^item> Async_Locks, Async_Properties: \<^verbatim>\<open>future\<close>: service in order, wake-ups of a release.
  \<^item> Async_Guards, Async_Guard_Properties: the values behind these locks, their guards, and tasks that share a
    lock, once with every access as a step and once with every poll and release as a step, which the first
    simulates. Shown: exclusion and stability of the value, no lost wake-up when polls and releases are not
    interrupted, and a task that is lost for ever when they are.
  \<^item> Executor, Executor_Properties, Send_Executor, Send_Interleaving: \<^verbatim>\<open>kernel_executor\<close>. Shown: no lost wake-up, the driver never
    sleeps on work, when a poll returns and when it panics; the shared executor refines the local one.
    Send_Interleaving takes the shared executor apart into its critical sections and interleaves those of several harts: no wake-up
    is lost between them, but the order of their locks allows a deadlock.
  \<^item> Notify: \<^verbatim>\<open>local_notify.rs\<close> and \<^verbatim>\<open>wait_future.rs\<close>. Shown: no lost notification.
  \<^item> BTree_Map, Device_Tree, Device_Tree_Build, Device_Tree_Properties, Device_Tree_Statics: \<^verbatim>\<open>kernel_chip_drivers/src/fdt.rs\<close>.
    Shown: parsing a serialised tree gives the tree; lookup after insertion; classification of properties; phandles; from the blob
    to the readers of the tree behind its lock.
  \<^item> Plic: \<^verbatim>\<open>kernel_chip_drivers/src/plic.rs\<close>. Shown: which register bits change.
  \<^item> Traps, Trap_Properties: \<^verbatim>\<open>kernel_sbi\<close>, \<^verbatim>\<open>timer.rs\<close>, \<^verbatim>\<open>trap_handler.rs\<close>, \<^verbatim>\<open>kernel_process\<close>,
    \<^verbatim>\<open>kernel_syscall\<close>, \<^verbatim>\<open>kernel_allocator\<close>. Shown: the cases of the trap handler, results of firmware calls,
    frames of processes, bounds of the heap.
  \<^item> Riscv, Trap_Asm, Context_Switch, Entry_Asm, Cpu_Asm: the assembly, \<^verbatim>\<open>kernel_main/src/asm/trap.S\<close> and \<^verbatim>\<open>syscall.S\<close>,
    \<^verbatim>\<open>kernel_bootloader/boot.S\<close>, the fragment in \<^verbatim>\<open>kernel_util\<close> and the inline assembly of \<^verbatim>\<open>kernel_cpu\<close>. Riscv is the hart: registers, control registers, memory,
    one step per instruction, where the linker places a routine. A routine of the model is the list of the lines of the
    source. The code the compiler makes of \<^verbatim>\<open>trap_handler\<close> and of the function inside \<^verbatim>\<open>switch_to_and_come_back\<close> is a
    relation between the machine before and after, which says that it does what the model of the Rust function does
    and writes no memory but its stack. Shown: a trap is transparent to the code it interrupts and the switch to a process
    reaches it and its next interrupt comes back to the caller, as far as the integer registers go; the floating-point registers, which the
    assembly does not save, are those of whoever ran before; what an interrupt between the instructions of the
    switch destroys; the frame that stays current after the switch although it has been freed; the arguments of a system
    call; the entry of a hart; the accessors of control registers in Cpu are what their instructions do.
  \<^item> Demo_Process: the task at the end of \<^verbatim>\<open>common_hart_code\<close>, which makes a process and switches to it in a loop, over the timer,
    the console, the shared locks and the processes. Shown: what its first turn does, and that it ends with a use of the
    freed frame; the process itself panics after \<open>2\<^sup>3\<^sup>2\<close> rounds.
  \<^item> Arc_Inject: \<^verbatim>\<open>arcinject\<close>. Shown: the counts are exact on the operations that count, and two ways to a use
    after free.
  \<^item> Boot, Boot_Image, Boot_Kernel, Hart_Start, Hart_Tables, Hart_Locals: the bootloader and the start of
    \<^verbatim>\<open>kernel_main\<close>. Shown: the bootloader reaches the kernel with its image mapped, the kernel finds the
    image and the address space it assumes; every hart that the firmware knows is requested once with a stack of its own, builds its own page table and finds its own
    locals; the shared locks do not disable interrupts on it.
  \<^item> Console: the serial writers and printing macros of \<^verbatim>\<open>kernel_printer\<close>, \<^verbatim>\<open>kernel_main\<close>, \<^verbatim>\<open>kernel_bootloader\<close> and
    the two \<^verbatim>\<open>debug.rs\<close>, over a translation of addresses and the list of stores that reach the bus, the panic messages and the
    text of entries and of the device tree. Shown: what is printed reaches the serial port under the tables of the
    bootloader and of a hart, except from the debug macros; texts read back; the tree is listed in the order of \<^verbatim>\<open>walk\<close>.
  \<^item> Thread_Locality, Refcounts, Local_Waker: \<^verbatim>\<open>kernel_send_generic\<close>, \<^verbatim>\<open>kernel_lock/src/lock/mod.rs\<close> and
    \<^verbatim>\<open>non_send_waker.rs\<close>: the traits as locales, interpreted on the single-threaded and on the atomic
    implementation. Shown: programs over lock guards give the same results on both; a waker of the local executor, which is a raw pointer to a
    counted box, never uses a freed box and frees it with its last clone. The reference counts themselves only forward to the standard
    library; Refcounts says what is used of it.
  \<^item> Io: \<^verbatim>\<open>kernel_io\<close>. Shown: reading streams to the end and exactly.

  \<^bold>\<open>Not modelled.\<close> The messages of the trap handler and of unknown system calls, log lines, the Send and Sync
  markers, the counting of \<^verbatim>\<open>Arc\<close>, to which \<^verbatim>\<open>lock/mod.rs\<close> forwards, the boxes around the printers, the comparison of hart numbers in a debug
  build of the spin lock, whose result is not used. Memory orderings weaker than sequential
  consistency are not modelled: an atomic access is one step on a shared cell. In the assembly, a write of \<^verbatim>\<open>satp\<close>
  does not change what an address denotes, because the code, frames and stacks it uses lie in the half that all tables map
  alike; caches of translations are not modelled. \<^verbatim>\<open>asm/boot.S\<close> is not included by any
  file and \<^verbatim>\<open>asm/hart boot.S\<close> is empty.
\<close>

end
